(* ===== verification/Prelude.thy ===== *)
theory Prelude
  imports Main "HOL-Library.Word"
begin

section \<open>Prelude: outcomes of C code, programs over a state, buffers\<close>

text \<open>
  What the components share.  A C function of the server is modelled as a \<open>prog\<close>: it takes the
  global state and gives an outcome with the state it leaves behind.  The outcome says how control
  left the function: it returned (\<open>Ret\<close>), it called \<^verbatim>\<open>error()\<close>, which \<^verbatim>\<open>longjmp\<close>s to
  \<^verbatim>\<open>toplevel\<close> (\<open>Err\<close>), it called \<^verbatim>\<open>exit\<close> or \<^verbatim>\<open>fatal\<close> (\<open>Quit\<close>), it had undefined behaviour:
  a NULL or dangling dereference or an access outside a buffer (\<open>Fault\<close>), or it never returned
  (\<open>Hang\<close>).  State changes made before an \<open>Err\<close> stay, as they do across a \<^verbatim>\<open>longjmp\<close>.
  Buffers are lists of their full size, so that writing past the end is a \<open>Fault\<close> and reading
  behind the terminating NUL finds what an earlier packet left there.
\<close>

unbundle bit_operations_syntax

subsection \<open>Types and collections of rules\<close>

type_synonym byte = "8 word"

named_theorems prog_simps \<open>evaluation of the program combinators\<close>
named_theorems preserves_intros \<open>introduction rules for preserved observations\<close>

subsection \<open>Outcomes\<close>

datatype 'a outcome =
    Ret 'a
  | Err string
  | Quit int
  | Fault
  | Hang

fun bind_o :: "'a outcome \<Rightarrow> ('a \<Rightarrow> 'b outcome) \<Rightarrow> 'b outcome" where
  "bind_o (Ret a) f = f a"
| "bind_o (Err e) f = Err e"
| "bind_o (Quit n) f = Quit n"
| "bind_o Fault f = Fault"
| "bind_o Hang f = Hang"

lemma bind_o_Ret_iff [simp]:
  "bind_o m f = Ret b \<longleftrightarrow> (\<exists>a. m = Ret a \<and> f a = Ret b)"
  by (cases m) auto

lemma bind_o_right_unit [simp]: "bind_o m Ret = m"
  by (cases m) auto

definition of_option :: "'a outcome option \<Rightarrow> 'a outcome" where
  \<comment> \<open>a loop of \<^theory_text>\<open>partial_function (option)\<close>: \<open>None\<close> is a loop that never ends\<close>
  "of_option r = (case r of None \<Rightarrow> Hang | Some a \<Rightarrow> a)"

lemma of_option_simps [simp]: "of_option None = Hang" "of_option (Some a) = a"
  by (simp_all add: of_option_def)

subsection \<open>Programs\<close>

type_synonym ('s, 'a) prog = "'s \<Rightarrow> 'a outcome \<times> 's"

definition return_p :: "'a \<Rightarrow> ('s, 'a) prog" where
  "return_p a = (\<lambda>s. (Ret a, s))"

definition outcome_p :: "'a outcome \<Rightarrow> ('s, 'a) prog" where
  "outcome_p r = (\<lambda>s. (r, s))"

definition error_p :: "string \<Rightarrow> ('s, 'a) prog" where
  "error_p msg = (\<lambda>s. (Err msg, s))"

definition exit_p :: "int \<Rightarrow> ('s, 'a) prog" where
  "exit_p n = (\<lambda>s. (Quit n, s))"

definition fault_p :: "('s, 'a) prog" where
  "fault_p = (\<lambda>s. (Fault, s))"

definition gets_p :: "('s \<Rightarrow> 'a) \<Rightarrow> ('s, 'a) prog" where
  "gets_p f = (\<lambda>s. (Ret (f s), s))"

definition modify_p :: "('s \<Rightarrow> 's) \<Rightarrow> ('s, unit) prog" where
  "modify_p f = (\<lambda>s. (Ret (), f s))"

definition bind_p :: "('s, 'a) prog \<Rightarrow> ('a \<Rightarrow> ('s, 'b) prog) \<Rightarrow> ('s, 'b) prog" where
  "bind_p m f = (\<lambda>s. case m s of
      (Ret a, s') \<Rightarrow> f a s'
    | (Err e, s') \<Rightarrow> (Err e, s')
    | (Quit n, s') \<Rightarrow> (Quit n, s')
    | (Fault, s') \<Rightarrow> (Fault, s')
    | (Hang, s') \<Rightarrow> (Hang, s'))"

definition seq_p :: "('s, 'a) prog \<Rightarrow> ('s, 'b) prog \<Rightarrow> ('s, 'b) prog" where
  "seq_p m n = bind_p m (\<lambda>_. n)"

definition when_p :: "bool \<Rightarrow> ('s, unit) prog \<Rightarrow> ('s, unit) prog" where
  "when_p b m = (if b then m else return_p ())"

definition deref_p :: "('s \<Rightarrow> 'a option) \<Rightarrow> ('s, 'a) prog" where
  \<comment> \<open>read through a pointer: \<open>None\<close> is NULL or freed memory\<close>
  "deref_p f = (\<lambda>s. case f s of None \<Rightarrow> (Fault, s) | Some a \<Rightarrow> (Ret a, s))"

lemma basic_prog_simps [simp]:
  "return_p a s = (Ret a, s)"
  "outcome_p r s = (r, s)"
  "error_p msg s = (Err msg, s)"
  "exit_p n s = (Quit n, s)"
  "fault_p s = (Fault, s)"
  "gets_p f s = (Ret (f s), s)"
  "modify_p g s = (Ret (), g s)"
  by (simp_all add: return_p_def outcome_p_def error_p_def exit_p_def fault_p_def gets_p_def
      modify_p_def)

lemma deref_p_simps [prog_simps]:
  "f s = None \<Longrightarrow> deref_p f s = (Fault, s)"
  "f s = Some a \<Longrightarrow> deref_p f s = (Ret a, s)"
  by (simp_all add: deref_p_def)

lemma bind_p_cases [prog_simps]:
  "m s = (Ret a, t) \<Longrightarrow> bind_p m f s = f a t"
  "m s = (Err e, t) \<Longrightarrow> bind_p m f s = (Err e, t)"
  "m s = (Quit n, t) \<Longrightarrow> bind_p m f s = (Quit n, t)"
  "m s = (Fault, t) \<Longrightarrow> bind_p m f s = (Fault, t)"
  "m s = (Hang, t) \<Longrightarrow> bind_p m f s = (Hang, t)"
  by (simp_all add: bind_p_def)

lemma bind_p_simps [simp]:
  "bind_p (return_p a) f s = f a s"
  "bind_p (gets_p g) f s = f (g s) s"
  "bind_p (modify_p u) h s = h () (u s)"
  "bind_p (error_p e) f s = (Err e, s)"
  "bind_p (exit_p n) f s = (Quit n, s)"
  "bind_p fault_p f s = (Fault, s)"
  "bind_p (outcome_p (Ret a)) f s = f a s"
  by (simp_all add: bind_p_def)

lemma bind_p_assoc [simp]: "bind_p (bind_p m f) g = bind_p m (\<lambda>a. bind_p (f a) g)"
  by (rule ext) (simp add: bind_p_def split: prod.split outcome.split)

lemma bind_p_if [simp]: "bind_p (if b then m else n) f = (if b then bind_p m f else bind_p n f)"
  by simp

lemma seq_p_apply [simp]: "seq_p m n s = bind_p m (\<lambda>_. n) s"
  by (simp add: seq_p_def)

lemma seq_p_bind [simp]: "bind_p (seq_p m n) f = bind_p m (\<lambda>_. bind_p n f)"
  by (simp add: seq_p_def)

lemma when_p_simps [simp]: "when_p True m = m" "when_p False m = return_p ()"
  by (simp_all add: when_p_def)

lemma bind_p_Ret_iff:
  "bind_p m f s = (Ret b, t) \<longleftrightarrow> (\<exists>a u. m s = (Ret a, u) \<and> f a u = (Ret b, t))"
  by (auto simp: bind_p_def split: prod.splits outcome.splits)

lemma bind_p_cong [fundef_cong]:
  assumes "m s = m' s'" and "\<And>a t. m' s' = (Ret a, t) \<Longrightarrow> f a t = f' a t"
  shows "bind_p m f s = bind_p m' f' s'"
  using assms by (auto simp: bind_p_def split: prod.splits outcome.splits)

text \<open>A list of programs run in order, as a \<^verbatim>\<open>for\<close> loop over fixed items.\<close>

primrec for_p :: "('a \<Rightarrow> ('s, unit) prog) \<Rightarrow> 'a list \<Rightarrow> ('s, unit) prog" where
  "for_p f [] = return_p ()"
| "for_p f (x # xs) = seq_p (f x) (for_p f xs)"

subsection \<open>Observations that a program leaves alone\<close>

definition preserves :: "('s \<Rightarrow> 'x) \<Rightarrow> ('s, 'a) prog \<Rightarrow> bool" where
  "preserves f m \<longleftrightarrow> (\<forall>s. f (snd (m s)) = f s)"

lemma preservesD: "preserves f m \<Longrightarrow> m s = (r, t) \<Longrightarrow> f t = f s"
  by (metis preserves_def snd_conv)

lemma preserves_basic [preserves_intros]:
  "preserves f (return_p a)" "preserves f (error_p e)" "preserves f (exit_p n)"
  "preserves f fault_p" "preserves f (gets_p g)" "preserves f (outcome_p r)"
  by (simp_all add: preserves_def)

lemma preserves_deref [preserves_intros]: "preserves f (deref_p g)"
  by (simp add: preserves_def deref_p_def split: option.split)

lemma preserves_modify [preserves_intros]: "(\<And>s. f (u s) = f s) \<Longrightarrow> preserves f (modify_p u)"
  by (simp add: preserves_def)

lemma preserves_bind [preserves_intros]:
  assumes "preserves f m" and "\<And>a. preserves f (g a)"
  shows "preserves f (bind_p m g)"
  using assms by (auto simp: preserves_def bind_p_def split: prod.splits outcome.splits) (metis snd_conv)+

lemma preserves_seq [preserves_intros]:
  "preserves f m \<Longrightarrow> preserves f n \<Longrightarrow> preserves f (seq_p m n)"
  by (simp add: seq_p_def preserves_bind)

lemma preserves_when [preserves_intros]: "preserves f m \<Longrightarrow> preserves f (when_p b m)"
  by (simp add: when_p_def preserves_basic)

lemma preserves_if [preserves_intros]:
  "(b \<Longrightarrow> preserves f m) \<Longrightarrow> (\<not> b \<Longrightarrow> preserves f n) \<Longrightarrow> preserves f (if b then m else n)"
  by simp

lemma preserves_option [preserves_intros]:
  "preserves f m \<Longrightarrow> (\<And>a. preserves f (g a)) \<Longrightarrow>
     preserves f (case x of None \<Rightarrow> m | Some a \<Rightarrow> g a)"
  by (cases x) auto

lemma preserves_prod [preserves_intros]:
  "(\<And>a b. preserves f (g a b)) \<Longrightarrow> preserves f (case x of (a, b) \<Rightarrow> g a b)"
  by (cases x) auto

lemma preserves_for [preserves_intros]:
  "(\<And>x. preserves f (g x)) \<Longrightarrow> preserves f (for_p g xs)"
  by (induction xs) (auto intro: preserves_intros)

subsection \<open>Buffers\<close>

definition NUL :: char where
  "NUL = CHR 0x00"

definition overwrite :: "'a list \<Rightarrow> nat \<Rightarrow> 'a list \<Rightarrow> 'a list" where
  \<comment> \<open>\<^verbatim>\<open>memcpy (buf + off, xs, length xs)\<close> inside the buffer\<close>
  "overwrite buf off xs = take off buf @ xs @ drop (off + length xs) buf"

definition store :: "'a list \<Rightarrow> nat \<Rightarrow> 'a list \<Rightarrow> 'a list outcome" where
  \<comment> \<open>the same with the bounds checked\<close>
  "store buf off xs =
     (if off + length xs \<le> length buf then Ret (overwrite buf off xs) else Fault)"

lemma length_overwrite [simp]:
  "off + length xs \<le> length buf \<Longrightarrow> length (overwrite buf off xs) = length buf"
  by (simp add: overwrite_def)

lemma length_store: "store buf off xs = Ret b \<Longrightarrow> length b = length buf"
  by (auto simp: store_def split: if_splits)

lemma nth_overwrite:
  assumes "off + length xs \<le> length buf" and "i < length buf"
  shows "overwrite buf off xs ! i =
    (if off \<le> i \<and> i < off + length xs then xs ! (i - off) else buf ! i)"
  using assms by (auto simp: overwrite_def nth_append min_def)

lemma overwrite_0_full: "length xs = length buf \<Longrightarrow> overwrite buf 0 xs = xs"
  by (simp add: overwrite_def)

lemma take_drop_overwrite [simp]:
  "off + length xs \<le> length buf \<Longrightarrow> take (length xs) (drop off (overwrite buf off xs)) = xs"
  by (simp add: overwrite_def min_def)

lemma take_drop_overwrite_disjoint:
  assumes "off + length xs \<le> length buf" and "a + n \<le> length buf"
    and "a + n \<le> off \<or> off + length xs \<le> a"
  shows "take n (drop a (overwrite buf off xs)) = take n (drop a buf)"
  proof (intro nth_equalityI)
  show "length (take n (drop a (overwrite buf off xs))) = length (take n (drop a buf))"
    using assms by simp
  fix i assume "i < length (take n (drop a (overwrite buf off xs)))"
  with assms have "i < n" "a + i < length buf" "\<not> (off \<le> a + i \<and> a + i < off + length xs)"
    by auto
  with assms show "take n (drop a (overwrite buf off xs)) ! i = take n (drop a buf) ! i"
    by (auto simp: nth_overwrite)
qed

definition cstr :: "string \<Rightarrow> nat \<Rightarrow> string" where
  \<comment> \<open>the C string that starts at an offset of a buffer\<close>
  "cstr buf off = takeWhile (\<lambda>c. c \<noteq> NUL) (drop off buf)"

definition chr_at :: "string \<Rightarrow> nat \<Rightarrow> char" where
  \<comment> \<open>\<^verbatim>\<open>s[i]\<close> of a C string: its terminating NUL is behind its last character\<close>
  "chr_at s i = (if i < length s then s ! i else NUL)"

lemma cstr_overwrite:
  assumes "NUL \<notin> set s"
  shows "cstr (overwrite buf 0 (s @ [NUL])) 0 = s"
  proof -
  have "\<And>zs. takeWhile (\<lambda>c. c \<noteq> NUL) (s @ NUL # zs) = s"
    using assms(1) by (induction s) auto
  then show ?thesis by (simp add: cstr_def overwrite_def)
qed

lemma NUL_notin_cstr: "NUL \<notin> set (cstr buf off)"
  by (auto simp: cstr_def dest: set_takeWhileD)

lemma length_cstr: "length (cstr buf off) \<le> length buf - off"
  unfolding cstr_def by (metis length_drop length_takeWhile_le)

lemma chr_at_simps [simp]:
  "chr_at [] i = NUL" "chr_at (c # s) 0 = c" "chr_at (c # s) (Suc i) = chr_at s i"
  by (simp_all add: chr_at_def)

definition starts_with :: "string \<Rightarrow> string \<Rightarrow> bool" where
  \<comment> \<open>\<^verbatim>\<open>strncmp (lit, s, strlen (lit)) == 0\<close>\<close>
  "starts_with lit s \<longleftrightarrow> take (length lit) s = lit"

definition cint :: "char \<Rightarrow> int" where
  \<comment> \<open>a \<^verbatim>\<open>char\<close> promoted to \<^verbatim>\<open>int\<close>; \<^verbatim>\<open>char\<close> is signed on this target\<close>
  "cint c = signed_take_bit 7 (of_char c)"

definition byte_of_char :: "char \<Rightarrow> byte" where
  "byte_of_char c = of_char c"

definition char_of_int :: "int \<Rightarrow> char" where
  \<comment> \<open>an \<^verbatim>\<open>int\<close> stored into a \<^verbatim>\<open>char\<close>\<close>
  "char_of_int n = char_of n"

definition wrap64 :: "int \<Rightarrow> int" where
  \<comment> \<open>\<^verbatim>\<open>long long\<close> arithmetic as the compiler does it\<close>
  "wrap64 n = signed_take_bit 63 n"

lemma wrap64_id: "- (2 ^ 63) \<le> n \<Longrightarrow> n < 2 ^ 63 \<Longrightarrow> wrap64 n = n"
  by (simp add: wrap64_def signed_take_bit_int_eq_self)

subsection \<open>Big-endian values in memory\<close>

fun bytes_be :: "nat \<Rightarrow> nat \<Rightarrow> byte list" where
  \<comment> \<open>the bytes of a value of the given width, as the target stores it\<close>
  "bytes_be 0 v = []"
| "bytes_be (Suc k) v = of_nat (v div 256 ^ k) # bytes_be k (v mod 256 ^ k)"

fun nat_be :: "byte list \<Rightarrow> nat" where
  "nat_be [] = 0"
| "nat_be (b # bs) = unat b * 256 ^ length bs + nat_be bs"

lemma length_bytes_be [simp]: "length (bytes_be k v) = k"
  by (induction k v rule: bytes_be.induct) auto

lemma nat_be_bound: "nat_be bs < 256 ^ length bs"
proof (induction bs)
  case (Cons b bs)
  have "unat b < 256" using unsigned_less [of b] by simp
  then have "Suc (unat b) * 256 ^ length bs \<le> 256 * 256 ^ length bs"
    by (intro mult_le_mono1) simp
  then have "unat b * 256 ^ length bs + 256 ^ length bs \<le> 256 * 256 ^ length bs"
    by (simp only: mult_Suc add.commute)
  with Cons.IH show ?case unfolding nat_be.simps length_Cons power_Suc by linarith
qed simp

lemma bytes_be_nat_be [simp]: "bytes_be (length bs) (nat_be bs) = bs"
proof (induction bs)
  case (Cons b bs)
  have "(unat b * 256 ^ length bs + nat_be bs) div 256 ^ length bs = unat b"
    using nat_be_bound [of bs] by (simp add: div_mult_self3)
  with Cons nat_be_bound [of bs] show ?case by simp
qed simp

lemma nat_be_bytes_be: "v < 256 ^ k \<Longrightarrow> nat_be (bytes_be k v) = v"
proof (induction k v rule: bytes_be.induct)
  case (2 k v)
  then have "v div 256 ^ k < 256" by (simp add: less_mult_imp_div_less)
  then have "unat (of_nat (v div 256 ^ k) :: byte) = v div 256 ^ k"
    by (simp add: unsigned_of_nat take_bit_nat_eq_self)
  with 2 show ?case by (simp add: div_mult_mod_eq)
qed simp

definition be32 :: "32 word \<Rightarrow> byte list" where "be32 w = bytes_be 4 (unat w)"
definition be64 :: "64 word \<Rightarrow> byte list" where "be64 w = bytes_be 8 (unat w)"
definition of_be32 :: "byte list \<Rightarrow> 32 word" where "of_be32 bs = of_nat (nat_be bs)"
definition of_be64 :: "byte list \<Rightarrow> 64 word" where "of_be64 bs = of_nat (nat_be bs)"

lemma length_be [simp]: "length (be32 w) = 4" "length (be64 v) = 8"
  by (simp_all add: be32_def be64_def)

lemma of_be32_be32 [simp]: "of_be32 (be32 w) = w"
  using unsigned_less [of w, where ?'a = nat] by (simp add: of_be32_def be32_def nat_be_bytes_be)

lemma of_be64_be64 [simp]: "of_be64 (be64 w) = w"
  using unsigned_less [of w, where ?'a = nat] by (simp add: of_be64_def be64_def nat_be_bytes_be)

lemma be32_of_be32: "length bs = 4 \<Longrightarrow> be32 (of_be32 bs) = bs"
proof -
  assume l: "length bs = 4"
  then have "nat_be bs < 2 ^ 32" using nat_be_bound [of bs] by simp
  then have "unat (of_be32 bs) = nat_be bs"
    by (simp add: of_be32_def unsigned_of_nat take_bit_nat_eq_self)
  with bytes_be_nat_be [of bs] l show ?thesis by (simp add: be32_def)
qed

lemma be64_of_be64: "length bs = 8 \<Longrightarrow> be64 (of_be64 bs) = bs"
proof -
  assume l: "length bs = 8"
  then have "nat_be bs < 2 ^ 64" using nat_be_bound [of bs] by simp
  then have "unat (of_be64 bs) = nat_be bs"
    by (simp add: of_be64_def unsigned_of_nat take_bit_nat_eq_self)
  with bytes_be_nat_be [of bs] l show ?thesis by (simp add: be64_def)
qed

end
