(* ===== verification/Kernel.thy ===== *)
theory Kernel
  imports Prelude
begin

section \<open>The operating system as a parameter, and the target interface\<close>

text \<open>
  The server sits between a remote client and the kernel.  What it calls of the kernel (Mach traps,
  \<^verbatim>\<open>ptrace\<close>, \<^verbatim>\<open>waitpid\<close>, \<^verbatim>\<open>kill\<close>) is not part of the repository: it is a record of functions over a
  kernel state \<open>'k\<close>, an argument of every definition that makes such a call.  The components extend
  one state record, as the C files add their globals to one program; its root holds the kernel
  state.  \<open>target_ops\<close> is the table of function pointers of include/target.h, through which the
  generic code calls the Darwin code.
\<close>

subsection \<open>Kernel interface\<close>

datatype ptrace_request =
  PT_READ_D | PT_WRITE_D | PT_CONTINUE | PT_STEP | PT_KILL | PT_ATTACH | PT_DETACH

datatype wait_status =
    WExited byte      \<comment> \<open>\<^verbatim>\<open>WIFEXITED\<close>, with \<^verbatim>\<open>WEXITSTATUS\<close>\<close>
  | WSignaled byte    \<comment> \<open>\<^verbatim>\<open>WIFSIGNALED\<close>, with \<^verbatim>\<open>WTERMSIG\<close>\<close>
  | WStopped byte     \<comment> \<open>\<^verbatim>\<open>WIFSTOPPED\<close>, with \<^verbatim>\<open>WSTOPSIG\<close>\<close>
  | WOther

datatype wait_result =
    WaitFailed int    \<comment> \<open>-1, with \<^verbatim>\<open>errno\<close>\<close>
  | WaitDone wait_status

definition EINTR :: int where "EINTR = 4"
definition EIO :: int where "EIO = 5"
definition ECHILD :: int where "ECHILD = 10"

definition MACH_PORT_NULL :: nat where "MACH_PORT_NULL = 0"

record ppc_thread_state =
  srr0 :: "32 word"
  srr1 :: "32 word"
  gprs :: "nat \<Rightarrow> 32 word" \<comment> \<open>\<^verbatim>\<open>r0\<close> to \<^verbatim>\<open>r31\<close>, contiguous in the struct\<close>
  cr :: "32 word"
  xer :: "32 word"
  lr :: "32 word"
  ctr :: "32 word"
  mq :: "32 word"
  vrsave :: "32 word"

record ppc_float_state =
  fpregs :: "nat \<Rightarrow> 64 word" \<comment> \<open>the 32 doubles, by their representation\<close>
  fpscr_pad :: "32 word"
  fpscr :: "32 word"

record 'k kernel =
  k_spawn :: "string \<Rightarrow> string list \<Rightarrow> 'k \<Rightarrow> int \<times> 'k"
    \<comment> \<open>\<^verbatim>\<open>fork\<close>, whose child traces itself and executes the program; the parent's result\<close>
  k_task_for_pid :: "int \<Rightarrow> 'k \<Rightarrow> nat option \<times> 'k"
  k_task_threads :: "nat \<Rightarrow> 'k \<Rightarrow> nat list option \<times> 'k"
  k_ptrace :: "ptrace_request \<Rightarrow> int \<Rightarrow> int \<Rightarrow> 32 word \<Rightarrow> 'k \<Rightarrow> (32 word \<times> int) \<times> 'k"
    \<comment> \<open>result and \<^verbatim>\<open>errno\<close>, which is 0 unless the call failed\<close>
  k_waitpid :: "int \<Rightarrow> 'k \<Rightarrow> wait_result \<times> 'k"
  k_kill :: "int \<Rightarrow> int \<Rightarrow> 'k \<Rightarrow> bool \<times> 'k"
    \<comment> \<open>whether the call succeeded\<close>
  k_vm_read :: "nat \<Rightarrow> int \<Rightarrow> nat \<Rightarrow> 'k \<Rightarrow> byte list option \<times> 'k"
  k_vm_write :: "nat \<Rightarrow> int \<Rightarrow> byte list \<Rightarrow> 'k \<Rightarrow> bool \<times> 'k"
  k_vm_protect :: "nat \<Rightarrow> int \<Rightarrow> nat \<Rightarrow> 'k \<Rightarrow> bool \<times> 'k"
  k_get_state :: "nat \<Rightarrow> 'k \<Rightarrow> ppc_thread_state option \<times> 'k"
  k_set_state :: "nat \<Rightarrow> ppc_thread_state \<Rightarrow> 'k \<Rightarrow> bool \<times> 'k"
  k_get_float :: "nat \<Rightarrow> 'k \<Rightarrow> ppc_float_state option \<times> 'k"
  k_set_float :: "nat \<Rightarrow> ppc_float_state \<Rightarrow> 'k \<Rightarrow> bool \<times> 'k"

definition vm_address :: "int \<Rightarrow> int" where
  \<comment> \<open>the cast of a \<^verbatim>\<open>CORE_ADDR\<close> to a 32-bit address\<close>
  "vm_address a = a mod 4294967296"

subsection \<open>The root of the state\<close>

record 'k machine =
  kst :: 'k

definition kcall :: "('k \<Rightarrow> 'a \<times> 'k) \<Rightarrow> (('k, 'z) machine_scheme, 'a) prog" where
  "kcall f = (\<lambda>s. case f (kst s) of (a, k) \<Rightarrow> (Ret a, s\<lparr>kst := k\<rparr>))"

definition kcall_loop :: "('k \<Rightarrow> ('a \<times> 'k) option) \<Rightarrow> (('k, 'z) machine_scheme, 'a) prog" where
  \<comment> \<open>a loop of system calls, which may go on for ever\<close>
  "kcall_loop f = (\<lambda>s. case f (kst s) of
      None \<Rightarrow> (Hang, s)
    | Some (a, k) \<Rightarrow> (Ret a, s\<lparr>kst := k\<rparr>))"

lemma preserves_kcall_loop [preserves_intros]:
  "(\<And>s k. f (s\<lparr>kst := k\<rparr>) = f s) \<Longrightarrow> preserves f (kcall_loop g)"
  by (auto simp: preserves_def kcall_loop_def split: option.split prod.split)

lemma kcall_eq: "f (kst s) = (a, k) \<Longrightarrow> kcall f s = (Ret a, s\<lparr>kst := k\<rparr>)"
  by (simp add: kcall_def)

lemma preserves_kcall [preserves_intros]:
  "(\<And>s k. f (s\<lparr>kst := k\<rparr>) = f s) \<Longrightarrow> preserves f (kcall g)"
  by (simp add: preserves_def kcall_def split: prod.split)

subsection \<open>The target interface (include/target.h)\<close>

record thread_resume =
  tr_thread :: int
  leave_stopped :: bool
  tr_step :: bool
  tr_sig :: int

record 's target_ops =
  create_inferior :: "string \<Rightarrow> string list \<Rightarrow> ('s, int) prog"
  t_attach :: "int \<Rightarrow> ('s, int) prog"
  t_kill :: "('s, unit) prog"
  t_detach :: "('s, unit) prog"
  thread_alive :: "int \<Rightarrow> ('s, bool) prog"
  t_resume :: "thread_resume list \<Rightarrow> ('s, unit) prog"
  t_wait :: "('s, char \<times> byte) prog"
    \<comment> \<open>\<^verbatim>\<open>*statusp\<close> and the result\<close>
  fetch_registers :: "int \<Rightarrow> ('s, unit) prog"
  store_registers :: "int \<Rightarrow> ('s, unit) prog"
  read_memory :: "int \<Rightarrow> nat \<Rightarrow> ('s, byte list) prog"
    \<comment> \<open>the bytes written to the buffer\<close>
  write_memory :: "int \<Rightarrow> byte list \<Rightarrow> ('s, int) prog"
  look_up_symbols :: "('s, unit) prog option"
  send_signal :: "int \<Rightarrow> ('s, unit) prog"
  read_auxv :: "(int \<Rightarrow> nat \<Rightarrow> ('s, int \<times> byte list) prog) option"

end
