(* ===== verification/RegDefs.thy ===== *)
theory RegDefs
  imports Kernel
begin

section \<open>Register definitions (include/regdef.h, src/reg-ppc.c, statics of src/regcache.c)\<close>

text \<open>
  The table of registers and its layout in the register buffer: \<open>set_register_cache\<close> gives every
  register its bit offset and computes the size of the buffer.  \<open>regs_ppc\<close> is the table of
  PowerPC.  The lookup functions of src/regcache.c that only read the table are here too.
\<close>

record reg =
  reg_name :: string
  reg_offset :: int
  reg_size :: int

definition mk_reg :: "string \<Rightarrow> int \<Rightarrow> int \<Rightarrow> reg" where
  "mk_reg n ofs sz = \<lparr>reg_name = n, reg_offset = ofs, reg_size = sz\<rparr>"

record 'k regdef_state = "'k machine" +
  reg_defs :: "reg list"      \<comment> \<open>with \<^verbatim>\<open>num_registers\<close> its length\<close>
  register_bytes :: nat
  gdbserver_expedite_regs :: "string list"

definition regs_ppc :: "reg list" where
  "regs_ppc = [
    mk_reg ''r0'' 0 32, mk_reg ''r1'' 32 32, mk_reg ''r2'' 64 32,
    mk_reg ''r3'' 96 32, mk_reg ''r4'' 128 32, mk_reg ''r5'' 160 32,
    mk_reg ''r6'' 192 32, mk_reg ''r7'' 224 32, mk_reg ''r8'' 256 32,
    mk_reg ''r9'' 288 32, mk_reg ''r10'' 320 32, mk_reg ''r11'' 352 32,
    mk_reg ''r12'' 384 32, mk_reg ''r13'' 416 32, mk_reg ''r14'' 448 32,
    mk_reg ''r15'' 480 32, mk_reg ''r16'' 512 32, mk_reg ''r17'' 544 32,
    mk_reg ''r18'' 576 32, mk_reg ''r19'' 608 32, mk_reg ''r20'' 640 32,
    mk_reg ''r21'' 672 32, mk_reg ''r22'' 704 32, mk_reg ''r23'' 736 32,
    mk_reg ''r24'' 768 32, mk_reg ''r25'' 800 32, mk_reg ''r26'' 832 32,
    mk_reg ''r27'' 864 32, mk_reg ''r28'' 896 32, mk_reg ''r29'' 928 32,
    mk_reg ''r30'' 960 32, mk_reg ''r31'' 992 32, mk_reg ''f0'' 1024 64,
    mk_reg ''f1'' 1088 64, mk_reg ''f2'' 1152 64, mk_reg ''f3'' 1216 64,
    mk_reg ''f4'' 1280 64, mk_reg ''f5'' 1344 64, mk_reg ''f6'' 1408 64,
    mk_reg ''f7'' 1472 64, mk_reg ''f8'' 1536 64, mk_reg ''f9'' 1600 64,
    mk_reg ''f10'' 1664 64, mk_reg ''f11'' 1728 64, mk_reg ''f12'' 1792 64,
    mk_reg ''f13'' 1856 64, mk_reg ''f14'' 1920 64, mk_reg ''f15'' 1984 64,
    mk_reg ''f16'' 2048 64, mk_reg ''f17'' 2112 64, mk_reg ''f18'' 2176 64,
    mk_reg ''f19'' 2240 64, mk_reg ''f20'' 2304 64, mk_reg ''f21'' 2368 64,
    mk_reg ''f22'' 2432 64, mk_reg ''f23'' 2496 64, mk_reg ''f24'' 2560 64,
    mk_reg ''f25'' 2624 64, mk_reg ''f26'' 2688 64, mk_reg ''f27'' 2752 64,
    mk_reg ''f28'' 2816 64, mk_reg ''f29'' 2880 64, mk_reg ''f30'' 2944 64,
    mk_reg ''f31'' 3008 64, mk_reg ''pc'' 3072 32, mk_reg ''ps'' 3104 32,
    mk_reg ''cr'' 3136 32, mk_reg ''lr'' 3168 32, mk_reg ''ctr'' 3200 32,
    mk_reg ''xer'' 3232 32, mk_reg ''fpscr'' 3264 32]"

definition expedite_regs_ppc :: "string list" where
  "expedite_regs_ppc = [''r1'', ''pc'']"

subsection \<open>The operations\<close>

fun layout_regs :: "int \<Rightarrow> reg list \<Rightarrow> reg list \<times> int" where
  \<comment> \<open>the loop of \<^verbatim>\<open>set_register_cache\<close>: the registers with their offsets, and the final offset\<close>
  "layout_regs offset [] = ([], offset)"
| "layout_regs offset (r # regs) =
     (let (rs, total) = layout_regs (offset + reg_size r) regs
      in (r\<lparr>reg_offset := offset\<rparr> # rs, total))"

definition set_register_cache :: "reg list \<Rightarrow> (('k, 'z) regdef_state_scheme, unit) prog" where
  "set_register_cache regs = modify_p (\<lambda>s.
     let (rs, offset) = layout_regs 0 regs
     in s\<lparr>reg_defs := rs, register_bytes := nat (offset div 8)\<rparr>)"

definition init_registers :: "(('k, 'z) regdef_state_scheme, unit) prog" where
  "init_registers =
     seq_p (set_register_cache regs_ppc)
       (modify_p (\<lambda>s. s\<lparr>gdbserver_expedite_regs := expedite_regs_ppc\<rparr>))"

definition registers_length :: "('k, 'z) regdef_state_scheme \<Rightarrow> nat" where
  "registers_length s = 2 * register_bytes s"

definition PBUFSIZ :: "('k, 'z) regdef_state_scheme \<Rightarrow> nat" where
  "PBUFSIZ s = (if registers_length s + 32 > 2000 then registers_length s + 32 else 2000)"

fun find_reg_loop :: "string \<Rightarrow> nat \<Rightarrow> reg list \<Rightarrow> nat option" where
  "find_reg_loop name i [] = None"
| "find_reg_loop name i (r # rs) =
     (if name = reg_name r then Some i else find_reg_loop name (Suc i) rs)"

definition find_regno :: "string \<Rightarrow> (('k, 'z) regdef_state_scheme, int) prog" where
  "find_regno name = (\<lambda>s. case find_reg_loop name 0 (reg_defs s) of
      Some i \<Rightarrow> (Ret (int i), s)
    | None \<Rightarrow> exit_p 1 s)"  \<comment> \<open>\<^verbatim>\<open>fatal ("Unknown register %s requested")\<close>\<close>

definition find_register_by_name :: "string \<Rightarrow> (('k, 'z) regdef_state_scheme, nat) prog" where
  \<comment> \<open>a pointer into \<^verbatim>\<open>reg_defs\<close> is its index\<close>
  "find_register_by_name name = (\<lambda>s. case find_reg_loop name 0 (reg_defs s) of
      Some i \<Rightarrow> (Ret i, s)
    | None \<Rightarrow> exit_p 1 s)"

definition find_register_by_number :: "int \<Rightarrow> int option" where
  \<comment> \<open>\<^verbatim>\<open>&reg_defs[n]\<close>: an address into or outside the array, never NULL\<close>
  "find_register_by_number n = Some n"

definition reg_at :: "int \<Rightarrow> (('k, 'z) regdef_state_scheme, reg) prog" where
  \<comment> \<open>\<^verbatim>\<open>reg_defs[n]\<close>\<close>
  "reg_at n = (\<lambda>s. if 0 \<le> n \<and> n < int (length (reg_defs s)) then (Ret (reg_defs s ! nat n), s)
      else (Fault, s))"

definition register_size :: "int \<Rightarrow> (('k, 'z) regdef_state_scheme, nat) prog" where
  "register_size n = bind_p (reg_at n) (\<lambda>r. return_p (nat (reg_size r div 8)))"

subsection \<open>The layout\<close>

definition byte_sized :: "reg list \<Rightarrow> bool" where
  \<comment> \<open>what include/regdef.h asks of the sizes\<close>
  "byte_sized regs \<longleftrightarrow> list_all (\<lambda>r. 0 < reg_size r \<and> 8 dvd reg_size r) regs"

definition regs_wf :: "reg list \<Rightarrow> nat \<Rightarrow> bool" where
  \<comment> \<open>every register has whole bytes of its own in a buffer of the given size\<close>
  "regs_wf rs bytes \<longleftrightarrow>
     (\<forall>i < length rs. 0 \<le> reg_offset (rs ! i) \<and> 0 < reg_size (rs ! i) \<and> 8 dvd reg_offset (rs ! i)
        \<and> 8 dvd reg_size (rs ! i) \<and> reg_offset (rs ! i) + reg_size (rs ! i) \<le> 8 * int bytes) \<and>
     (\<forall>i j. i < j \<and> j < length rs \<longrightarrow>
        reg_offset (rs ! i) + reg_size (rs ! i) \<le> reg_offset (rs ! j))"

lemma layout_regs_same:
  "layout_regs ofs regs = (rs, tot) \<Longrightarrow>
     map reg_size rs = map reg_size regs \<and> map reg_name rs = map reg_name regs"
  by (induction ofs regs arbitrary: rs tot rule: layout_regs.induct) (auto split: prod.splits)

lemma layout_regs_wf:
  assumes "layout_regs ofs regs = (rs, tot)" and "byte_sized regs" and "0 \<le> ofs" and "8 dvd ofs"
  shows "ofs \<le> tot \<and> 8 dvd tot \<and> regs_wf rs (nat (tot div 8))
    \<and> (\<forall>i < length rs. ofs \<le> reg_offset (rs ! i))"
  using assms
proof (induction ofs regs arbitrary: rs tot rule: layout_regs.induct)
  case (1 ofs) then show ?case by (auto simp: regs_wf_def)
next
  case (2 ofs r regs)
  obtain rs' where rs': "layout_regs (ofs + reg_size r) regs = (rs', tot)"
      "rs = r\<lparr>reg_offset := ofs\<rparr> # rs'"
    using "2.prems"(1) by (auto split: prod.splits)
  have r: "0 < reg_size r" "8 dvd reg_size r" "byte_sized regs"
    using "2.prems"(2) by (auto simp: byte_sized_def)
  have IH: "ofs + reg_size r \<le> tot" "8 dvd tot" "regs_wf rs' (nat (tot div 8))"
      "\<forall>i < length rs'. ofs + reg_size r \<le> reg_offset (rs' ! i)"
    using "2.IH" [OF rs'(1) r(3)] r "2.prems" by auto
  have tot: "8 * int (nat (tot div 8)) = tot" using IH(1,2) "2.prems"(3) r(1) by auto
  have "regs_wf rs (nat (tot div 8))"
    unfolding regs_wf_def
  proof (intro conjI allI impI, goal_cases)
    case (1 i)
    then show ?case using "2.prems"(3,4) r IH tot rs'(2)
      by (cases i) (auto simp: regs_wf_def)
  next
    case (2 i) then show ?case using r IH rs'(2) by (cases i) (auto simp: regs_wf_def)
  next
    case (3 i) then show ?case using "2.prems"(3,4) r IH tot rs'(2)
      by (cases i) (auto simp: regs_wf_def)
  next
    case (4 i) then show ?case using "2.prems"(3,4) r IH tot rs'(2)
      by (cases i) (auto simp: regs_wf_def)
  next
    case (5 i)
    then show ?case using "2.prems"(3,4) r IH tot rs'(2)
      by (cases i) (auto simp: regs_wf_def)
  next
    case (6 i j)
    then obtain j' where j': "j = Suc j'" by (cases j) auto
    show ?case
    proof (cases i)
      case 0 then show ?thesis using 6 j' IH(4) rs'(2) by auto
    next
      case (Suc i') then show ?thesis using 6 j' IH(3) rs'(2) by (auto simp: regs_wf_def)
    qed
  qed
  moreover have "\<forall>i < length rs. ofs \<le> reg_offset (rs ! i)"
    using IH(4) r(1) rs'(2) by (auto simp: nth_Cons less_Suc_eq_0_disj)
  ultimately show ?case using IH(1,2) r(1) by simp
qed

lemma set_register_cache_wf:
  assumes "byte_sized regs"
  shows "\<exists>rs bytes. set_register_cache regs s =
      (Ret (), s\<lparr>reg_defs := rs, register_bytes := bytes\<rparr>)
    \<and> regs_wf rs bytes \<and> map reg_name rs = map reg_name regs \<and> map reg_size rs = map reg_size regs"
proof -
  obtain rs tot where l: "layout_regs 0 regs = (rs, tot)" by (cases "layout_regs 0 regs")
  with layout_regs_wf [OF l assms] layout_regs_same [OF l] show ?thesis
    by (auto simp: set_register_cache_def)
qed

subsection \<open>The PowerPC table\<close>

lemma regs_ppc_layout: "layout_regs 0 regs_ppc = (regs_ppc, 3296)"
  by (simp add: regs_ppc_def mk_reg_def)

lemma regs_ppc_byte_sized: "byte_sized regs_ppc"
  by (simp add: regs_ppc_def mk_reg_def byte_sized_def)

lemma length_regs_ppc [simp]: "length regs_ppc = 71"
  by (simp add: regs_ppc_def)

lemma regs_wf_ppc: "regs_wf regs_ppc 412"
  using layout_regs_wf [OF regs_ppc_layout regs_ppc_byte_sized] by simp

lemma init_registers_eq:
  "init_registers s = (Ret (), s\<lparr>reg_defs := regs_ppc, register_bytes := 412,
     gdbserver_expedite_regs := expedite_regs_ppc\<rparr>)"
  by (simp add: init_registers_def set_register_cache_def regs_ppc_layout)

subsection \<open>Lookup\<close>

lemma find_reg_loop_Some:
  assumes "find_reg_loop name i rs = Some k"
  shows "i \<le> k \<and> k < i + length rs \<and> reg_name (rs ! (k - i)) = name"
  using assms
proof (induction name i rs rule: find_reg_loop.induct)
  case (2 name i r rs)
  show ?case
  proof (cases "name = reg_name r")
    case False
    with 2 have "Suc i \<le> k \<and> k < Suc i + length rs \<and> reg_name (rs ! (k - Suc i)) = name" by simp
    moreover from this have "k - i = Suc (k - Suc i)" by auto
    ultimately show ?thesis by auto
  qed (use 2 in simp)
qed simp

lemma find_reg_loop_None:
  "find_reg_loop name i rs = None \<longleftrightarrow> name \<notin> reg_name ` set rs"
  by (induction name i rs rule: find_reg_loop.induct) auto

lemma find_reg_loop_distinct:
  assumes "distinct (map reg_name rs)" and "k < length rs"
  shows "find_reg_loop (reg_name (rs ! k)) i rs = Some (i + k)"
  using assms
proof (induction rs arbitrary: i k)
  case (Cons r rs)
  show ?case
  proof (cases k)
    case (Suc k')
    with Cons.prems have "reg_name (rs ! k') \<in> reg_name ` set rs" by simp
    with Cons.prems have "reg_name (rs ! k') \<noteq> reg_name r" by auto
    with Cons Suc show ?thesis by simp
  qed simp
qed simp

lemma regs_ppc_names: "distinct (map reg_name regs_ppc)"
  by (simp add: regs_ppc_def mk_reg_def)

end
