(* ===== verification/Inferiors.thy ===== *)
theory Inferiors
  imports RegDefs
begin

section \<open>Threads and their lists (src/inferiors.c)\<close>

text \<open>
  Threads and processes hang in singly linked lists with a head and a tail pointer.  The entries
  live in a heap, \<open>entries\<close>, from addresses to entries; the entry is the first field of the
  structure around it, so the rest of a thread is found at the same address in \<open>threads\<close>.  Freeing
  removes the address, and following a pointer to it is a \<open>Fault\<close>.  The loops follow \<^verbatim>\<open>next\<close>
  pointers, which need not end, so they are partial functions.  The abstraction \<open>wf_list\<close> relates a
  list in the heap to the list of its addresses; the refinement lemmas say that the operations
  append, remove and search in that list.
\<close>

record inferior_list_entry =
  ent_id :: int
  next_ptr :: "nat option"

record inferior_list =
  head :: "nat option"
  tail :: "nat option"

record inferior_regcache_data =
  registers_valid :: bool
  registers :: "byte list"

record thread_info =
  target_data :: "nat option"
  regcache_data :: "inferior_regcache_data option"

type_synonym heap = "nat \<rightharpoonup> inferior_list_entry"

record 'k inf_state = "'k regdef_state" +
  entries :: heap
  threads :: "nat \<rightharpoonup> thread_info"
  heap_brk :: nat               \<comment> \<open>the next address \<^verbatim>\<open>malloc\<close> gives out\<close>
  all_threads :: inferior_list
  current_inferior :: "nat option"

definition empty_list :: inferior_list where
  "empty_list = \<lparr>head = None, tail = None\<rparr>"

subsection \<open>List operations\<close>

definition upd_entry :: "heap \<Rightarrow> nat \<Rightarrow> (inferior_list_entry \<Rightarrow> inferior_list_entry) \<Rightarrow> heap outcome"
where
  \<comment> \<open>a write through a pointer\<close>
  "upd_entry h p f = (case h p of None \<Rightarrow> Fault | Some e \<Rightarrow> Ret (h(p \<mapsto> f e)))"

definition add_inferior_to_list ::
  "heap \<Rightarrow> inferior_list \<Rightarrow> nat \<Rightarrow> (heap \<times> inferior_list) outcome" where
  "add_inferior_to_list h list new_inferior =
     bind_o (upd_entry h new_inferior (\<lambda>e. e\<lparr>next_ptr := None\<rparr>)) (\<lambda>h1.
       case tail list of
         Some t \<Rightarrow>
           bind_o (upd_entry h1 t (\<lambda>e. e\<lparr>next_ptr := Some new_inferior\<rparr>)) (\<lambda>h2.
             Ret (h2, list\<lparr>tail := Some new_inferior\<rparr>))
       | None \<Rightarrow> Ret (h1, list\<lparr>head := Some new_inferior, tail := Some new_inferior\<rparr>))"

partial_function (option) for_each_loop ::
  "(nat \<Rightarrow> (('k, 'z) inf_state_scheme, unit) prog) \<Rightarrow> nat option \<Rightarrow> ('k, 'z) inf_state_scheme \<Rightarrow>
     (unit outcome \<times> ('k, 'z) inf_state_scheme) option" where
  "for_each_loop action cur s =
     (case cur of
        None \<Rightarrow> Some (Ret (), s)
      | Some p \<Rightarrow>
          (case entries s p of
             None \<Rightarrow> Some (Fault, s)
           | Some e \<Rightarrow>
               (case action p s of
                  (Ret u, s') \<Rightarrow> for_each_loop action (next_ptr e) s'
                | r \<Rightarrow> Some r)))"

definition for_each_inferior ::
  "inferior_list \<Rightarrow> (nat \<Rightarrow> (('k, 'z) inf_state_scheme, unit) prog) \<Rightarrow>
     (('k, 'z) inf_state_scheme, unit) prog" where
  "for_each_inferior list action = (\<lambda>s.
     case for_each_loop action (head list) s of None \<Rightarrow> (Hang, s) | Some r \<Rightarrow> r)"

definition change_inferior_id :: "heap \<Rightarrow> inferior_list \<Rightarrow> int \<Rightarrow> heap outcome" where
  "change_inferior_id h list new_id =
     (if head list \<noteq> tail list
      then Err ''tried to change thread ID after multiple threads are created''
      else case head list of
             None \<Rightarrow> Fault
           | Some p \<Rightarrow> upd_entry h p (\<lambda>e. e\<lparr>ent_id := new_id\<rparr>))"

partial_function (option) remove_loop ::
  "heap \<Rightarrow> nat option \<Rightarrow> nat \<Rightarrow> nat option outcome option" where
  \<comment> \<open>\<^verbatim>\<open>while (*cur && (*cur)->next != entry)\<close>: the final \<^verbatim>\<open>*cur\<close>\<close>
  "remove_loop h cur entry =
     (case cur of
        None \<Rightarrow> Some (Ret None)
      | Some p \<Rightarrow>
          (case h p of
             None \<Rightarrow> Some Fault
           | Some e \<Rightarrow>
               if next_ptr e = Some entry then Some (Ret (Some p))
               else remove_loop h (next_ptr e) entry))"

definition remove_inferior ::
  "heap \<Rightarrow> inferior_list \<Rightarrow> nat \<Rightarrow> (heap \<times> inferior_list) outcome" where
  "remove_inferior h list entry =
     (if head list = Some entry
      then (case h entry of
              None \<Rightarrow> Fault
            | Some e \<Rightarrow>
                let list' = list\<lparr>head := next_ptr e\<rparr>
                in Ret (h, if tail list' = Some entry then list'\<lparr>tail := head list'\<rparr> else list'))
      else bind_o (of_option (remove_loop h (head list) entry)) (\<lambda>cur.
        case cur of
          None \<Rightarrow> Ret (h, list)
        | Some p \<Rightarrow>
            (case h entry of
               None \<Rightarrow> Fault
             | Some e \<Rightarrow>
                 bind_o (upd_entry h p (\<lambda>c. c\<lparr>next_ptr := next_ptr e\<rparr>)) (\<lambda>h'.
                   Ret (h', if tail list = Some entry then list\<lparr>tail := Some p\<rparr> else list)))))"

partial_function (option) find_loop ::
  "heap \<Rightarrow> (nat \<Rightarrow> inferior_list_entry \<Rightarrow> bool) \<Rightarrow> nat option \<Rightarrow> nat option outcome option" where
  "find_loop h test cur =
     (case cur of
        None \<Rightarrow> Some (Ret None)
      | Some p \<Rightarrow>
          (case h p of
             None \<Rightarrow> Some Fault
           | Some e \<Rightarrow>
               if test p e then Some (Ret (Some p)) else find_loop h test (next_ptr e)))"

definition find_inferior ::
  "heap \<Rightarrow> inferior_list \<Rightarrow> (nat \<Rightarrow> inferior_list_entry \<Rightarrow> bool) \<Rightarrow> nat option outcome" where
  "find_inferior h list test = of_option (find_loop h test (head list))"

definition find_inferior_id :: "heap \<Rightarrow> inferior_list \<Rightarrow> int \<Rightarrow> nat option outcome" where
  "find_inferior_id h list i = of_option (find_loop h (\<lambda>_ e. ent_id e = i) (head list))"

subsection \<open>Threads\<close>

definition new_register_cache :: "('k, 'z) regdef_state_scheme \<Rightarrow> inferior_regcache_data" where
  \<comment> \<open>of src/regcache.c; zeroed, so that registers that are never fetched read as zero\<close>
  "new_register_cache s =
     \<lparr>registers_valid = False, registers = replicate (register_bytes s) 0\<rparr>"

definition add_thread :: "int \<Rightarrow> nat option \<Rightarrow> (('k, 'z) inf_state_scheme, unit) prog" where
  "add_thread thread_id tdata = (\<lambda>s.
     let new_thread = heap_brk s;
         h = (entries s)(new_thread \<mapsto> \<lparr>ent_id = thread_id, next_ptr = None\<rparr>);
         s1 = s\<lparr>heap_brk := Suc (heap_brk s), entries := h,
           threads := (threads s)(new_thread \<mapsto> \<lparr>target_data = None, regcache_data = None\<rparr>)\<rparr>
     in case add_inferior_to_list h (all_threads s1) new_thread of
          Ret (h', l) \<Rightarrow>
            let s2 = s1\<lparr>entries := h', all_threads := l\<rparr>;
                s3 = (if current_inferior s2 = None then s2\<lparr>current_inferior := Some new_thread\<rparr> else s2)
            in (Ret (), s3\<lparr>threads := (threads s3)(new_thread \<mapsto>
                 \<lparr>target_data = tdata, regcache_data = Some (new_register_cache s3)\<rparr>)\<rparr>)
        | r \<Rightarrow> (bind_o r (\<lambda>_. Ret ()), s1))"

definition free_one_thread :: "nat \<Rightarrow> (('k, 'z) inf_state_scheme, unit) prog" where
  \<comment> \<open>\<^verbatim>\<open>free_register_cache\<close> dereferences the cache pointer, so it must not be NULL\<close>
  "free_one_thread p = (\<lambda>s.
     case threads s p of
       None \<Rightarrow> (Fault, s)
     | Some th \<Rightarrow>
         (case regcache_data th of
            None \<Rightarrow> (Fault, s)
          | Some rc \<Rightarrow>
              (Ret (), s\<lparr>threads := (threads s)(p := None), entries := (entries s)(p := None)\<rparr>)))"

definition remove_thread :: "nat \<Rightarrow> (('k, 'z) inf_state_scheme, unit) prog" where
  "remove_thread p = (\<lambda>s.
     case remove_inferior (entries s) (all_threads s) p of
       Ret (h, l) \<Rightarrow> free_one_thread p (s\<lparr>entries := h, all_threads := l\<rparr>)
     | r \<Rightarrow> (bind_o r (\<lambda>_. Ret ()), s))"

definition clear_inferiors :: "(('k, 'z) inf_state_scheme, unit) prog" where
  "clear_inferiors =
     seq_p (bind_p (gets_p all_threads) (\<lambda>l. for_each_inferior l free_one_thread))
       (modify_p (\<lambda>s. s\<lparr>all_threads := empty_list\<rparr>))"

definition deref_thread :: "nat option \<Rightarrow> (('k, 'z) inf_state_scheme, nat \<times> thread_info) prog" where
  \<comment> \<open>a \<^verbatim>\<open>struct thread_info *\<close> that is read through\<close>
  "deref_thread p = deref_p (\<lambda>s. case p of None \<Rightarrow> None
     | Some a \<Rightarrow> (case threads s a of None \<Rightarrow> None | Some th \<Rightarrow> Some (a, th)))"

definition inferior_target_data :: "nat option \<Rightarrow> (('k, 'z) inf_state_scheme, nat option) prog" where
  "inferior_target_data p = bind_p (deref_thread p) (\<lambda>(_, th). return_p (target_data th))"

definition set_inferior_target_data ::
  "nat option \<Rightarrow> nat option \<Rightarrow> (('k, 'z) inf_state_scheme, unit) prog" where
  "set_inferior_target_data p d = bind_p (deref_thread p) (\<lambda>(a, th).
     modify_p (\<lambda>s. s\<lparr>threads := (threads s)(a \<mapsto> th\<lparr>target_data := d\<rparr>)\<rparr>))"

definition inferior_regcache ::
  "nat option \<Rightarrow> (('k, 'z) inf_state_scheme, inferior_regcache_data option) prog" where
  \<comment> \<open>the function \<^verbatim>\<open>inferior_regcache_data\<close>, named like the struct in the source\<close>
  "inferior_regcache p = bind_p (deref_thread p) (\<lambda>(_, th). return_p (regcache_data th))"

definition set_inferior_regcache_data ::
  "nat option \<Rightarrow> inferior_regcache_data option \<Rightarrow> (('k, 'z) inf_state_scheme, unit) prog" where
  "set_inferior_regcache_data p d = bind_p (deref_thread p) (\<lambda>(a, th).
     modify_p (\<lambda>s. s\<lparr>threads := (threads s)(a \<mapsto> th\<lparr>regcache_data := d\<rparr>)\<rparr>))"

subsection \<open>Lists in the heap\<close>

fun linked :: "heap \<Rightarrow> nat option \<Rightarrow> nat list \<Rightarrow> bool" where
  \<comment> \<open>following \<^verbatim>\<open>next\<close> from a pointer visits these addresses and ends with NULL\<close>
  "linked h p [] \<longleftrightarrow> p = None"
| "linked h p (x # xs) \<longleftrightarrow>
     p = Some x \<and> (case h x of None \<Rightarrow> False | Some e \<Rightarrow> linked h (next_ptr e) xs)"

definition wf_list :: "heap \<Rightarrow> inferior_list \<Rightarrow> nat list \<Rightarrow> bool" where
  "wf_list h l xs \<longleftrightarrow> linked h (head l) xs \<and> distinct xs
     \<and> tail l = (if xs = [] then None else Some (last xs))"

definition id_at :: "heap \<Rightarrow> nat \<Rightarrow> int" where
  "id_at h a = (case h a of None \<Rightarrow> 0 | Some e \<Rightarrow> ent_id e)"

lemma linked_alloc: "linked h p xs \<Longrightarrow> x \<in> set xs \<Longrightarrow> \<exists>e. h x = Some e"
  by (induction xs arbitrary: p) (auto split: option.splits)

lemma linked_upd: "a \<notin> set xs \<Longrightarrow> linked (h(a := v)) p xs = linked h p xs"
  by (induction xs arbitrary: p) (auto split: option.splits)

lemma linked_cong:
  "(\<And>x. x \<in> set xs \<Longrightarrow> map_option next_ptr (h' x) = map_option next_ptr (h x)) \<Longrightarrow>
     linked h' p xs = linked h p xs"
proof (induction xs arbitrary: p)
  case (Cons x xs)
  from Cons.prems [of x] have "map_option next_ptr (h' x) = map_option next_ptr (h x)" by simp
  with Cons show ?case by (cases "h x"; cases "h' x") auto
qed simp

lemma linked_snoc:
  assumes "linked h p xs" and "distinct xs" and "xs \<noteq> []" and "h a = Some e" and "next_ptr e = None"
    and "a \<notin> set xs" and "h (last xs) = Some e'"
  shows "linked (h(last xs \<mapsto> e'\<lparr>next_ptr := Some a\<rparr>)) p (xs @ [a])"
  using assms
proof (induction xs arbitrary: p)
  case (Cons x xs)
  show ?case
  proof (cases "xs = []")
    case True with Cons.prems show ?thesis by auto
  next
    case False
    with Cons.prems have "x \<noteq> last xs" by auto
    with Cons False show ?thesis by (auto split: option.splits)
  qed
qed simp

lemma wf_listI:
  "linked h (head l) xs \<Longrightarrow> distinct xs \<Longrightarrow> tail l = (if xs = [] then None else Some (last xs)) \<Longrightarrow>
     wf_list h l xs"
  by (simp add: wf_list_def)

lemma wf_list_empty [simp]: "wf_list h empty_list []"
  by (simp add: wf_list_def empty_list_def)

lemma wf_list_alloc: "wf_list h l xs \<Longrightarrow> x \<in> set xs \<Longrightarrow> \<exists>e. h x = Some e"
  by (auto simp: wf_list_def dest: linked_alloc)

lemma wf_list_head: "wf_list h l xs \<Longrightarrow> head l = (case xs of [] \<Rightarrow> None | x # _ \<Rightarrow> Some x)"
  by (cases xs) (auto simp: wf_list_def)

lemma add_inferior_to_list_refines:
  assumes "wf_list h l xs" and "h a = Some e" and "a \<notin> set xs"
  shows "\<exists>h' l'. add_inferior_to_list h l a = Ret (h', l') \<and> wf_list h' l' (xs @ [a])
    \<and> (\<forall>b. id_at h' b = id_at h b) \<and> (\<forall>b. b \<notin> set (xs @ [a]) \<longrightarrow> h' b = h b)"
proof -
  define h1 where "h1 = h(a \<mapsto> e\<lparr>next_ptr := None\<rparr>)"
  have u1: "upd_entry h a (\<lambda>e. e\<lparr>next_ptr := None\<rparr>) = Ret h1"
    using assms(2) by (simp add: upd_entry_def h1_def)
  have l1: "linked h1 (head l) xs"
    using assms(1,3) by (simp add: h1_def linked_upd wf_list_def)
  show ?thesis
  proof (cases "xs = []")
    case True
    with assms(1) have "tail l = None" by (simp add: wf_list_def)
    with u1 assms(2) True show ?thesis
      by (auto simp: add_inferior_to_list_def wf_list_def h1_def id_at_def)
  next
    case False
    with assms(1) have t: "tail l = Some (last xs)" by (simp add: wf_list_def)
    obtain e' where e': "h1 (last xs) = Some e'"
      using linked_alloc [OF l1, of "last xs"] False by auto
    have "h1 a = Some (e\<lparr>next_ptr := None\<rparr>)" "distinct xs"
      using assms(1) by (simp_all add: h1_def wf_list_def)
    from linked_snoc [OF l1 this(2) False this(1) _ assms(3) e']
    have "linked (h1(last xs \<mapsto> e'\<lparr>next_ptr := Some a\<rparr>)) (head l) (xs @ [a])"
      by simp
    moreover have "a \<noteq> last xs" using assms(3) False by auto
    moreover have "id_at (h1(last xs \<mapsto> e'\<lparr>next_ptr := Some a\<rparr>)) b = id_at h b" for b
      using e' assms(2) by (auto simp: id_at_def h1_def split: option.splits if_splits)
    ultimately show ?thesis
      using u1 t e' assms(1,3) False
      by (auto simp: add_inferior_to_list_def upd_entry_def wf_list_def h1_def)
  qed
qed

lemma find_loop_refines:
  assumes "linked h p xs"
  shows "find_loop h test p = Some (Ret (List.find (\<lambda>a. test a (the (h a))) xs))"
  using assms
proof (induction xs arbitrary: p)
  case Nil then show ?case by (simp add: find_loop.simps)
next
  case (Cons x xs)
  then show ?case by (subst find_loop.simps) (auto split: option.splits)
qed

lemma find_inferior_refines:
  "wf_list h l xs \<Longrightarrow> find_inferior h l test = Ret (List.find (\<lambda>a. test a (the (h a))) xs)"
  unfolding find_inferior_def wf_list_def by (metis find_loop_refines of_option_simps(2))

lemma find_inferior_id_refines:
  assumes "wf_list h l xs"
  shows "find_inferior_id h l i = Ret (List.find (\<lambda>a. id_at h a = i) xs)"
proof -
  have "List.find (\<lambda>a. ent_id (the (h a)) = i) xs = List.find (\<lambda>a. id_at h a = i) xs"
    using wf_list_alloc [OF assms] by (intro find_cong refl) (fastforce simp: id_at_def)
  with find_inferior_refines [OF assms, of "\<lambda>_ e. ent_id e = i"] show ?thesis
    by (simp add: find_inferior_id_def find_inferior_def)
qed

lemma linked_remove:
  assumes "linked h p (ys @ x # a # zs)" and "distinct (ys @ x # a # zs)" and "h x = Some ex"
    and "h a = Some ea"
  shows "linked (h(x \<mapsto> ex\<lparr>next_ptr := next_ptr ea\<rparr>)) p (ys @ x # zs)"
  using assms
proof (induction ys arbitrary: p)
  case Nil
  then have "linked h (next_ptr ea) zs" "x \<notin> set zs" "p = Some x" by auto
  then have "linked (h(x \<mapsto> ex\<lparr>next_ptr := next_ptr ea\<rparr>)) (next_ptr ea) zs"
    by (simp add: linked_upd)
  with \<open>p = Some x\<close> show ?case
    unfolding append_Nil linked.simps fun_upd_same option.case by simp
next
  case (Cons y ys)
  then obtain e where e: "p = Some y" "h y = Some e" "linked h (next_ptr e) (ys @ x # a # zs)"
    by (auto split: option.splits)
  have l: "linked (h(x \<mapsto> ex\<lparr>next_ptr := next_ptr ea\<rparr>)) (next_ptr e) (ys @ x # zs)"
    by (rule Cons.IH [OF e(3) _ Cons.prems(3,4)]) (use Cons.prems(2) in simp)
  have "(h(x \<mapsto> ex\<lparr>next_ptr := next_ptr ea\<rparr>)) y = Some e" using e(2) Cons.prems(2) by simp
  then show ?case unfolding append_Cons linked.simps using l e(1) by (simp del: fun_upd_apply)
qed

lemma remove_loop_found:
  assumes "linked h p (ys @ x # a # zs)" and "distinct (ys @ x # a # zs)"
  shows "remove_loop h p a = Some (Ret (Some x))"
  using assms
proof (induction ys arbitrary: p)
  case Nil
  then show ?case by (subst remove_loop.simps) (auto split: option.splits)
next
  case (Cons y ys)
  then obtain e where e: "p = Some y" "h y = Some e" "linked h (next_ptr e) (ys @ x # a # zs)"
    by (auto split: option.splits)
  then have "next_ptr e \<noteq> Some a" using Cons.prems(2) by (cases ys) auto
  with Cons e show ?case by (subst remove_loop.simps) auto
qed

lemma remove_loop_none:
  assumes "linked h p xs" and "a \<notin> set xs"
  shows "remove_loop h p a = Some (Ret None)"
  using assms
proof (induction xs arbitrary: p)
  case Nil then show ?case by (simp add: remove_loop.simps)
next
  case (Cons x xs)
  then obtain e where e: "p = Some x" "h x = Some e" "linked h (next_ptr e) xs"
    by (auto split: option.splits)
  then have "next_ptr e \<noteq> Some a" using Cons.prems(2) by (cases xs) auto
  with Cons e show ?case by (subst remove_loop.simps) auto
qed

lemma remove_inferior_refines:
  assumes "wf_list h l xs"
  shows "\<exists>h' l'. remove_inferior h l a = Ret (h', l') \<and> wf_list h' l' (remove1 a xs)
    \<and> (\<forall>b. id_at h' b = id_at h b) \<and> (\<forall>b. b \<notin> set xs \<longrightarrow> h' b = h b)"
proof (cases "a \<in> set xs")
  case False
  then have "head l \<noteq> Some a" using wf_list_head [OF assms] by (auto split: list.splits)
  moreover have "remove_loop h (head l) a = Some (Ret None)"
    using remove_loop_none False assms by (auto simp: wf_list_def)
  ultimately show ?thesis
    using False assms by (auto simp: remove_inferior_def remove1_idem)
next
  case True
  then obtain ys zs where xs: "xs = ys @ a # zs" by (auto simp: in_set_conv_decomp)
  have d: "distinct xs" and lk: "linked h (head l) xs"
    and t: "tail l = Some (last xs)" using assms True by (auto simp: wf_list_def split: if_splits)
  obtain ea where ea: "h a = Some ea" using wf_list_alloc [OF assms True] by blast
  show ?thesis
  proof (cases ys rule: rev_cases)
    case Nil
    with xs lk ea have "head l = Some a" "linked h (next_ptr ea) zs" by auto
    moreover have "zs \<noteq> [] \<Longrightarrow> last zs \<noteq> a" using xs d by (auto dest: last_in_set)
    moreover have "zs = [] \<Longrightarrow> next_ptr ea = None" using calculation(2) by simp
    ultimately show ?thesis
      using xs Nil d t ea by (cases "zs = []") (simp_all add: remove_inferior_def Let_def wf_list_def)
  next
    case (snoc ys' x)
    with xs have xs': "xs = ys' @ x # a # zs" by simp
    from wf_list_alloc [OF assms, of x] xs' obtain ex where ex: "h x = Some ex" by auto
    have "head l \<noteq> Some a"
      using wf_list_head [OF assms] xs' d by (cases ys') auto
    moreover have "remove_loop h (head l) a = Some (Ret (Some x))"
      using remove_loop_found lk d xs' by blast
    moreover have "linked (h(x \<mapsto> ex\<lparr>next_ptr := next_ptr ea\<rparr>)) (head l) (ys' @ x # zs)"
      using linked_remove lk d xs' ex ea by blast
    moreover have "remove1 a xs = ys' @ x # zs" using xs' d by (auto simp: remove1_append)
    moreover have "last xs = a \<longleftrightarrow> zs = []" using xs' d by (auto dest: last_in_set)
    ultimately show ?thesis
      using ea ex t d xs' by (auto simp: remove_inferior_def upd_entry_def wf_list_def id_at_def)
  qed
qed

lemma for_each_loop_eq:
  assumes "linked (entries s) p xs" and "distinct xs"
    and "\<And>x q ys t t'. action x t = (Ret (), t') \<Longrightarrow> linked (entries t) q ys \<Longrightarrow> x \<notin> set ys \<Longrightarrow>
      linked (entries t') q ys"
  shows "for_each_loop action p s = Some (for_p action xs s)"
  using assms(1,2)
proof (induction xs arbitrary: p s)
  case Nil then show ?case by (simp add: for_each_loop.simps)
next
  case (Cons x xs)
  then obtain e where e: "p = Some x" "entries s x = Some e" "linked (entries s) (next_ptr e) xs"
    by (auto split: option.splits)
  show ?case
  proof (cases "action x s")
    case (Pair r t)
    show ?thesis
    proof (cases r)
      case (Ret u)
      then have "action x s = (Ret (), t)" using Pair by simp
      from assms(3) [OF this e(3)] Cons.prems(2) have "linked (entries t) (next_ptr e) xs" by simp
      with Cons Pair Ret e show ?thesis
        by (subst for_each_loop.simps) (simp add: bind_p_def)
    qed (use Pair e in \<open>(subst for_each_loop.simps, simp add: bind_p_def)+\<close>)
  qed
qed

lemma for_each_inferior_eq:
  assumes "wf_list (entries s) l xs"
    and "\<And>x q ys t t'. action x t = (Ret (), t') \<Longrightarrow> linked (entries t) q ys \<Longrightarrow> x \<notin> set ys \<Longrightarrow>
      linked (entries t') q ys"
  shows "for_each_inferior l action s = for_p action xs s"
  using for_each_loop_eq [of s "head l" xs action] assms
  by (simp add: for_each_inferior_def wf_list_def)

subsection \<open>Threads: facts\<close>

definition threads_ok :: "('k, 'z) inf_state_scheme \<Rightarrow> nat list \<Rightarrow> bool" where
  \<comment> \<open>the list of threads in the heap is \<open>ts\<close>, every one of them with a register cache of full size\<close>
  "threads_ok s ts \<longleftrightarrow> wf_list (entries s) (all_threads s) ts
     \<and> (\<forall>t \<in> set ts. t < heap_brk s \<and> (\<exists>th rc. threads s t = Some th \<and> regcache_data th = Some rc
          \<and> length (registers rc) = register_bytes s))
     \<and> (\<forall>a. heap_brk s \<le> a \<longrightarrow> entries s a = None)"

lemma deref_thread_Some [simp]:
  "threads s a = Some th \<Longrightarrow> deref_thread (Some a) s = (Ret (a, th), s)"
  by (simp add: deref_thread_def deref_p_def)

lemma deref_thread_None [simp]: "deref_thread None s = (Fault, s)"
  "threads s a = None \<Longrightarrow> deref_thread (Some a) s = (Fault, s)"
  by (simp_all add: deref_thread_def deref_p_def)

lemma preserves_deref_thread [preserves_intros]: "preserves f (deref_thread p)"
  by (simp add: deref_thread_def preserves_deref)

lemma add_thread_ok:
  assumes "threads_ok s ts"
  shows "\<exists>s'. add_thread i d s = (Ret (), s') \<and> threads_ok s' (ts @ [heap_brk s])
    \<and> id_at (entries s') (heap_brk s) = i
    \<and> (\<exists>th. threads s' (heap_brk s) = Some th \<and> target_data th = d)
    \<and> (current_inferior s' = (if current_inferior s = None then Some (heap_brk s) else current_inferior s))"
proof -
  let ?a = "heap_brk s"
  define h where "h = (entries s)(?a \<mapsto> \<lparr>ent_id = i, next_ptr = None\<rparr>)"
  have new: "?a \<notin> set ts" using assms by (auto simp: threads_ok_def)
  then have "wf_list h (all_threads s) ts"
    using assms by (simp add: threads_ok_def wf_list_def h_def linked_upd)
  from add_inferior_to_list_refines [OF this _ new] obtain h' l' where
    add: "add_inferior_to_list h (all_threads s) ?a = Ret (h', l')" "wf_list h' l' (ts @ [?a])"
      "\<forall>b. id_at h' b = id_at h b" "\<forall>b. b \<notin> set (ts @ [?a]) \<longrightarrow> h' b = h b"
    by (metis h_def fun_upd_same)
  have "id_at h' ?a = i" using add(3) by (simp add: id_at_def h_def)
  moreover have "h' b = None" if "Suc ?a \<le> b" for b
  proof -
    have "b \<notin> set (ts @ [?a])" using that assms by (auto simp: threads_ok_def)
    with add(4) have "h' b = h b" by blast
    with that assms show ?thesis by (simp add: h_def threads_ok_def)
  qed
  ultimately show ?thesis
    using add assms new
    by (auto simp: add_thread_def Let_def h_def [symmetric] threads_ok_def new_register_cache_def
        less_Suc_eq)
qed

lemma free_one_thread_linked:
  "free_one_thread x t = (Ret (), t') \<Longrightarrow> linked (entries t) q ys \<Longrightarrow> x \<notin> set ys \<Longrightarrow>
     linked (entries t') q ys"
  by (auto simp: free_one_thread_def linked_upd split: option.splits)

lemma free_threads:
  assumes "\<forall>t \<in> set ts. \<exists>th rc. threads s t = Some th \<and> regcache_data th = Some rc" and "distinct ts"
  shows "for_p free_one_thread ts s = (Ret (), s\<lparr>threads := threads s |` (- set ts),
    entries := entries s |` (- set ts)\<rparr>)"
  using assms
proof (induction ts arbitrary: s)
  case Nil then show ?case by (simp add: restrict_map_def)
next
  case (Cons t ts)
  let ?s = "s\<lparr>threads := (threads s)(t := None), entries := (entries s)(t := None)\<rparr>"
  from Cons.prems have f: "free_one_thread t s = (Ret (), ?s)"
    by (auto simp: free_one_thread_def)
  have "\<forall>u \<in> set ts. \<exists>th rc. threads ?s u = Some th \<and> regcache_data th = Some rc"
    using Cons.prems by auto
  from Cons.IH [OF this] Cons.prems(2) f show ?case
    by (auto simp: bind_p_def restrict_map_def fun_eq_iff intro!: inf_state.equality)
qed

lemma clear_inferiors_list:
  assumes wf: "wf_list (entries s) (all_threads s) ts"
    and al: "\<forall>t \<in> set ts. \<exists>th rc. threads s t = Some th \<and> regcache_data th = Some rc"
  shows "clear_inferiors s = (Ret (), s\<lparr>threads := threads s |` (- set ts),
    entries := entries s |` (- set ts), all_threads := empty_list\<rparr>)"
proof -
  have d: "distinct ts" using wf by (simp add: wf_list_def)
  have "for_each_inferior (all_threads s) free_one_thread s = for_p free_one_thread ts s"
    by (rule for_each_inferior_eq [OF wf]) (rule free_one_thread_linked)
  then show ?thesis
    by (simp add: clear_inferiors_def bind_p_def free_threads [OF al d])
qed

lemma clear_inferiors_eq:
  assumes "threads_ok s ts"
  shows "clear_inferiors s = (Ret (), s\<lparr>threads := threads s |` (- set ts),
    entries := entries s |` (- set ts), all_threads := empty_list\<rparr>)"
  using assms by (intro clear_inferiors_list) (auto simp: threads_ok_def)

end
