(* ===== verification/Libc.thy ===== *)
theory Libc
  imports Prelude
begin

section \<open>The C library functions the server calls on text\<close>

text \<open>
  \<^verbatim>\<open>strtol\<close>, \<^verbatim>\<open>strtoul\<close> and the conversions of \<^verbatim>\<open>sprintf\<close> the server relies on, for the target's
  ILP32 model (\<^verbatim>\<open>int\<close> and \<^verbatim>\<open>long\<close> are 32 bits).  A C string is the list of its characters without the
  terminating NUL.  The parsing functions return the value and the rest of the string, which is what
  \<^verbatim>\<open>*endptr\<close> points to; with no digits to convert the rest is the whole string.
\<close>

definition LONG_MAX :: int where "LONG_MAX = 2147483647"
definition LONG_MIN :: int where "LONG_MIN = - 2147483648"
definition ULONG_MAX :: int where "ULONG_MAX = 4294967295"

definition isspace :: "char \<Rightarrow> bool" where
  "isspace c \<longleftrightarrow> c \<in> {CHR '' '', CHR 0x09, CHR 0x0A, CHR 0x0B, CHR 0x0C, CHR 0x0D}"

definition digit_value :: "nat \<Rightarrow> char \<Rightarrow> nat option" where
  \<comment> \<open>the value of a digit in a base up to 16, letters in either case\<close>
  "digit_value base c =
     (let n = (of_char c :: nat);
          v = (if 48 \<le> n \<and> n \<le> 57 then n - 48
               else if 97 \<le> n \<and> n \<le> 102 then n - 87
               else if 65 \<le> n \<and> n \<le> 70 then n - 55 else 16)
      in if v < base then Some v else None)"

fun scan_digits :: "nat \<Rightarrow> nat \<Rightarrow> string \<Rightarrow> nat \<times> string" where
  "scan_digits base acc [] = (acc, [])"
| "scan_digits base acc (c # s) =
     (case digit_value base c of
        None \<Rightarrow> (acc, c # s)
      | Some d \<Rightarrow> scan_digits base (acc * base + d) s)"

definition scan_sign :: "string \<Rightarrow> bool \<times> string" where
  "scan_sign s = (case s of [] \<Rightarrow> (False, [])
     | c # t \<Rightarrow> if c = CHR ''-'' then (True, t) else if c = CHR ''+'' then (False, t) else (False, s))"

definition skip_0x :: "nat \<Rightarrow> string \<Rightarrow> string" where
  "skip_0x base s =
     (if base = 16 \<and> 2 < length s \<and> s ! 0 = CHR ''0'' \<and> s ! 1 \<in> {CHR ''x'', CHR ''X''}
          \<and> digit_value 16 (s ! 2) \<noteq> None
      then drop 2 s else s)"

definition scan_number :: "nat \<Rightarrow> string \<Rightarrow> (bool \<times> nat \<times> string) option" where
  \<comment> \<open>sign, magnitude and rest; \<open>None\<close> when there is no digit to convert\<close>
  "scan_number base s =
     (let (neg, t) = scan_sign (dropWhile isspace s);
          u = skip_0x base t
      in if u = [] \<or> digit_value base (hd u) = None then None
         else (let (n, rest) = scan_digits base 0 u in Some (neg, n, rest)))"

definition strtol :: "nat \<Rightarrow> string \<Rightarrow> int \<times> string" where
  "strtol base s = (case scan_number base s of
      None \<Rightarrow> (0, s)
    | Some (neg, n, rest) \<Rightarrow>
        (if neg then max LONG_MIN (- int n) else min LONG_MAX (int n), rest))"

definition atoi :: "string \<Rightarrow> int" where "atoi s = fst (strtol 10 s)"

definition strtoul :: "nat \<Rightarrow> string \<Rightarrow> int \<times> string" where
  "strtoul base s = (case scan_number base s of
      None \<Rightarrow> (0, s)
    | Some (neg, n, rest) \<Rightarrow>
        (if int n > ULONG_MAX then ULONG_MAX
         else if neg then (- int n) mod (ULONG_MAX + 1) else int n, rest))"

definition hex_digit :: "nat \<Rightarrow> char" where
  "hex_digit d = char_of (if d < 10 then 48 + d else 87 + d)"

fun hex_digits :: "nat \<Rightarrow> string" where
  "hex_digits n = (if n < 16 then [hex_digit n] else hex_digits (n div 16) @ [hex_digit (n mod 16)])"

declare hex_digits.simps [simp del]

definition fmt_x :: "int \<Rightarrow> string" where
  \<comment> \<open>\<^verbatim>\<open>sprintf ("%x")\<close> of an \<^verbatim>\<open>int\<close>, which it reads as unsigned\<close>
  "fmt_x n = hex_digits (nat (n mod 4294967296))"

fun dec_digits :: "nat \<Rightarrow> string" where
  "dec_digits n = (if n < 10 then [char_of (48 + n)]
     else dec_digits (n div 10) @ [char_of (48 + n mod 10)])"

declare dec_digits.simps [simp del]

subsection \<open>Facts\<close>

lemma hex_digit_cases:
  fixes d :: nat
  assumes "d < 16"
  shows "d \<in> {0,1,2,3,4,5,6,7,8,9,10,11,12,13,14,15}"
  unfolding insert_iff empty_iff using assms by arith

lemma digit_value_hex_digit [simp]: "d < 16 \<Longrightarrow> digit_value 16 (hex_digit d) = Some d"
  by (auto simp: digit_value_def hex_digit_def Let_def)

lemma of_char_hex_digit: "d < 16 \<Longrightarrow> of_char (hex_digit d) = (if d < 10 then 48 + d else 87 + d)"
  by (simp add: hex_digit_def)

lemma hex_digit_neq:
  assumes "d < 16"
    and "of_char c < (48::nat) \<or> (57::nat) < of_char c \<and> of_char c < (97::nat) \<or> (102::nat) < of_char c"
  shows "hex_digit d \<noteq> c"
  using assms of_char_hex_digit [of d] by (auto split: if_splits)

lemma hex_digit_not_special:
  assumes "d < 16"
  shows "hex_digit d \<noteq> CHR ''-''" "hex_digit d \<noteq> CHR ''+''" "\<not> isspace (hex_digit d)"
    "hex_digit d \<noteq> CHR ''x''" "hex_digit d \<noteq> CHR ''X''" "hex_digit d \<noteq> NUL"
    "hex_digit d \<noteq> CHR '';''" "hex_digit d \<noteq> CHR '',''" "hex_digit d \<noteq> CHR '':''"
    "hex_digit d \<noteq> CHR ''#''" "hex_digit d \<noteq> CHR ''=''"
  by (simp_all add: hex_digit_neq [OF assms] isspace_def NUL_def)

lemma hex_digits_induct [case_names small large]:
  fixes n :: nat
  assumes "\<And>n. n < 16 \<Longrightarrow> P n" and "\<And>n. 16 \<le> n \<Longrightarrow> P (n div 16) \<Longrightarrow> P n"
  shows "P n"
  using assms by (induction n rule: hex_digits.induct) (metis not_less)

lemma hex_digits_set: "c \<in> set (hex_digits n) \<Longrightarrow> \<exists>d < 16. c = hex_digit d"
proof (induction n rule: hex_digits_induct)
  case (small n) then show ?case by (subst (asm) hex_digits.simps) auto
next
  case (large n)
  then show ?case by (subst (asm) hex_digits.simps) (auto intro: exI [of _ "n mod 16"])
qed

lemma hex_digits_nonempty [simp]: "hex_digits n \<noteq> []"
  by (subst hex_digits.simps) simp

lemma hd_hex_digits: "\<exists>d < 16. hd (hex_digits n) = hex_digit d"
  using hex_digits_set [of "hd (hex_digits n)" n] by auto

lemma length_hex_digits: "n < 16 ^ k \<Longrightarrow> 0 < k \<Longrightarrow> length (hex_digits n) \<le> k"
proof (induction k arbitrary: n)
  case 0 then show ?case by simp
next
  case (Suc k)
  show ?case
  proof (cases "n < 16")
    case True then show ?thesis by (subst hex_digits.simps) simp
  next
    case False
    with Suc.prems have "n div 16 < 16 ^ k" by (simp add: less_mult_imp_div_less mult.commute)
    moreover from False Suc.prems have "0 < k" by (cases k) auto
    ultimately have "length (hex_digits (n div 16)) \<le> k" by (rule Suc.IH)
    with False show ?thesis by (subst hex_digits.simps) simp
  qed
qed

lemma scan_digits_append:
  assumes "\<forall>c \<in> set s. digit_value base c \<noteq> None"
  shows "scan_digits base acc (s @ t) = scan_digits base (fst (scan_digits base acc s)) t"
  using assms by (induction s arbitrary: acc) auto

lemma scan_hex_digits:
  "scan_digits 16 0 (hex_digits n) = (n, [])"
proof (induction n rule: hex_digits_induct)
  case (small n) then show ?case by (subst hex_digits.simps) simp
next
  case (large n)
  have "\<forall>c \<in> set (hex_digits (n div 16)). digit_value 16 c \<noteq> None"
    by (auto dest!: hex_digits_set)
  with large show ?case
    by (subst hex_digits.simps) (simp add: scan_digits_append)
qed

definition no_digit_start :: "string \<Rightarrow> bool" where
  \<comment> \<open>the text behind a number does not go on with a digit\<close>
  "no_digit_start t \<longleftrightarrow> (case t of [] \<Rightarrow> True | c # _ \<Rightarrow> digit_value 16 c = None)"

lemma scan_number_hex:
  assumes "no_digit_start rest" and "rest = [] \<or> hd rest \<notin> {CHR ''x'', CHR ''X''}"
  shows "scan_number 16 (hex_digits n @ rest) = Some (False, n, rest)"
proof -
  obtain c cs where cs: "hex_digits n = c # cs" by (cases "hex_digits n") auto
  from hd_hex_digits [of n] cs obtain d where d: "d < 16" "c = hex_digit d" by auto
  note nd = hex_digit_not_special [OF d(1)]
  have sp: "dropWhile isspace (hex_digits n @ rest) = hex_digits n @ rest"
    using nd cs d by simp
  have sg: "scan_sign (hex_digits n @ rest) = (False, hex_digits n @ rest)"
    using nd cs d by (simp add: scan_sign_def)
  have "(hex_digits n @ rest) ! 1 \<notin> {CHR ''x'', CHR ''X''}" if "2 < length (hex_digits n @ rest)"
  proof (cases cs)
    case Nil with assms cs that show ?thesis by (cases rest) auto
  next
    case (Cons e es)
    then have "e \<in> set (hex_digits n)" using cs by simp
    then obtain d' where "d' < 16" "e = hex_digit d'" by (auto dest: hex_digits_set)
    with Cons cs show ?thesis using hex_digit_not_special [of d'] by auto
  qed
  then have x: "skip_0x 16 (hex_digits n @ rest) = hex_digits n @ rest"
    by (auto simp: skip_0x_def)
  have al: "\<forall>c \<in> set (hex_digits n). digit_value 16 c \<noteq> None"
    by (auto dest!: hex_digits_set)
  have "scan_digits 16 0 (hex_digits n @ rest) = scan_digits 16 n rest"
    using scan_digits_append [OF al, of 0 rest] by (simp add: scan_hex_digits)
  also have "\<dots> = (n, rest)"
    using assms(1) by (cases rest) (auto simp: no_digit_start_def)
  finally show ?thesis using sp sg x cs d by (simp add: scan_number_def)
qed

lemma strtol_hex:
  assumes "no_digit_start rest" and "rest = [] \<or> hd rest \<notin> {CHR ''x'', CHR ''X''}"
    and "int n \<le> LONG_MAX"
  shows "strtol 16 (hex_digits n @ rest) = (int n, rest)"
  using assms by (simp add: strtol_def scan_number_hex)

lemma strtoul_hex:
  assumes "no_digit_start rest" and "rest = [] \<or> hd rest \<notin> {CHR ''x'', CHR ''X''}"
    and "int n \<le> ULONG_MAX"
  shows "strtoul 16 (hex_digits n @ rest) = (int n, rest)"
  using assms by (simp add: strtoul_def scan_number_hex)

lemma strtoul_bounds: "0 \<le> fst (strtoul base s) \<and> fst (strtoul base s) \<le> ULONG_MAX"
proof -
  have "x mod (ULONG_MAX + 1) \<le> ULONG_MAX" for x
    using pos_mod_bound [of "ULONG_MAX + 1" x] by (simp add: ULONG_MAX_def)
  then show ?thesis
    by (auto simp: strtoul_def ULONG_MAX_def split: option.splits)
qed

lemma strtol_bounds: "LONG_MIN \<le> fst (strtol base s) \<and> fst (strtol base s) \<le> LONG_MAX"
  by (auto simp: strtol_def LONG_MIN_def LONG_MAX_def split: option.splits)

lemma scan_digits_suffix: "\<exists>pre. s = pre @ snd (scan_digits base acc s)"
proof (induction s arbitrary: acc)
  case Nil then show ?case by simp
next
  case (Cons c s)
  show ?case
  proof (cases "digit_value base c")
    case None then show ?thesis by simp
  next
    case (Some d)
    from Cons [of "acc * base + d"] obtain pre where
      "c # s = (c # pre) @ snd (scan_digits base (acc * base + d) s)" by auto
    with Some show ?thesis by (metis option.simps(5) scan_digits.simps(2))
  qed
qed

lemma skip_0x_suffix: "\<exists>pre. s = pre @ skip_0x base s"
proof -
  have "skip_0x base s = drop 2 s \<or> skip_0x base s = s" by (simp add: skip_0x_def)
  then show ?thesis
  proof
    assume "skip_0x base s = drop 2 s"
    then have "s = take 2 s @ skip_0x base s" by simp
    then show ?thesis by blast
  next
    assume "skip_0x base s = s"
    then have "s = [] @ skip_0x base s" by simp
    then show ?thesis by blast
  qed
qed

lemma scan_sign_suffix: "\<exists>pre. s = pre @ snd (scan_sign s)"
proof (cases s)
  case Nil then show ?thesis by (simp add: scan_sign_def)
next
  case (Cons c t)
  show ?thesis
  proof (cases "c = CHR ''-'' \<or> c = CHR ''+''")
    case True
    then have "snd (scan_sign s) = t" using Cons by (auto simp: scan_sign_def)
    then show ?thesis using Cons by (metis append_Cons append_Nil)
  next
    case False
    then have "snd (scan_sign s) = s" using Cons by (auto simp: scan_sign_def)
    then show ?thesis by (metis append_Nil)
  qed
qed

lemma strtol_suffix: "\<exists>pre. s = pre @ snd (strtol base s)"
proof (cases "scan_number base s")
  case None then show ?thesis by (simp add: strtol_def)
next
  case (Some r)
  define t where "t = snd (scan_sign (dropWhile isspace s))"
  define u where "u = skip_0x base t"
  have "\<exists>p. s = p @ t"
    using scan_sign_suffix [of "dropWhile isspace s"] takeWhile_dropWhile_id [of isspace s]
    unfolding t_def by (metis append.assoc)
  moreover have "\<exists>p. t = p @ u" using skip_0x_suffix [of t base] by (simp add: u_def)
  moreover have "\<exists>p. u = p @ snd (scan_digits base 0 u)" by (rule scan_digits_suffix)
  moreover have "snd (strtol base s) = snd (scan_digits base 0 u)"
    using Some
    by (auto simp: strtol_def scan_number_def u_def t_def Let_def split: if_splits prod.splits)
  ultimately show ?thesis by (metis append.assoc)
qed

end
