(* ===== verification/Hex.thy ===== *)
theory Hex
  imports Libc
begin

section \<open>The hexadecimal codec of the remote protocol (src/remote-utils.c)\<close>

text \<open>
  \<^verbatim>\<open>fromhex\<close>, \<^verbatim>\<open>tohex\<close>, the byte string conversions built from them, and the decoders of the
  arguments of \<^verbatim>\<open>m\<close> and \<^verbatim>\<open>M\<close> packets.  Text is a C string without its NUL; a read at its end finds the
  NUL, which \<^verbatim>\<open>fromhex\<close> refuses with \<^verbatim>\<open>error()\<close>.  A loop that converts into a buffer leaves the bytes
  it wrote before such an error in the buffer, so the model returns them beside the outcome.
\<close>

subsection \<open>Digits\<close>

definition fromhex :: "int \<Rightarrow> int outcome" where
  "fromhex a =
     (if 48 \<le> a \<and> a \<le> 57 then Ret (a - 48)
      else if 97 \<le> a \<and> a \<le> 102 then Ret (a - 97 + 10)
      else Err ''Reply contains invalid hex digit'')"

definition tohex :: "int \<Rightarrow> char" where
  "tohex nib = char_of_int (if nib < 10 then 48 + nib else 97 + nib - 10)"

subsection \<open>Byte strings\<close>

fun unhexify :: "string \<Rightarrow> nat \<Rightarrow> byte list \<times> nat outcome" where
  \<comment> \<open>the bytes written to \<^verbatim>\<open>bin\<close> and the count returned\<close>
  "unhexify hex 0 = ([], Ret 0)"
| "unhexify hex (Suc count) =
     (if chr_at hex 0 = NUL \<or> chr_at hex 1 = NUL then ([], Ret 0)
      else case (fromhex (cint (chr_at hex 0)), fromhex (cint (chr_at hex 1))) of
             (Ret n1, Ret n2) \<Rightarrow>
               (let (bs, r) = unhexify (drop 2 hex) count
                in (word_of_int (n1 * 16 + n2) # bs, bind_o r (\<lambda>i. Ret (Suc i))))
           | (Ret n1, e) \<Rightarrow> ([], bind_o e (\<lambda>_. Fault))
           | (e, _) \<Rightarrow> ([], bind_o e (\<lambda>_. Fault)))"

definition hexify :: "byte list \<Rightarrow> nat \<Rightarrow> string \<times> nat" where
  \<comment> \<open>the text written to \<^verbatim>\<open>hex\<close>, its NUL included, and the count returned\<close>
  "hexify bin count =
     (let n = (if count = 0 then length (takeWhile (\<lambda>b. b \<noteq> 0) bin) else count)
      in (concat (map (\<lambda>b. [tohex (drop_bit 4 (sint b) AND 15), tohex (sint b AND 15)])
                      (take n bin)) @ [NUL], n))"

definition convert_int_to_ascii :: "byte list \<Rightarrow> nat \<Rightarrow> string" where
  \<comment> \<open>the text written to \<^verbatim>\<open>to\<close>, its NUL included\<close>
  "convert_int_to_ascii from n =
     concat (map (\<lambda>ch. [tohex (drop_bit 4 (sint ch AND 240) AND 15), tohex (sint ch AND 15)])
                 (take n from)) @ [NUL]"

fun convert_ascii_to_int :: "string \<Rightarrow> nat \<Rightarrow> byte list \<times> unit outcome" where
  \<comment> \<open>the bytes written to \<^verbatim>\<open>to\<close>, and how the loop ended\<close>
  "convert_ascii_to_int from 0 = ([], Ret ())"
| "convert_ascii_to_int from (Suc n) =
     (case fromhex (cint (chr_at from 0)) of
        Ret nib1 \<Rightarrow>
          (case fromhex (cint (chr_at from 1)) of
             Ret nib2 \<Rightarrow>
               (let (bs, r) = convert_ascii_to_int (drop 2 from) n
                in (word_of_int (((push_bit 4 (nib1 AND 15)) AND 240) OR (nib2 AND 15)) # bs, r))
           | e \<Rightarrow> ([], bind_o e (\<lambda>_. Ret ())))
      | e \<Rightarrow> ([], bind_o e (\<lambda>_. Ret ())))"

subsection \<open>Numbers in packets\<close>

fun decode_address_loop :: "string \<Rightarrow> nat \<Rightarrow> 64 word \<Rightarrow> 64 word outcome" where
  "decode_address_loop start 0 addr = Ret addr"
| "decode_address_loop start (Suc len) addr =
     bind_o (fromhex (cint (chr_at start 0)))
       (\<lambda>n. decode_address_loop (drop 1 start) len (push_bit 4 addr OR word_of_int (n AND 15)))"

definition decode_address :: "string \<Rightarrow> nat \<Rightarrow> int outcome" where
  "decode_address start len =
     bind_o (decode_address_loop start len 0) (\<lambda>addr. Ret (sint addr))"

fun decode_until :: "char \<Rightarrow> string \<Rightarrow> 'w::len word \<Rightarrow> ('w word \<times> string) outcome" where
  \<comment> \<open>\<^verbatim>\<open>while ((ch = from[i++]) != stop)\<close>: the number and what is behind the stop character\<close>
  "decode_until stop [] acc = bind_o (fromhex (cint NUL)) (\<lambda>_. Fault)"
| "decode_until stop (ch # from) acc =
     (if ch = stop then Ret (acc, from)
      else bind_o (fromhex (cint ch))
             (\<lambda>n. decode_until stop from (push_bit 4 acc OR word_of_int (n AND 15))))"

fun decode_len :: "nat \<Rightarrow> string \<Rightarrow> 32 word \<Rightarrow> 32 word outcome" where
  \<comment> \<open>the \<^verbatim>\<open>for (j = 0; j < 4; j++)\<close> of \<^verbatim>\<open>decode_m_packet\<close>\<close>
  "decode_len 0 from len = Ret len"
| "decode_len (Suc j) [] len = Ret len"
| "decode_len (Suc j) (ch # from) len =
     bind_o (fromhex (cint ch))
       (\<lambda>n. decode_len j from (push_bit 4 len OR word_of_int (n AND 15)))"

definition decode_m_packet :: "string \<Rightarrow> (int \<times> nat) outcome" where
  "decode_m_packet from =
     bind_o (decode_until (CHR '','') from (0 :: 64 word)) (\<lambda>(addr, rest).
     bind_o (decode_len 4 rest 0) (\<lambda>len. Ret (sint addr, unat len)))"

definition decode_M_packet :: "string \<Rightarrow> (int \<times> nat \<times> byte list \<times> unit outcome) outcome" where
  \<comment> \<open>address, length, the bytes written to \<^verbatim>\<open>to\<close>, and how their conversion ended\<close>
  "decode_M_packet from =
     bind_o (decode_until (CHR '','') from (0 :: 64 word)) (\<lambda>(addr, rest).
     bind_o (decode_until (CHR '':'') rest (0 :: 32 word)) (\<lambda>(len, data).
     (let (bs, r) = convert_ascii_to_int data (unat len)
      in Ret (sint addr, unat len, bs, r))))"

subsection \<open>Digits: facts\<close>

lemma cint_hex_digit: "d < 16 \<Longrightarrow> cint (hex_digit d) = (if d < 10 then 48 + int d else 87 + int d)"
proof -
  assume d: "d < 16"
  have "(of_char (hex_digit d) :: int) = int (of_char (hex_digit d))"
    by (simp only: of_nat_of_char)
  with d have "(of_char (hex_digit d) :: int) = (if d < 10 then 48 + int d else 87 + int d)"
    by (simp add: of_char_hex_digit)
  with d show ?thesis by (simp add: cint_def signed_take_bit_int_eq_self)
qed

lemma fromhex_hex_digit [simp]: "d < 16 \<Longrightarrow> fromhex (cint (hex_digit d)) = Ret (int d)"
  by (auto simp: fromhex_def cint_hex_digit)

lemma tohex_hex_digit: "d < 16 \<Longrightarrow> tohex (int d) = hex_digit d"
proof -
  have e: "(if int d < 10 then 48 + int d else 97 + int d - 10) = int (if d < 10 then 48 + d else 87 + d)"
    by auto
  show ?thesis unfolding tohex_def char_of_int_def e char_of_nat hex_digit_def ..
qed

lemma fromhex_range: "fromhex a = Ret n \<Longrightarrow> 0 \<le> n \<and> n < 16"
  by (auto simp: fromhex_def split: if_splits)

lemma fromhex_NUL [simp]: "fromhex (cint NUL) = Err ''Reply contains invalid hex digit''"
  by (simp add: fromhex_def cint_def NUL_def)

lemma fromhex_outcomes:
  "(\<exists>n. fromhex a = Ret n \<and> 0 \<le> n \<and> n < 16) \<or> fromhex a = Err ''Reply contains invalid hex digit''"
  by (auto simp: fromhex_def)

lemma unat_byte_bound: "unat (b::byte) < 256"
  using unsigned_less [of b] by simp

lemma and_15: "x AND 15 = take_bit 4 (x::int)"
  by (simp add: take_bit_eq_mask mask_eq_exp_minus_1)

lemma low_nibble_sint: "sint (b::byte) AND 15 = int (unat b mod 16)"
proof -
  have "sint b AND 15 = take_bit 4 (uint b)"
    by (simp only: and_15 sint_uint) (simp add: take_bit_signed_take_bit)
  also have "\<dots> = int (unat b mod 16)" by (simp add: take_bit_eq_mod zmod_int)
  finally show ?thesis .
qed

lemma high_nibble_sint: "drop_bit 4 (sint (b::byte)) AND 15 = int (unat b div 16)"
proof -
  have "drop_bit 4 (sint b) AND 15 = drop_bit 4 (take_bit 8 (sint b))"
    by (simp only: and_15) (simp only: take_bit_drop_bit, simp)
  also have "take_bit 8 (sint b) = take_bit 8 (uint b)"
    by (simp only: sint_uint) (simp add: take_bit_signed_take_bit)
  also have "take_bit 8 (uint b) = uint b"
    using unsigned_less [of b, where ?'a = int] by (simp add: take_bit_int_eq_self)
  also have "drop_bit 4 (uint b) = int (unat b div 16)"
    by (simp add: drop_bit_eq_div zdiv_int)
  finally show ?thesis .
qed

lemma high_nibble_masked: "drop_bit 4 (sint (b::byte) AND 240) AND 15 = int (unat b div 16)"
proof -
  have "drop_bit 4 (sint b AND 240) AND 15 = drop_bit 4 (sint b) AND (drop_bit 4 240 AND 15)"
    by (simp only: drop_bit_and and.assoc)
  also have "drop_bit 4 240 AND 15 = (15 :: int)" by simp
  finally show ?thesis by (simp only: high_nibble_sint)
qed

lemma join_nibbles:
  assumes "d < 16" and "e < 16"
  shows "(push_bit 4 (int d AND 15) AND 240) OR (int e AND 15) = int (16 * d + e)"
proof -
  have id: "int d AND 15 = int d" "int e AND 15 = int e"
    using assms by (simp_all only: and_15) (simp_all add: take_bit_int_eq_self)
  have "push_bit 4 (int d) AND 240 = push_bit 4 (int d) AND push_bit 4 15"
    by (simp add: push_bit_eq_mult)
  also have "\<dots> = push_bit 4 (int d)" by (simp only: id flip: push_bit_and)
  finally have "(push_bit 4 (int d AND 15) AND 240) OR (int e AND 15) = push_bit 4 (int d) OR int e"
    by (simp only: id)
  also have "\<dots> = push_bit 4 (int d) + int e"
  proof (rule disjunctive_add [symmetric])
    fix n
    have "\<not> bit (int e) n" if "4 \<le> n"
    proof -
      have "int e = take_bit 4 (int e)" using assms by (simp add: take_bit_int_eq_self)
      then show ?thesis using that by (metis bit_take_bit_iff not_le)
    qed
    then show "\<not> bit (push_bit 4 (int d)) n \<or> \<not> bit (int e) n"
      by (auto simp: bit_push_bit_iff)
  qed
  finally show ?thesis by (simp add: push_bit_eq_mult)
qed

definition hex_byte :: "byte \<Rightarrow> string" where
  \<comment> \<open>the two digits of a byte, for the statements below\<close>
  "hex_byte b = [hex_digit (unat b div 16), hex_digit (unat b mod 16)]"

definition hex_bytes :: "byte list \<Rightarrow> string" where
  "hex_bytes bs = concat (map hex_byte bs)"

lemma hex_bytes_simps [simp]:
  "hex_bytes [] = []" "hex_bytes (b # bs) = hex_byte b @ hex_bytes bs"
  "hex_bytes (as @ bs) = hex_bytes as @ hex_bytes bs"
  by (simp_all add: hex_bytes_def)

lemma length_hex_bytes [simp]: "length (hex_bytes bs) = 2 * length bs"
  by (induction bs) (auto simp: hex_byte_def)

lemma byte_div_bound [simp]: "unat (b::byte) div 16 < 16"
  using unat_byte_bound [of b] by (simp add: less_mult_imp_div_less)

lemma hex_bytes_chars: "c \<in> set (hex_bytes bs) \<Longrightarrow> \<exists>d < 16. c = hex_digit d"
  by (induction bs) (auto simp: hex_byte_def intro: byte_div_bound exI [of _ "_ mod 16"])

lemma NUL_notin_hex_bytes: "NUL \<notin> set (hex_bytes bs)"
  using hex_bytes_chars hex_digit_not_special(6) by metis

lemma convert_int_to_ascii_eq: "convert_int_to_ascii from n = hex_bytes (take n from) @ [NUL]"
  by (simp only: convert_int_to_ascii_def high_nibble_masked low_nibble_sint)
    (simp add: hex_bytes_def hex_byte_def [abs_def] tohex_hex_digit flip: of_nat_mod zdiv_int)

lemma hexify_eq:
  "count \<noteq> 0 \<Longrightarrow> hexify bin count = (hex_bytes (take count bin) @ [NUL], count)"
  by (simp only: hexify_def high_nibble_sint low_nibble_sint)
    (simp add: hex_bytes_def hex_byte_def [abs_def] tohex_hex_digit flip: of_nat_mod zdiv_int)

lemma byte_of_nibbles: "word_of_int (16 * int (unat (b::byte) div 16) + int (unat b mod 16)) = b"
proof -
  have "16 * int (unat b div 16) + int (unat b mod 16) = int (unat b)"
    by (metis mult_div_mod_eq of_nat_add of_nat_mult of_nat_numeral)
  then show ?thesis by simp
qed

subsection \<open>Byte strings: round trips\<close>

lemma chr_at_hex_byte [simp]:
  "chr_at (hex_byte b @ s) 0 = hex_digit (unat b div 16)"
  "chr_at (hex_byte b @ s) (Suc 0) = hex_digit (unat b mod 16)"
  "drop 2 (hex_byte b @ s) = s" "length (hex_byte b) = 2" "drop 2 (hex_byte b) = []"
  by (simp_all add: hex_byte_def)

lemma convert_step:
  assumes "chr_at s 0 = hex_digit d" and "chr_at s 1 = hex_digit e" and "d < 16" and "e < 16"
    and "convert_ascii_to_int (drop 2 s) n = (bs, r)"
  shows "convert_ascii_to_int s (Suc n) = (word_of_int (int (16 * d + e)) # bs, r)"
  using assms(5)
  by (simp only: convert_ascii_to_int.simps assms(1,2) fromhex_hex_digit [OF assms(3)]
      fromhex_hex_digit [OF assms(4)] outcome.case join_nibbles [OF assms(3,4)] Let_def prod.case)

lemma convert_ascii_to_int_hex:
  "convert_ascii_to_int (hex_bytes bs @ rest) (length bs) = (bs, Ret ())"
proof (induction bs)
  case Nil then show ?case by simp
next
  case (Cons b bs)
  have "convert_ascii_to_int (hex_byte b @ (hex_bytes bs @ rest)) (Suc (length bs))
      = (word_of_int (int (16 * (unat b div 16) + unat b mod 16)) # bs, Ret ())"
    by (rule convert_step) (simp_all add: Cons.IH)
  then show ?case by simp
qed

lemma unhexify_hex:
  "unhexify (hex_bytes bs @ rest) (length bs) = (bs, Ret (length bs))"
proof (induction bs)
  case Nil then show ?case by simp
next
  case (Cons b bs)
  have "hex_digit (unat b div 16) \<noteq> NUL" "hex_digit (unat b mod 16) \<noteq> NUL"
    by (simp_all add: hex_digit_not_special)
  then show ?case using Cons byte_of_nibbles [of b] by (simp add: mult.commute)
qed

lemma convert_ascii_to_int_length:
  "convert_ascii_to_int s n = (bs, r) \<Longrightarrow> length bs \<le> n \<and> 2 * length bs \<le> length s
     \<and> (r = Ret () \<longrightarrow> length bs = n)
     \<and> (r = Ret () \<or> r = Err ''Reply contains invalid hex digit'')"
proof (induction n arbitrary: s bs r)
  case 0 then show ?case by simp
next
  case (Suc n)
  let ?e = "Err ''Reply contains invalid hex digit'' :: int outcome"
  consider (e0) "fromhex (cint (chr_at s 0)) = ?e"
    | (e1) n1 where "fromhex (cint (chr_at s 0)) = Ret n1" "fromhex (cint (chr_at s 1)) = ?e"
    | (ok) n1 n2 where "fromhex (cint (chr_at s 0)) = Ret n1" "fromhex (cint (chr_at s 1)) = Ret n2"
    using fromhex_outcomes [of "cint (chr_at s 0)"] fromhex_outcomes [of "cint (chr_at s 1)"] by blast
  then show ?case
  proof cases
    case (ok n1 n2)
    have l: "1 < length s"
      using ok(2) by (rule contrapos_pp) (simp add: chr_at_def)
    obtain bs' r' where rec: "convert_ascii_to_int (drop 2 s) n = (bs', r')"
      by (cases "convert_ascii_to_int (drop 2 s) n") auto
    have "length bs = Suc (length bs')" "r = r'"
      using Suc.prems
      by (auto simp only: convert_ascii_to_int.simps ok outcome.case rec Let_def prod.case
          Pair_inject list.size)
    with Suc.IH [OF rec] l show ?thesis by auto
  next
    case e0
    then have "bs = []" "r = Err ''Reply contains invalid hex digit''"
      using Suc.prems by simp_all
    then show ?thesis by simp
  next
    case (e1 n1)
    then have "bs = []" "r = Err ''Reply contains invalid hex digit''"
      using Suc.prems by simp_all
    then show ?thesis by simp
  qed
qed

subsection \<open>Numbers in packets: facts\<close>

lemma push_digit:
  assumes "d < 16"
  shows "push_bit 4 (of_nat a) OR word_of_int (int d AND 15) = (of_nat (a * 16 + d) :: 'w::len word)"
proof -
  have "int d AND 15 = int d"
    using assms by (simp only: and_15) (simp add: take_bit_int_eq_self)
  then have d: "word_of_int (int d AND 15) = (of_nat d :: 'w word)" by simp
  have "\<not> bit (of_nat d :: 'w word) n" if "4 \<le> n" for n
  proof -
    have "d = take_bit 4 d" using assms by (simp add: take_bit_nat_eq_self)
    then have "\<not> bit d n" using that by (metis bit_take_bit_iff not_le)
    then show ?thesis by (simp add: bit_of_nat_iff)
  qed
  then have "push_bit 4 (of_nat a) OR of_nat d = push_bit 4 (of_nat a) + (of_nat d :: 'w word)"
    by (intro disjunctive_add [symmetric]) (auto simp: bit_push_bit_iff)
  then show ?thesis by (simp add: d push_bit_eq_mult mult.commute)
qed

definition hex_text :: "string \<Rightarrow> bool" where
  \<comment> \<open>text of lower case hexadecimal digits\<close>
  "hex_text s \<longleftrightarrow> (\<forall>c \<in> set s. \<exists>d < 16. c = hex_digit d)"

lemma hex_text_simps [simp]:
  "hex_text []" "hex_text (c # s) \<longleftrightarrow> (\<exists>d < 16. c = hex_digit d) \<and> hex_text s"
  "hex_text (s @ t) \<longleftrightarrow> hex_text s \<and> hex_text t"
  by (auto simp: hex_text_def)

lemma hex_text_hex_digits [simp]: "hex_text (hex_digits n)"
  by (auto simp: hex_text_def dest: hex_digits_set)

lemma hex_text_hex_bytes [simp]: "hex_text (hex_bytes bs)"
  by (auto simp: hex_text_def dest: hex_bytes_chars)

lemma decode_until_hex:
  assumes "hex_text s" and "\<And>d. d < 16 \<Longrightarrow> hex_digit d \<noteq> stop"
  shows "decode_until stop (s @ stop # rest) (of_nat acc) =
    Ret (of_nat (fst (scan_digits 16 acc s)) :: 'w::len word, rest)"
  using assms(1)
proof (induction s arbitrary: acc)
  case Nil then show ?case by simp
next
  case (Cons c s)
  then obtain d where d: "d < 16" "c = hex_digit d" by auto
  have "decode_until stop ((c # s) @ stop # rest) (of_nat acc :: 'w word) =
      decode_until stop (s @ stop # rest) (of_nat (acc * 16 + d))"
    by (simp only: append_Cons decode_until.simps d(2) assms(2) [OF d(1)] if_False
        fromhex_hex_digit [OF d(1)] bind_o.simps push_digit [OF d(1)])
  then show ?case using Cons.IH [of "acc * 16 + d"] Cons.prems d by simp
qed

lemma decode_len_hex:
  assumes "hex_text s" and "length s \<le> k" and "length s < k \<Longrightarrow> rest = []"
  shows "decode_len k (s @ rest) (of_nat acc) = Ret (of_nat (fst (scan_digits 16 acc s)))"
  using assms
proof (induction s arbitrary: acc k)
  case Nil then show ?case by (cases k) auto
next
  case (Cons c s)
  then obtain k' where k: "k = Suc k'" by (cases k) auto
  from Cons.prems obtain d where d: "d < 16" "c = hex_digit d" by auto
  have "decode_len (Suc k') ((c # s) @ rest) (of_nat acc) =
      decode_len k' (s @ rest) (of_nat (acc * 16 + d))"
    by (simp only: append_Cons decode_len.simps d(2) fromhex_hex_digit [OF d(1)] bind_o.simps
        push_digit [OF d(1)])
  then show ?case using Cons.IH [of k' "acc * 16 + d"] Cons.prems d k by simp
qed

lemma decode_address_loop_hex:
  assumes "hex_text s"
  shows "decode_address_loop (s @ rest) (length s) (of_nat acc) =
    Ret (of_nat (fst (scan_digits 16 acc s)))"
  using assms
proof (induction s arbitrary: acc)
  case Nil then show ?case by simp
next
  case (Cons c s)
  then obtain d where d: "d < 16" "c = hex_digit d" by auto
  have "decode_address_loop ((c # s) @ rest) (Suc (length s)) (of_nat acc) =
      decode_address_loop (s @ rest) (length s) (of_nat (acc * 16 + d))"
    by (simp only: append_Cons decode_address_loop.simps d(2) chr_at_simps drop_Suc_Cons drop_0
        One_nat_def fromhex_hex_digit [OF d(1)] bind_o.simps push_digit [OF d(1)])
  then show ?case using Cons.IH [of "acc * 16 + d"] Cons.prems d by simp
qed

lemma sint_of_nat64: "n < 2 ^ 63 \<Longrightarrow> sint (of_nat n :: 64 word) = int n"
  by (simp add: sint_uint unsigned_of_nat take_bit_nat_eq_self signed_take_bit_int_eq_self)

lemma decode_m_packet_hex:
  assumes "a < 2 ^ 63" and "n < 16 ^ 4"
  shows "decode_m_packet (hex_digits a @ '','' @ hex_digits n) = Ret (int a, n)"
proof -
  have "decode_until (CHR '','') (hex_digits a @ CHR '','' # hex_digits n) (of_nat 0 :: 64 word)
      = Ret (of_nat (fst (scan_digits 16 0 (hex_digits a))), hex_digits n)"
    by (rule decode_until_hex) (simp_all add: hex_digit_not_special)
  moreover have "length (hex_digits n) \<le> 4"
    by (rule length_hex_digits) (use assms in simp_all)
  then have "decode_len 4 (hex_digits n @ []) (of_nat 0) = Ret (of_nat (fst (scan_digits 16 0 (hex_digits n))))"
    by (intro decode_len_hex) simp_all
  ultimately show ?thesis
    using assms by (simp add: decode_m_packet_def scan_hex_digits sint_of_nat64 unsigned_of_nat
        take_bit_nat_eq_self)
qed

lemma decode_M_packet_hex:
  assumes "a < 2 ^ 63" and "n < 2 ^ 32"
  shows "decode_M_packet (hex_digits a @ '','' @ hex_digits n @ '':'' @ data) =
    Ret (int a, n, convert_ascii_to_int data n)"
proof -
  have "decode_until (CHR '','') (hex_digits a @ CHR '','' # hex_digits n @ CHR '':'' # data)
      (of_nat 0 :: 64 word)
      = Ret (of_nat (fst (scan_digits 16 0 (hex_digits a))), hex_digits n @ CHR '':'' # data)"
    by (rule decode_until_hex) (simp_all add: hex_digit_not_special)
  moreover have "decode_until (CHR '':'') (hex_digits n @ CHR '':'' # data) (of_nat 0 :: 32 word)
      = Ret (of_nat (fst (scan_digits 16 0 (hex_digits n))), data)"
    by (rule decode_until_hex) (simp_all add: hex_digit_not_special)
  ultimately show ?thesis
    using assms by (simp add: decode_M_packet_def scan_hex_digits sint_of_nat64 unsigned_of_nat
        take_bit_nat_eq_self split: prod.splits)
qed

end
