(* ===== verification/Regcache.thy ===== *)
theory Regcache
  imports Inferiors Hex
begin

section \<open>The register cache (src/regcache.c)\<close>

text \<open>
  Every thread has a buffer with its registers and a flag that says whether the buffer holds the
  thread's registers.  Reading operations fetch the registers from the target first when the flag is
  off; \<open>supply_register\<close>, which the fetching code itself calls, does not look at the flag.  The
  target's function to fetch, a function pointer in the source, is an argument: \<open>None\<close> where the
  source passes \<^verbatim>\<open>fetch = 0\<close>.
\<close>

type_synonym ('k, 'z) fetcher = "int \<Rightarrow> (('k, 'z) inf_state_scheme, unit) prog"

subsection \<open>The operations\<close>

definition read_cache :: "nat \<Rightarrow> (('k, 'z) inf_state_scheme, inferior_regcache_data) prog" where
  \<comment> \<open>\<^verbatim>\<open>*regcache\<close> of the thread at an address\<close>
  "read_cache a = bind_p (deref_thread (Some a)) (\<lambda>(_, th).
     case regcache_data th of None \<Rightarrow> fault_p | Some rc \<Rightarrow> return_p rc)"

definition upd_cache ::
  "nat \<Rightarrow> (inferior_regcache_data \<Rightarrow> inferior_regcache_data) \<Rightarrow> (('k, 'z) inf_state_scheme, unit) prog"
where
  "upd_cache a f = bind_p (deref_thread (Some a)) (\<lambda>(_, th).
     case regcache_data th of
       None \<Rightarrow> fault_p
     | Some rc \<Rightarrow> modify_p (\<lambda>s. s\<lparr>threads := (threads s)(a \<mapsto> th\<lparr>regcache_data := Some (f rc)\<rparr>)\<rparr>))"

definition get_regcache ::
  "('k, 'z) fetcher option \<Rightarrow> nat option \<Rightarrow> (('k, 'z) inf_state_scheme, nat) prog" where
  \<comment> \<open>the cache is named by its thread's address\<close>
  "get_regcache fetch inferior = bind_p (deref_thread inferior) (\<lambda>(a, th).
     case regcache_data th of
       None \<Rightarrow> exit_p 1  \<comment> \<open>\<^verbatim>\<open>fatal\<close>: no register cache\<close>
     | Some rc \<Rightarrow>
         (case fetch of
            Some fetch_inferior_registers \<Rightarrow>
              seq_p
                (when_p (\<not> registers_valid rc)
                  (seq_p (fetch_inferior_registers 0) (upd_cache a (\<lambda>r. r\<lparr>registers_valid := True\<rparr>))))
                (return_p a)
          | None \<Rightarrow> return_p a))"

definition regcache_invalidate_one ::
  "('k, 'z) fetcher \<Rightarrow> nat \<Rightarrow> (('k, 'z) inf_state_scheme, unit) prog" where
  "regcache_invalidate_one store_inferior_registers entry =
     bind_p (read_cache entry) (\<lambda>rc.
     seq_p
       (when_p (registers_valid rc)
         (bind_p (gets_p current_inferior) (\<lambda>saved_inferior.
          seq_p (modify_p (\<lambda>s. s\<lparr>current_inferior := Some entry\<rparr>))
          (seq_p (store_inferior_registers (- 1))
             (modify_p (\<lambda>s. s\<lparr>current_inferior := saved_inferior\<rparr>))))))
       (upd_cache entry (\<lambda>r. r\<lparr>registers_valid := False\<rparr>)))"

definition regcache_invalidate :: "('k, 'z) fetcher \<Rightarrow> (('k, 'z) inf_state_scheme, unit) prog" where
  "regcache_invalidate store_inferior_registers =
     bind_p (gets_p all_threads)
       (\<lambda>l. for_each_inferior l (regcache_invalidate_one store_inferior_registers))"

definition current_regcache ::
  "('k, 'z) fetcher option \<Rightarrow> (('k, 'z) inf_state_scheme, nat) prog" where
  \<comment> \<open>\<^verbatim>\<open>get_regcache (current_inferior, fetch)\<close>\<close>
  "current_regcache fetch = bind_p (gets_p current_inferior) (get_regcache fetch)"

definition registers_to_string ::
  "('k, 'z) fetcher option \<Rightarrow> (('k, 'z) inf_state_scheme, string) prog" where
  \<comment> \<open>the text written to \<^verbatim>\<open>buf\<close>\<close>
  "registers_to_string fetch =
     bind_p (current_regcache fetch) (\<lambda>a.
     bind_p (read_cache a) (\<lambda>rc.
     bind_p (gets_p register_bytes) (\<lambda>n. return_p (convert_int_to_ascii (registers rc) n))))"

definition registers_from_string ::
  "('k, 'z) fetcher option \<Rightarrow> string \<Rightarrow> (('k, 'z) inf_state_scheme, unit) prog" where
  "registers_from_string fetch buf =
     bind_p (current_regcache fetch) (\<lambda>a.
     bind_p (read_cache a) (\<lambda>rc.
     bind_p (gets_p register_bytes) (\<lambda>n.
     (let len = (if length buf > 2 * n then 2 * n else length buf);
          (bs, r) = convert_ascii_to_int buf (len div 2)
      in case store (registers rc) 0 bs of
           Ret regs \<Rightarrow> seq_p (upd_cache a (\<lambda>c. c\<lparr>registers := regs\<rparr>)) (outcome_p r)
         | _ \<Rightarrow> fault_p))))"

definition register_data ::
  "('k, 'z) fetcher option \<Rightarrow> int \<Rightarrow> (('k, 'z) inf_state_scheme, nat \<times> nat) prog" where
  \<comment> \<open>a pointer into a register buffer: the cache and the offset\<close>
  "register_data fetch n =
     bind_p (current_regcache fetch) (\<lambda>a.
     bind_p (reg_at n) (\<lambda>r. return_p (a, nat (reg_offset r div 8))))"

definition supply_register :: "int \<Rightarrow> byte list \<Rightarrow> (('k, 'z) inf_state_scheme, unit) prog" where
  "supply_register n buf =
     bind_p (register_data None n) (\<lambda>(a, ofs).
     bind_p (register_size n) (\<lambda>sz.
     bind_p (read_cache a) (\<lambda>rc.
       if length buf < sz then fault_p
       else case store (registers rc) ofs (take sz buf) of
              Ret regs \<Rightarrow> upd_cache a (\<lambda>c. c\<lparr>registers := regs\<rparr>)
            | _ \<Rightarrow> fault_p)))"

definition supply_register_by_name ::
  "string \<Rightarrow> byte list \<Rightarrow> (('k, 'z) inf_state_scheme, unit) prog" where
  "supply_register_by_name name buf = bind_p (find_regno name) (\<lambda>n. supply_register n buf)"

definition collect_register ::
  "('k, 'z) fetcher option \<Rightarrow> int \<Rightarrow> (('k, 'z) inf_state_scheme, byte list) prog" where
  \<comment> \<open>the bytes copied to \<^verbatim>\<open>buf\<close>\<close>
  "collect_register fetch n =
     bind_p (register_data fetch n) (\<lambda>(a, ofs).
     bind_p (register_size n) (\<lambda>sz.
     bind_p (read_cache a) (\<lambda>rc.
       if ofs + sz \<le> length (registers rc) then return_p (take sz (drop ofs (registers rc)))
       else fault_p)))"

definition collect_register_as_string ::
  "('k, 'z) fetcher option \<Rightarrow> int \<Rightarrow> (('k, 'z) inf_state_scheme, string) prog" where
  "collect_register_as_string fetch n =
     bind_p (register_data fetch n) (\<lambda>(a, ofs).
     bind_p (register_size n) (\<lambda>sz.
     bind_p (read_cache a) (\<lambda>rc.
       if ofs + sz \<le> length (registers rc)
       then return_p (convert_int_to_ascii (drop ofs (registers rc)) sz)
       else fault_p)))"

definition collect_register_by_name ::
  "('k, 'z) fetcher option \<Rightarrow> string \<Rightarrow> (('k, 'z) inf_state_scheme, byte list) prog" where
  "collect_register_by_name fetch name = bind_p (find_regno name) (collect_register fetch)"

subsection \<open>Slots of the register buffer\<close>

definition slot_ofs :: "reg list \<Rightarrow> nat \<Rightarrow> nat" where
  "slot_ofs rs i = nat (reg_offset (rs ! i) div 8)"

definition slot_len :: "reg list \<Rightarrow> nat \<Rightarrow> nat" where
  "slot_len rs i = nat (reg_size (rs ! i) div 8)"

lemma slot_bound:
  assumes "regs_wf rs bytes" and "i < length rs"
  shows "slot_ofs rs i + slot_len rs i \<le> bytes" "0 < slot_len rs i"
proof -
  from assms have w: "0 \<le> reg_offset (rs ! i)" "0 < reg_size (rs ! i)" "8 dvd reg_offset (rs ! i)"
      "8 dvd reg_size (rs ! i)" "reg_offset (rs ! i) + reg_size (rs ! i) \<le> 8 * int bytes"
    by (auto simp: regs_wf_def)
  then obtain k l where "reg_offset (rs ! i) = 8 * k" "reg_size (rs ! i) = 8 * l"
    by (auto elim!: dvdE)
  with w show "slot_ofs rs i + slot_len rs i \<le> bytes" "0 < slot_len rs i"
    by (auto simp: slot_ofs_def slot_len_def)
qed

lemma slot_disjoint:
  assumes "regs_wf rs bytes" and "i < length rs" and "j < length rs" and "i \<noteq> j"
  shows "slot_ofs rs i + slot_len rs i \<le> slot_ofs rs j \<or> slot_ofs rs j + slot_len rs j \<le> slot_ofs rs i"
proof -
  have *: "slot_ofs rs a + slot_len rs a \<le> slot_ofs rs b" if "a < b" "b < length rs" for a b
  proof -
    from assms(1) that have w: "0 \<le> reg_offset (rs ! a)" "0 < reg_size (rs ! a)"
        "8 dvd reg_offset (rs ! a)" "8 dvd reg_size (rs ! a)"
        "reg_offset (rs ! a) + reg_size (rs ! a) \<le> reg_offset (rs ! b)" "8 dvd reg_offset (rs ! b)"
      by (auto simp: regs_wf_def)
    then obtain k l m where "reg_offset (rs ! a) = 8 * k" "reg_size (rs ! a) = 8 * l"
        "reg_offset (rs ! b) = 8 * m"
      by (auto elim!: dvdE)
    with w show ?thesis by (auto simp: slot_ofs_def slot_len_def)
  qed
  show ?thesis using assms(2-4) * by (cases "i < j") auto
qed

subsection \<open>Caches: evaluation\<close>

definition cache_at :: "('k, 'z) inf_state_scheme \<Rightarrow> nat \<Rightarrow> inferior_regcache_data \<Rightarrow> bool" where
  "cache_at s a rc \<longleftrightarrow> (\<exists>th. threads s a = Some th \<and> regcache_data th = Some rc)"

definition set_cache ::
  "nat \<Rightarrow> inferior_regcache_data \<Rightarrow> ('k, 'z) inf_state_scheme \<Rightarrow> ('k, 'z) inf_state_scheme" where
  "set_cache a rc s = s\<lparr>threads := (threads s)(a := map_option
     (\<lambda>th. th\<lparr>regcache_data := Some rc\<rparr>) (threads s a))\<rparr>"

lemma cache_at_set_cache [simp]:
  "cache_at s a rc \<Longrightarrow> cache_at (set_cache a rc' s) a rc'' \<longleftrightarrow> rc'' = rc'"
  by (auto simp: cache_at_def set_cache_def)

lemma set_cache_set_cache [simp]: "set_cache a rc (set_cache a rc' s) = set_cache a rc s"
  by (auto simp: set_cache_def option.map_comp comp_def)

lemma set_cache_same [simp]: "cache_at s a rc \<Longrightarrow> set_cache a rc s = s"
proof -
  assume "cache_at s a rc"
  then obtain th where th: "threads s a = Some th" "regcache_data th = Some rc"
    by (auto simp: cache_at_def)
  then have "th\<lparr>regcache_data := Some rc\<rparr> = th" by simp
  with th have "(threads s)(a := map_option (\<lambda>th. th\<lparr>regcache_data := Some rc\<rparr>) (threads s a)) = threads s"
    by (metis fun_upd_triv option.simps(9))
  then show ?thesis by (simp add: set_cache_def)
qed

lemma set_cache_fields [simp]:
  "kst (set_cache a rc s) = kst s" "reg_defs (set_cache a rc s) = reg_defs s"
  "register_bytes (set_cache a rc s) = register_bytes s" "entries (set_cache a rc s) = entries s"
  "gdbserver_expedite_regs (set_cache a rc s) = gdbserver_expedite_regs s"
  "heap_brk (set_cache a rc s) = heap_brk s" "all_threads (set_cache a rc s) = all_threads s"
  "current_inferior (set_cache a rc s) = current_inferior s"
  by (simp_all add: set_cache_def)

lemma read_cache_eq [prog_simps]: "cache_at s a rc \<Longrightarrow> read_cache a s = (Ret rc, s)"
  by (auto simp: read_cache_def cache_at_def bind_p_def)

lemma upd_cache_eq [prog_simps]:
  "cache_at s a rc \<Longrightarrow> upd_cache a f s = (Ret (), set_cache a (f rc) s)"
  by (auto simp: upd_cache_def cache_at_def bind_p_def set_cache_def fun_eq_iff)

definition current_cache :: "('k, 'z) inf_state_scheme \<Rightarrow> nat \<Rightarrow> inferior_regcache_data \<Rightarrow> bool" where
  \<comment> \<open>the current thread has a register cache that fits the register table\<close>
  "current_cache s a rc \<longleftrightarrow> current_inferior s = Some a \<and> cache_at s a rc
     \<and> regs_wf (reg_defs s) (register_bytes s) \<and> length (registers rc) = register_bytes s"

lemma current_regcache_nofetch [prog_simps]:
  "current_cache s a rc \<Longrightarrow> current_regcache None s = (Ret a, s)"
  by (auto simp: current_regcache_def current_cache_def get_regcache_def cache_at_def bind_p_def)

lemma current_regcache_valid [prog_simps]:
  "current_cache s a rc \<Longrightarrow> registers_valid rc \<Longrightarrow> current_regcache fetch s = (Ret a, s)"
  by (auto simp: current_regcache_def current_cache_def get_regcache_def cache_at_def bind_p_def
      split: option.split)

lemma current_regcache_fetch:
  assumes "current_cache s a rc" and "\<not> registers_valid rc"
    and "fetch 0 s = (Ret (), t)" and "cache_at t a rc'"
  shows "current_regcache (Some fetch) s = (Ret a, set_cache a (rc'\<lparr>registers_valid := True\<rparr>) t)"
  using assms
  by (auto simp: current_regcache_def current_cache_def get_regcache_def bind_p_def upd_cache_eq
      dest: cache_at_def [THEN iffD1])

lemma reg_at_eq [prog_simps]: "i < length (reg_defs s) \<Longrightarrow> reg_at (int i) s = (Ret (reg_defs s ! i), s)"
  by (simp add: reg_at_def)

lemma register_size_eq [prog_simps]:
  "i < length (reg_defs s) \<Longrightarrow> register_size (int i) s = (Ret (slot_len (reg_defs s) i), s)"
  by (simp add: register_size_def reg_at_eq bind_p_def slot_len_def)

lemma supply_register_eq:
  assumes "current_cache s a rc" and "i < length (reg_defs s)"
    and "slot_len (reg_defs s) i \<le> length buf"
  shows "supply_register (int i) buf s = (Ret (), set_cache a
    (rc\<lparr>registers := overwrite (registers rc) (slot_ofs (reg_defs s) i)
       (take (slot_len (reg_defs s) i) buf)\<rparr>) s)"
proof -
  have c: "cache_at s a rc" and l: "slot_ofs (reg_defs s) i + slot_len (reg_defs s) i \<le> length (registers rc)"
    using assms slot_bound by (fastforce simp: current_cache_def)+
  show ?thesis
    using assms c l
    by (simp add: supply_register_def register_data_def prog_simps store_def slot_ofs_def [symmetric])
qed

lemma collect_register_eq:
  assumes "current_cache s a rc" and "registers_valid rc" and "i < length (reg_defs s)"
  shows "collect_register fetch (int i) s =
    (Ret (take (slot_len (reg_defs s) i) (drop (slot_ofs (reg_defs s) i) (registers rc))), s)"
proof -
  have c: "cache_at s a rc" and l: "slot_ofs (reg_defs s) i + slot_len (reg_defs s) i \<le> length (registers rc)"
    using assms slot_bound by (fastforce simp: current_cache_def)+
  show ?thesis
    using assms c l
    by (simp add: collect_register_def register_data_def prog_simps slot_ofs_def [symmetric])
qed

lemma collect_register_as_string_eq:
  assumes "current_cache s a rc" and "registers_valid rc" and "i < length (reg_defs s)"
  shows "collect_register_as_string fetch (int i) s =
    (Ret (hex_bytes (take (slot_len (reg_defs s) i) (drop (slot_ofs (reg_defs s) i) (registers rc)))
       @ [NUL]), s)"
proof -
  have c: "cache_at s a rc" and l: "slot_ofs (reg_defs s) i + slot_len (reg_defs s) i \<le> length (registers rc)"
    using assms slot_bound by (fastforce simp: current_cache_def)+
  show ?thesis
    using assms c l
    by (simp add: collect_register_as_string_def register_data_def prog_simps convert_int_to_ascii_eq
        slot_ofs_def [symmetric])
qed

lemma current_cache_overwrite:
  assumes "current_cache s a rc" and "length regs = register_bytes s"
  shows "current_cache (set_cache a (rc\<lparr>registers := regs\<rparr>) s) a (rc\<lparr>registers := regs\<rparr>)"
  using assms by (auto simp: current_cache_def)

lemma registers_to_string_eq:
  assumes "current_cache s a rc" and "registers_valid rc"
  shows "registers_to_string fetch s = (Ret (hex_bytes (registers rc) @ [NUL]), s)"
proof -
  have "cache_at s a rc" "length (registers rc) = register_bytes s"
    using assms by (auto simp: current_cache_def)
  with assms show ?thesis
    by (simp add: registers_to_string_def prog_simps convert_int_to_ascii_eq)
qed

lemma registers_from_string_eq:
  assumes "current_cache s a rc" and "registers_valid rc"
    and "convert_ascii_to_int buf (min (length buf) (2 * register_bytes s) div 2) = (bs, r)"
  shows "registers_from_string fetch buf s =
    (r, set_cache a (rc\<lparr>registers := overwrite (registers rc) 0 bs\<rparr>) s)"
proof -
  have c: "cache_at s a rc" "length (registers rc) = register_bytes s"
    using assms by (auto simp: current_cache_def)
  have m: "(if 2 * register_bytes s < length buf then 2 * register_bytes s else length buf)
      = min (length buf) (2 * register_bytes s)"
    by simp
  have "length bs \<le> min (length buf) (2 * register_bytes s) div 2"
    using convert_ascii_to_int_length [OF assms(3)] by simp
  then have "length bs \<le> register_bytes s" by simp
  with c assms show ?thesis
    by (simp add: registers_from_string_def prog_simps m Let_def store_def)
qed

end
