(* ===== verification/Darwin.thy ===== *)
theory Darwin
  imports Regcache
begin

section \<open>The Darwin target (src/darwin-low.c, src/darwin-ppc-low.c)\<close>

text \<open>
  The functions behind the target interface: they start, attach, stop and resume the process, wait
  for it, and move registers and memory between the kernel and the server.  \<open>darwin_ops\<close> is the
  table \<^verbatim>\<open>darwin_target_ops\<close>.  Printing warnings, releasing Mach memory and the delay after
  \<^verbatim>\<open>fork\<close> have no part in the model.
\<close>

record darwin_process_info =
  p_pid :: int
  p_task :: nat
  p_thread :: nat
  p_stopped :: bool
  p_status :: int

record 'k darwin_state = "'k inf_state" +
  procs :: "nat \<rightharpoonup> darwin_process_info"
  all_processes :: inferior_list
  current_task :: nat
  current_thread :: nat
  using_threads :: bool
  debug_threads :: bool

subsection \<open>PowerPC registers (src/darwin-ppc-low.c)\<close>

definition reg_name_d :: "string \<Rightarrow> nat \<Rightarrow> string" where
  \<comment> \<open>\<^verbatim>\<open>sprintf\<close> of a register name, as in r0 or f31\<close>
  "reg_name_d prefix i = prefix @ dec_digits i"

definition darwin_ppc_fetch_registers ::
  "'k kernel \<Rightarrow> nat \<Rightarrow> (('k, 'z) inf_state_scheme, unit) prog" where
  "darwin_ppc_fetch_registers K thread_port =
     bind_p (kcall (k_get_state K thread_port)) (\<lambda>state.
     case state of None \<Rightarrow> return_p () | Some state \<Rightarrow>
     seq_p (for_p (\<lambda>i. supply_register_by_name (reg_name_d ''r'' i) (be32 (gprs state i))) [0..<32])
     (seq_p (supply_register_by_name ''pc'' (be32 (srr0 state)))
     (seq_p (supply_register_by_name ''ps'' (be32 (srr1 state)))
     (seq_p (supply_register_by_name ''cr'' (be32 (cr state)))
     (seq_p (supply_register_by_name ''lr'' (be32 (lr state)))
     (seq_p (supply_register_by_name ''ctr'' (be32 (ctr state)))
     (seq_p (supply_register_by_name ''xer'' (be32 (xer state)))
     (bind_p (kcall (k_get_float K thread_port)) (\<lambda>fstate.
     case fstate of None \<Rightarrow> return_p () | Some fstate \<Rightarrow>
     seq_p (for_p (\<lambda>i. supply_register_by_name (reg_name_d ''f'' i) (be64 (fpregs fstate i))) [0..<32])
       (supply_register_by_name ''fpscr'' (be32 (fpscr fstate))))))))))))"

primrec collect_regs ::
  "('k, 'z) fetcher option \<Rightarrow> (nat \<Rightarrow> string) \<Rightarrow> (byte list \<Rightarrow> 'w) \<Rightarrow> nat list \<Rightarrow> (nat \<Rightarrow> 'w) \<Rightarrow>
     (('k, 'z) inf_state_scheme, nat \<Rightarrow> 'w) prog" where
  \<comment> \<open>the loops that fill \<^verbatim>\<open>gprs[i]\<close> and \<^verbatim>\<open>fstate.fpregs[i]\<close>\<close>
  "collect_regs fetch name conv [] g = return_p g"
| "collect_regs fetch name conv (i # is) g =
     bind_p (collect_register_by_name fetch (name i))
       (\<lambda>b. collect_regs fetch name conv is (g(i := conv b)))"

definition darwin_ppc_store_registers ::
  "'k kernel \<Rightarrow> ('k, 'z) fetcher \<Rightarrow> nat \<Rightarrow> (('k, 'z) inf_state_scheme, unit) prog" where
  "darwin_ppc_store_registers K fetch thread_port =
     bind_p (kcall (k_get_state K thread_port)) (\<lambda>state.
     case state of None \<Rightarrow> return_p () | Some state \<Rightarrow>
     bind_p (collect_regs (Some fetch) (reg_name_d ''r'') of_be32 [0..<32] (gprs state)) (\<lambda>g.
     bind_p (collect_register_by_name (Some fetch) ''pc'') (\<lambda>pc.
     bind_p (collect_register_by_name (Some fetch) ''ps'') (\<lambda>ps.
     bind_p (collect_register_by_name (Some fetch) ''cr'') (\<lambda>c.
     bind_p (collect_register_by_name (Some fetch) ''lr'') (\<lambda>l.
     bind_p (collect_register_by_name (Some fetch) ''ctr'') (\<lambda>ct.
     bind_p (collect_register_by_name (Some fetch) ''xer'') (\<lambda>x.
     bind_p (kcall (k_set_state K thread_port (state\<lparr>gprs := g, srr0 := of_be32 pc,
         srr1 := of_be32 ps, cr := of_be32 c, lr := of_be32 l, ctr := of_be32 ct,
         xer := of_be32 x\<rparr>))) (\<lambda>_.
     bind_p (kcall (k_get_float K thread_port)) (\<lambda>fstate.
     case fstate of None \<Rightarrow> return_p () | Some fstate \<Rightarrow>
     bind_p (collect_regs (Some fetch) (reg_name_d ''f'') of_be64 [0..<32] (fpregs fstate)) (\<lambda>f.
     bind_p (collect_register_by_name (Some fetch) ''fpscr'') (\<lambda>fs.
     bind_p (kcall (k_set_float K thread_port (fstate\<lparr>fpregs := f, fpscr := of_be32 fs\<rparr>)))
       (\<lambda>_. return_p ())))))))))))))"

definition darwin_ppc_get_pc :: "('k, 'z) fetcher \<Rightarrow> (('k, 'z) inf_state_scheme, int) prog" where
  "darwin_ppc_get_pc fetch =
     bind_p (collect_register_by_name (Some fetch) ''pc'') (\<lambda>pc. return_p (uint (of_be32 pc)))"

definition darwin_ppc_set_pc :: "int \<Rightarrow> (('k, 'z) inf_state_scheme, unit) prog" where
  "darwin_ppc_set_pc pc = supply_register_by_name ''pc'' (be32 (word_of_int pc))"

definition ppc_breakpoint :: "32 word" where
  "ppc_breakpoint = 0x7FE00008"

definition PPC_BREAKPOINT_LEN :: nat where
  "PPC_BREAKPOINT_LEN = 4"

definition darwin_ppc_breakpoint_at :: "'s target_ops \<Rightarrow> int \<Rightarrow> ('s, bool) prog" where
  "darwin_ppc_breakpoint_at T whence =
     bind_p (read_memory T whence 4) (\<lambda>insn. return_p (of_be32 insn = ppc_breakpoint))"

subsection \<open>Processes (src/darwin-low.c)\<close>

definition get_thread_process ::
  "nat option \<Rightarrow> (('k, 'z) darwin_state_scheme, nat \<times> darwin_process_info) prog" where
  "get_thread_process thr =
     bind_p (inferior_target_data thr) (\<lambda>d.
     deref_p (\<lambda>s. case d of None \<Rightarrow> None
       | Some p \<Rightarrow> (case procs s p of None \<Rightarrow> None | Some pi \<Rightarrow> Some (p, pi))))"

definition current_process :: "(('k, 'z) darwin_state_scheme, nat \<times> darwin_process_info) prog" where
  "current_process = bind_p (gets_p current_inferior) get_thread_process"

definition upd_proc ::
  "nat \<Rightarrow> (darwin_process_info \<Rightarrow> darwin_process_info) \<Rightarrow> (('k, 'z) darwin_state_scheme, unit) prog"
where
  "upd_proc p f = bind_p (deref_p (\<lambda>s. procs s p))
     (\<lambda>pi. modify_p (\<lambda>s. s\<lparr>procs := (procs s)(p \<mapsto> f pi)\<rparr>))"

definition darwin_task_for_pid :: "'k kernel \<Rightarrow> int \<Rightarrow> (('k, 'z) darwin_state_scheme, nat) prog" where
  "darwin_task_for_pid K pid = bind_p (kcall (k_task_for_pid K pid)) (\<lambda>r.
     case r of None \<Rightarrow> error_p ''task_for_pid failed'' | Some task \<Rightarrow> return_p task)"

definition darwin_get_first_thread ::
  "'k kernel \<Rightarrow> nat \<Rightarrow> (('k, 'z) darwin_state_scheme, nat) prog" where
  "darwin_get_first_thread K task = bind_p (kcall (k_task_threads K task)) (\<lambda>r.
     case r of Some (t # _) \<Rightarrow> return_p t | _ \<Rightarrow> error_p ''task_threads failed'')"

definition add_process :: "int \<Rightarrow> (('k, 'z) darwin_state_scheme, unit) prog" where
  \<comment> \<open>the end of \<^verbatim>\<open>darwin_create_inferior\<close> and of \<^verbatim>\<open>darwin_attach\<close>: the process record, its list,
    and its thread\<close>
  "add_process pid = (\<lambda>s.
     let proc = heap_brk s;
         h = (entries s)(proc \<mapsto> \<lparr>ent_id = pid, next_ptr = None\<rparr>);
         s1 = s\<lparr>heap_brk := Suc proc, entries := h,
           procs := (procs s)(proc \<mapsto> \<lparr>p_pid = pid, p_task = current_task s,
             p_thread = current_thread s, p_stopped = True, p_status = 0\<rparr>)\<rparr>
     in case add_inferior_to_list h (all_processes s1) proc of
          Ret (h', l) \<Rightarrow> add_thread pid (Some proc) (s1\<lparr>entries := h', all_processes := l\<rparr>)
        | r \<Rightarrow> (bind_o r (\<lambda>_. Ret ()), s1))"

definition darwin_create_inferior ::
  "'k kernel \<Rightarrow> string \<Rightarrow> string list \<Rightarrow> (('k, 'z) darwin_state_scheme, int) prog" where
  "darwin_create_inferior K program allargs =
     bind_p (kcall (k_spawn K program allargs)) (\<lambda>pid.
     if pid < 0 then error_p ''fork''
     else
       bind_p (darwin_task_for_pid K pid) (\<lambda>task.
       seq_p (modify_p (\<lambda>s. s\<lparr>current_task := task\<rparr>))
       (if task = MACH_PORT_NULL
        then seq_p (kcall (k_kill K pid 9))
          (seq_p (kcall (k_waitpid K pid))
            (error_p ''Cannot get task port for child''))
        else
          bind_p (darwin_get_first_thread K task) (\<lambda>thread.
          seq_p (modify_p (\<lambda>s. s\<lparr>current_thread := thread\<rparr>))
          (seq_p (add_process pid) (return_p pid))))))"

definition darwin_attach :: "'k kernel \<Rightarrow> int \<Rightarrow> (('k, 'z) darwin_state_scheme, int) prog" where
  "darwin_attach K pid =
     bind_p (kcall (k_ptrace K PT_ATTACH pid 0 0)) (\<lambda>(ret, _).
     if ret \<noteq> 0 then return_p (- 1)
     else
       bind_p (darwin_task_for_pid K pid) (\<lambda>task.
       seq_p (modify_p (\<lambda>s. s\<lparr>current_task := task\<rparr>))
       (if task = MACH_PORT_NULL
        then seq_p (kcall (k_ptrace K PT_DETACH pid 0 0)) (return_p (- 1))
        else
          bind_p (darwin_get_first_thread K task) (\<lambda>thread.
          seq_p (modify_p (\<lambda>s. s\<lparr>current_thread := thread\<rparr>))
          (seq_p (add_process pid) (return_p 0))))))"

definition darwin_kill :: "'k kernel \<Rightarrow> (('k, 'z) darwin_state_scheme, unit) prog" where
  "darwin_kill K =
     bind_p (gets_p current_inferior) (\<lambda>cur.
     if cur = None then return_p ()
     else
       bind_p (get_thread_process cur) (\<lambda>(_, proc).
       seq_p (kcall (k_ptrace K PT_KILL (p_pid proc) 0 0))
       (seq_p (kcall (k_waitpid K (p_pid proc)))
       (seq_p (modify_p (\<lambda>s. s\<lparr>current_task := MACH_PORT_NULL, current_thread := MACH_PORT_NULL\<rparr>))
         clear_inferiors))))"

definition darwin_detach :: "'k kernel \<Rightarrow> (('k, 'z) darwin_state_scheme, unit) prog" where
  "darwin_detach K =
     bind_p (gets_p current_inferior) (\<lambda>cur.
     if cur = None then return_p ()
     else
       bind_p (get_thread_process cur) (\<lambda>(_, proc).
       seq_p (kcall (k_ptrace K PT_DETACH (p_pid proc) 1 0))
       (seq_p (modify_p (\<lambda>s. s\<lparr>current_task := MACH_PORT_NULL, current_thread := MACH_PORT_NULL\<rparr>))
         clear_inferiors)))"

definition darwin_thread_alive :: "'k kernel \<Rightarrow> int \<Rightarrow> (('k, 'z) darwin_state_scheme, bool) prog" where
  "darwin_thread_alive K pid = kcall (k_kill K pid 0)"

definition darwin_send_signal :: "'k kernel \<Rightarrow> int \<Rightarrow> (('k, 'z) darwin_state_scheme, unit) prog" where
  "darwin_send_signal K signum =
     bind_p current_process (\<lambda>(_, proc).
     seq_p (kcall (k_kill K (p_pid proc) signum)) (return_p ()))"

subsection \<open>Registers, resuming and waiting\<close>

definition darwin_fetch_registers :: "'k kernel \<Rightarrow> int \<Rightarrow> (('k, 'z) darwin_state_scheme, unit) prog"
where
  "darwin_fetch_registers K regno =
     bind_p current_process (\<lambda>(_, proc). darwin_ppc_fetch_registers K (p_thread proc))"

definition darwin_store_registers :: "'k kernel \<Rightarrow> int \<Rightarrow> (('k, 'z) darwin_state_scheme, unit) prog"
where
  "darwin_store_registers K regno =
     bind_p current_process
       (\<lambda>(_, proc). darwin_ppc_store_registers K (darwin_fetch_registers K) (p_thread proc))"

fun select_resume :: "int \<Rightarrow> thread_resume list \<Rightarrow> (bool \<times> int) outcome" where
  \<comment> \<open>the scan of \<^verbatim>\<open>resume_info\<close> for the process or the default entry\<close>
  "select_resume pid [] = Fault"
| "select_resume pid (r # rs) =
     (if tr_thread r \<noteq> - 1
      then (if tr_thread r = pid then Ret (tr_step r, tr_sig r) else select_resume pid rs)
      else Ret (tr_step r, tr_sig r))"

definition darwin_resume ::
  "'k kernel \<Rightarrow> thread_resume list \<Rightarrow> (('k, 'z) darwin_state_scheme, unit) prog" where
  "darwin_resume K resume_info =
     bind_p current_process (\<lambda>(p, proc).
     bind_p (outcome_p (select_resume (p_pid proc) resume_info)) (\<lambda>(step, sig).
     seq_p (regcache_invalidate (darwin_store_registers K))
     (seq_p (kcall (k_ptrace K (if step then PT_STEP else PT_CONTINUE) (p_pid proc) 1 (word_of_int sig)))
       (upd_proc p (\<lambda>pi. pi\<lparr>p_stopped := False\<rparr>)))))"

partial_function (option) wait_loop :: "'k kernel \<Rightarrow> int \<Rightarrow> 'k \<Rightarrow> (wait_result \<times> 'k) option" where
  \<comment> \<open>the \<^verbatim>\<open>again:\<close> loop over \<^verbatim>\<open>EINTR\<close>\<close>
  "wait_loop K pid k =
     (case k_waitpid K pid k of
        (WaitFailed e, k') \<Rightarrow> if e = EINTR then wait_loop K pid k' else Some (WaitFailed e, k')
      | (WaitDone w, k') \<Rightarrow> Some (WaitDone w, k'))"

definition darwin_wait :: "'k kernel \<Rightarrow> (('k, 'z) darwin_state_scheme, char \<times> byte) prog" where
  "darwin_wait K =
     bind_p current_process (\<lambda>(p, proc).
     bind_p (kcall_loop (wait_loop K (p_pid proc))) (\<lambda>r.
     case r of
       WaitFailed _ \<Rightarrow> error_p ''waitpid''
     | WaitDone (WExited code) \<Rightarrow> return_p (CHR ''W'', code)
     | WaitDone (WSignaled sig) \<Rightarrow> return_p (CHR ''X'', sig)
     | WaitDone w \<Rightarrow>
         bind_p (gets_p current_task) (\<lambda>task.
         bind_p (darwin_get_first_thread K task) (\<lambda>thread.
         seq_p (modify_p (\<lambda>s. s\<lparr>current_thread := thread\<rparr>))
         (seq_p (upd_proc p (\<lambda>pi. pi\<lparr>p_thread := thread, p_stopped := True\<rparr>))
         (return_p (case w of WStopped sig \<Rightarrow> (CHR ''T'', sig) | _ \<Rightarrow> (CHR ''?'', 0))))))))"

subsection \<open>Memory\<close>

fun ptrace_read :: "'k kernel \<Rightarrow> int \<Rightarrow> int \<Rightarrow> nat \<Rightarrow> (('k, 'z) darwin_state_scheme, byte list) prog" where
  \<comment> \<open>the fallback of \<^verbatim>\<open>darwin_read_memory\<close>: word by word, zeros where a word cannot be read\<close>
  "ptrace_read K pid addr len =
     (if len = 0 then return_p []
      else
        bind_p (kcall (k_ptrace K PT_READ_D pid (vm_address addr) 0)) (\<lambda>(word, errno).
        bind_p (ptrace_read K pid (addr + 4) (len - min len 4)) (\<lambda>rest.
        return_p ((if errno \<noteq> 0 then replicate (min len 4) 0 else take (min len 4) (be32 word)) @ rest))))"

declare ptrace_read.simps [simp del]

definition darwin_read_memory ::
  "'k kernel \<Rightarrow> int \<Rightarrow> nat \<Rightarrow> (('k, 'z) darwin_state_scheme, byte list) prog" where
  "darwin_read_memory K memaddr len =
     bind_p (gets_p current_task) (\<lambda>task.
     if task = MACH_PORT_NULL then return_p (replicate len 0)
     else
       bind_p (kcall (k_vm_read K task (vm_address memaddr) len)) (\<lambda>r.
       case r of
         None \<Rightarrow> bind_p current_process (\<lambda>(_, proc). ptrace_read K (p_pid proc) memaddr len)
       | Some data \<Rightarrow> if length data < len then fault_p else return_p (take len data)))"

fun ptrace_write :: "'k kernel \<Rightarrow> int \<Rightarrow> int \<Rightarrow> byte list \<Rightarrow> (('k, 'z) darwin_state_scheme, int) prog"
where
  \<comment> \<open>the last resort of \<^verbatim>\<open>darwin_write_memory\<close>\<close>
  "ptrace_write K pid addr bs =
     (if bs = [] then return_p 0
      else
        bind_p
          (if length bs < 4 then kcall (k_ptrace K PT_READ_D pid (vm_address addr) 0)
           else return_p (0, 0)) (\<lambda>(word, errno).
        if errno \<noteq> 0 then return_p errno
        else
          bind_p (kcall (k_ptrace K PT_WRITE_D pid (vm_address addr)
              (of_be32 (take 4 bs @ drop (length (take 4 bs)) (be32 word))))) (\<lambda>(_, errno').
          if errno' \<noteq> 0 then return_p errno' else ptrace_write K pid (addr + 4) (drop 4 bs))))"

declare ptrace_write.simps [simp del]

definition darwin_write_memory ::
  "'k kernel \<Rightarrow> int \<Rightarrow> byte list \<Rightarrow> (('k, 'z) darwin_state_scheme, int) prog" where
  "darwin_write_memory K memaddr bs =
     bind_p (gets_p current_task) (\<lambda>task.
     if task = MACH_PORT_NULL then return_p EIO
     else
       bind_p (kcall (k_vm_write K task (vm_address memaddr) bs)) (\<lambda>ok.
       bind_p
         (if ok then return_p True
          else
            bind_p (kcall (k_vm_protect K task (vm_address memaddr) (length bs))) (\<lambda>prot.
            if prot then kcall (k_vm_write K task (vm_address memaddr) bs) else return_p False))
         (\<lambda>ok.
         if ok then return_p 0
         else bind_p current_process (\<lambda>(_, proc). ptrace_write K (p_pid proc) memaddr bs))))"

subsection \<open>The table of operations\<close>

definition darwin_ops :: "'k kernel \<Rightarrow> ('k, 'z) darwin_state_scheme target_ops" where
  "darwin_ops K = \<lparr>
     create_inferior = darwin_create_inferior K,
     t_attach = darwin_attach K,
     t_kill = darwin_kill K,
     t_detach = darwin_detach K,
     thread_alive = darwin_thread_alive K,
     t_resume = darwin_resume K,
     t_wait = darwin_wait K,
     fetch_registers = darwin_fetch_registers K,
     store_registers = darwin_store_registers K,
     read_memory = darwin_read_memory K,
     write_memory = darwin_write_memory K,
     look_up_symbols = None,
     send_signal = darwin_send_signal K,
     read_auxv = None\<rparr>"

end
