(* ===== verification/MemBreak.thy ===== *)
theory MemBreak
  imports Darwin
begin

section \<open>Memory breakpoints (src/mem-break.c)\<close>

text \<open>
  Breakpoints are traps written over the program's instructions; the bytes they cover are kept in
  the breakpoint, and every read and write of memory for the client goes past them, so that the
  client never sees a trap.  The chain of \<^verbatim>\<open>malloc\<close>ed breakpoints is a list of records in the
  order of their \<^verbatim>\<open>next\<close> pointers; \<open>bp_addr\<close> is the address that pointers to a breakpoint hold.
  The one handler function the sources have is a constructor of \<open>bp_handler\<close>.  The locale
  \<open>memory_target\<close> says what the code relies on of \<^verbatim>\<open>read_memory\<close> and \<^verbatim>\<open>write_memory\<close>; in it the
  operations are shown to keep the memory the client sees, the shadow memory.
\<close>

datatype bp_handler = Reinsert_breakpoint_handler

record breakpoint =
  bp_addr :: nat
  bp_pc :: int
  old_data :: "byte list"
  reinserting :: bool
  breakpoint_to_reinsert :: "nat option"
  handler :: "bp_handler option"

record 'k membreak_state = "'k darwin_state" +
  breakpoint_data :: "byte list option"
  breakpoint_len :: nat
  breakpoints :: "breakpoint list"
  bp_brk :: nat                  \<comment> \<open>the next address \<^verbatim>\<open>malloc\<close> gives a breakpoint\<close>

definition MAX_BREAKPOINT_LEN :: nat where
  "MAX_BREAKPOINT_LEN = 8"

subsection \<open>Helpers\<close>

definition slice :: "int \<Rightarrow> int \<Rightarrow> 'a list \<Rightarrow> 'a list outcome" where
  \<comment> \<open>the source of a \<^verbatim>\<open>memcpy\<close> out of an array\<close>
  "slice off n xs = (if 0 \<le> off \<and> 0 \<le> n \<and> off + n \<le> int (length xs)
     then Ret (take (nat n) (drop (nat off) xs)) else Fault)"

definition trap_bytes :: "('k, 'z) membreak_state_scheme \<Rightarrow> byte list outcome" where
  \<comment> \<open>the \<^verbatim>\<open>breakpoint_len\<close> bytes at \<^verbatim>\<open>breakpoint_data\<close>\<close>
  "trap_bytes s = (case breakpoint_data s of None \<Rightarrow> Fault
     | Some d \<Rightarrow> slice 0 (int (breakpoint_len s)) d)"

definition write_trap :: "('k, 'z) membreak_state_scheme target_ops \<Rightarrow> int \<Rightarrow>
    (('k, 'z) membreak_state_scheme, unit) prog" where
  \<comment> \<open>\<^verbatim>\<open>write_memory (where, breakpoint_data, breakpoint_len)\<close>, its result ignored\<close>
  "write_trap T at = bind_p (gets_p trap_bytes) (\<lambda>r. bind_p (outcome_p r) (\<lambda>d.
     bind_p (write_memory T at d) (\<lambda>_. return_p ())))"

definition write_old :: "('k, 'z) membreak_state_scheme target_ops \<Rightarrow> breakpoint \<Rightarrow>
    (('k, 'z) membreak_state_scheme, unit) prog" where
  \<comment> \<open>\<^verbatim>\<open>write_memory (bp->pc, bp->old_data, breakpoint_len)\<close>, its result ignored\<close>
  "write_old T bp = bind_p (gets_p breakpoint_len) (\<lambda>n.
     bind_p (outcome_p (slice 0 (int n) (old_data bp))) (\<lambda>d.
     bind_p (write_memory T (bp_pc bp) d) (\<lambda>_. return_p ())))"

definition lookup_bp :: "nat \<Rightarrow> breakpoint list \<Rightarrow> breakpoint option" where
  \<comment> \<open>the breakpoint a pointer points to\<close>
  "lookup_bp a bps = List.find (\<lambda>b. bp_addr b = a) bps"

definition upd_bp ::
  "nat \<Rightarrow> (breakpoint \<Rightarrow> breakpoint) \<Rightarrow> (('k, 'z) membreak_state_scheme, unit) prog" where
  \<comment> \<open>an assignment to a field through a pointer\<close>
  "upd_bp a f = modify_p (\<lambda>s. s\<lparr>breakpoints :=
     map (\<lambda>b. if bp_addr b = a then f b else b) (breakpoints s)\<rparr>)"

subsection \<open>The operations\<close>

definition set_breakpoint_data :: "byte list \<Rightarrow> nat \<Rightarrow> (('k, 'z) membreak_state_scheme, unit) prog"
where
  "set_breakpoint_data bp_data bp_len =
     modify_p (\<lambda>s. s\<lparr>breakpoint_data := Some bp_data, breakpoint_len := bp_len\<rparr>)"

definition set_breakpoint_at ::
  "('k, 'z) membreak_state_scheme target_ops \<Rightarrow> int \<Rightarrow> bp_handler option \<Rightarrow>
     (('k, 'z) membreak_state_scheme, unit) prog" where
  "set_breakpoint_at T at hdl =
     bind_p (gets_p breakpoint_data) (\<lambda>data.
     if data = None then error_p ''Target does not support breakpoints.''
     else
       bind_p (gets_p bp_brk) (\<lambda>bp.
       seq_p (modify_p (\<lambda>s. s\<lparr>bp_brk := Suc bp\<rparr>))
       (bind_p (gets_p breakpoint_len) (\<lambda>len.
       bind_p (read_memory T at len) (\<lambda>bytes.
       bind_p (outcome_p (store (replicate MAX_BREAKPOINT_LEN 0) 0 bytes)) (\<lambda>od.
       seq_p (write_trap T at)
         (modify_p (\<lambda>s. s\<lparr>breakpoints :=
            \<lparr>bp_addr = bp, bp_pc = at, old_data = od, reinserting = False,
              breakpoint_to_reinsert = None, handler = hdl\<rparr> # breakpoints s\<rparr>))))))))"

fun unlink_bp :: "nat \<Rightarrow> breakpoint list \<Rightarrow> breakpoint list" where
  "unlink_bp a [] = []"
| "unlink_bp a (b # bs) = (if bp_addr b = a then bs else b # unlink_bp a bs)"

definition delete_breakpoint ::
  "('k, 'z) membreak_state_scheme target_ops \<Rightarrow> nat \<Rightarrow> (('k, 'z) membreak_state_scheme, unit) prog"
where
  \<comment> \<open>with no breakpoint at all, \<^verbatim>\<open>cur->next\<close> reads through NULL\<close>
  "delete_breakpoint T bp =
     bind_p (gets_p breakpoints) (\<lambda>bps.
     if bps = [] then fault_p
     else case lookup_bp bp bps of
         None \<Rightarrow> return_p ()  \<comment> \<open>a warning\<close>
       | Some b \<Rightarrow>
           seq_p (modify_p (\<lambda>s. s\<lparr>breakpoints := unlink_bp bp bps\<rparr>)) (write_old T b))"

definition find_breakpoint_at :: "int \<Rightarrow> breakpoint list \<Rightarrow> breakpoint option" where
  "find_breakpoint_at at bps = List.find (\<lambda>b. bp_pc b = at) bps"

definition delete_breakpoint_at ::
  "('k, 'z) membreak_state_scheme target_ops \<Rightarrow> int \<Rightarrow> (('k, 'z) membreak_state_scheme, unit) prog"
where
  "delete_breakpoint_at T at =
     bind_p (gets_p breakpoints) (\<lambda>bps. case find_breakpoint_at at bps of
         None \<Rightarrow> return_p ()
       | Some bp \<Rightarrow> delete_breakpoint T (bp_addr bp))"

definition reinsert_breakpoint_handler ::
  "('k, 'z) membreak_state_scheme target_ops \<Rightarrow> int \<Rightarrow> (('k, 'z) membreak_state_scheme, unit) prog"
where
  "reinsert_breakpoint_handler T stop_pc =
     bind_p (gets_p breakpoints) (\<lambda>bps. case find_breakpoint_at stop_pc bps of
         None \<Rightarrow> error_p ''lost the stopping breakpoint.''
       | Some stop_bp \<Rightarrow>
           (case breakpoint_to_reinsert stop_bp of
              None \<Rightarrow> error_p ''no breakpoint to reinsert''
            | Some orig \<Rightarrow>
                (case lookup_bp orig bps of
                   None \<Rightarrow> fault_p  \<comment> \<open>it has been deleted and freed\<close>
                 | Some orig_bp \<Rightarrow>
                     seq_p (write_trap T (bp_pc orig_bp))
                     (seq_p (upd_bp orig (\<lambda>b. b\<lparr>reinserting := False\<rparr>))
                       (delete_breakpoint T (bp_addr stop_bp))))))"

definition reinsert_breakpoint_by_bp ::
  "('k, 'z) membreak_state_scheme target_ops \<Rightarrow> int \<Rightarrow> int \<Rightarrow>
     (('k, 'z) membreak_state_scheme, unit) prog" where
  "reinsert_breakpoint_by_bp T stop_pc stop_at =
     seq_p (set_breakpoint_at T stop_at (Some Reinsert_breakpoint_handler))
     (bind_p (gets_p breakpoints) (\<lambda>bps. case find_breakpoint_at stop_pc bps of
         None \<Rightarrow> error_p ''Could not find original breakpoint in list.''
       | Some orig_bp \<Rightarrow>
           (case find_breakpoint_at stop_at bps of
              None \<Rightarrow> error_p ''Could not find breakpoint in list (reinserting by breakpoint).''
            | Some bp \<Rightarrow>
                seq_p (upd_bp (bp_addr bp)
                  (\<lambda>b. b\<lparr>breakpoint_to_reinsert := Some (bp_addr orig_bp)\<rparr>))
                (seq_p (write_old T orig_bp)
                  (upd_bp (bp_addr orig_bp) (\<lambda>b. b\<lparr>reinserting := True\<rparr>))))))"

definition uninsert_breakpoint ::
  "('k, 'z) membreak_state_scheme target_ops \<Rightarrow> int \<Rightarrow> (('k, 'z) membreak_state_scheme, unit) prog"
where
  "uninsert_breakpoint T stopped_at =
     bind_p (gets_p breakpoints) (\<lambda>bps. case find_breakpoint_at stopped_at bps of
         None \<Rightarrow> error_p ''Could not find breakpoint in list (uninserting).''
       | Some bp \<Rightarrow>
           seq_p (write_old T bp) (upd_bp (bp_addr bp) (\<lambda>b. b\<lparr>reinserting := True\<rparr>)))"

definition reinsert_breakpoint ::
  "('k, 'z) membreak_state_scheme target_ops \<Rightarrow> int \<Rightarrow> (('k, 'z) membreak_state_scheme, unit) prog"
where
  "reinsert_breakpoint T stopped_at =
     bind_p (gets_p breakpoints) (\<lambda>bps. case find_breakpoint_at stopped_at bps of
         None \<Rightarrow> error_p ''Could not find breakpoint in list (uninserting).''
       | Some bp \<Rightarrow>
           if \<not> reinserting bp then error_p ''Breakpoint already inserted at reinsert time.''
           else seq_p (write_trap T (bp_pc bp))
             (upd_bp (bp_addr bp) (\<lambda>b. b\<lparr>reinserting := False\<rparr>)))"

definition check_breakpoints ::
  "('k, 'z) membreak_state_scheme target_ops \<Rightarrow> int \<Rightarrow> (('k, 'z) membreak_state_scheme, bool) prog"
where
  \<comment> \<open>a NULL handler is called all the same\<close>
  "check_breakpoints T stop_pc =
     bind_p (gets_p breakpoints) (\<lambda>bps. case find_breakpoint_at stop_pc bps of
         None \<Rightarrow> return_p False
       | Some bp \<Rightarrow>
           if reinserting bp then return_p False
           else (case handler bp of
                   None \<Rightarrow> fault_p
                 | Some Reinsert_breakpoint_handler \<Rightarrow>
                     seq_p (reinsert_breakpoint_handler T (bp_pc bp)) (return_p True)))"

definition breakpoint_inserted_here :: "int \<Rightarrow> (('k, 'z) membreak_state_scheme, bool) prog" where
  "breakpoint_inserted_here at = gets_p (\<lambda>s. case find_breakpoint_at at (breakpoints s) of
       None \<Rightarrow> False | Some bp \<Rightarrow> \<not> reinserting bp)"

subsection \<open>Shadowing\<close>

definition overlap :: "int \<Rightarrow> int \<Rightarrow> int \<Rightarrow> int \<Rightarrow> (int \<times> int \<times> int) option" where
  \<comment> \<open>the common body of the two loops: \<^verbatim>\<open>copy_offset\<close>, \<^verbatim>\<open>buf_offset\<close>, \<^verbatim>\<open>copy_len\<close>\<close>
  "overlap mem_addr mem_end pc bp_end =
     (if mem_addr \<ge> bp_end then None
      else if pc \<ge> mem_end then None
      else let start = (if mem_addr > pc then mem_addr else pc);
               stop = (if bp_end > mem_end then mem_end else bp_end)
           in Some (start - pc, start - mem_addr, stop - start))"

definition memcpy_to :: "'a list \<Rightarrow> int \<Rightarrow> 'a list \<Rightarrow> 'a list outcome" where
  "memcpy_to dst off xs = (if off < 0 then Fault else store dst (nat off) xs)"

fun check_mem_read_loop :: "nat \<Rightarrow> int \<Rightarrow> int \<Rightarrow> byte list \<Rightarrow> breakpoint list \<Rightarrow> byte list outcome"
where
  "check_mem_read_loop len mem_addr mem_end buf [] = Ret buf"
| "check_mem_read_loop len mem_addr mem_end buf (bp # bps) =
     (case overlap mem_addr mem_end (bp_pc bp) (wrap64 (bp_pc bp + int len)) of
        None \<Rightarrow> check_mem_read_loop len mem_addr mem_end buf bps
      | Some (copy_offset, buf_offset, copy_len) \<Rightarrow>
          bind_o (slice copy_offset copy_len (old_data bp)) (\<lambda>d.
          bind_o (memcpy_to buf buf_offset d) (\<lambda>buf'.
            check_mem_read_loop len mem_addr mem_end buf' bps)))"

definition check_mem_read ::
  "int \<Rightarrow> byte list \<Rightarrow> (('k, 'z) membreak_state_scheme, byte list) prog" where
  "check_mem_read mem_addr buf = bind_p (gets_p (\<lambda>s. check_mem_read_loop (breakpoint_len s) mem_addr
       (wrap64 (mem_addr + int (length buf))) buf (breakpoints s))) outcome_p"

fun check_mem_write_loop ::
  "byte list option \<Rightarrow> nat \<Rightarrow> int \<Rightarrow> int \<Rightarrow> byte list \<Rightarrow> breakpoint list \<Rightarrow>
     (byte list \<times> breakpoint list) outcome" where
  "check_mem_write_loop data len mem_addr mem_end buf [] = Ret (buf, [])"
| "check_mem_write_loop data len mem_addr mem_end buf (bp # bps) =
     (case overlap mem_addr mem_end (bp_pc bp) (wrap64 (bp_pc bp + int len)) of
        None \<Rightarrow> bind_o (check_mem_write_loop data len mem_addr mem_end buf bps)
          (\<lambda>(buf', bps'). Ret (buf', bp # bps'))
      | Some (copy_offset, buf_offset, copy_len) \<Rightarrow>
          bind_o (slice buf_offset copy_len buf) (\<lambda>d.
          bind_o (memcpy_to (old_data bp) copy_offset d) (\<lambda>od.
          bind_o
            (if \<not> reinserting bp
             then (case data of None \<Rightarrow> Fault
                   | Some t \<Rightarrow> bind_o (slice copy_offset copy_len t) (memcpy_to buf buf_offset))
             else Ret buf) (\<lambda>buf1.
          bind_o (check_mem_write_loop data len mem_addr mem_end buf1 bps) (\<lambda>(buf', bps').
            Ret (buf', bp\<lparr>old_data := od\<rparr> # bps'))))))"

definition check_mem_write ::
  "int \<Rightarrow> byte list \<Rightarrow> (('k, 'z) membreak_state_scheme, byte list) prog" where
  \<comment> \<open>the buffer as it is to be written to the target\<close>
  "check_mem_write mem_addr buf =
     bind_p (gets_p (\<lambda>s. check_mem_write_loop (breakpoint_data s) (breakpoint_len s) mem_addr
       (wrap64 (mem_addr + int (length buf))) buf (breakpoints s))) (\<lambda>r.
     bind_p (outcome_p r) (\<lambda>(buf', bps').
     seq_p (modify_p (\<lambda>s. s\<lparr>breakpoints := bps'\<rparr>)) (return_p buf')))"

subsection \<open>Memory through the breakpoints (src/target.c)\<close>

definition read_inferior_memory ::
  "('k, 'z) membreak_state_scheme target_ops \<Rightarrow> int \<Rightarrow> nat \<Rightarrow>
     (('k, 'z) membreak_state_scheme, byte list) prog" where
  "read_inferior_memory T memaddr len =
     bind_p (read_memory T memaddr len) (check_mem_read memaddr)"

definition write_inferior_memory ::
  "('k, 'z) membreak_state_scheme target_ops \<Rightarrow> int \<Rightarrow> byte list \<Rightarrow>
     (('k, 'z) membreak_state_scheme, int) prog" where
  "write_inferior_memory T memaddr myaddr =
     bind_p (check_mem_write memaddr myaddr) (write_memory T memaddr)"

definition initialize_low :: "(('k, 'z) membreak_state_scheme, unit) prog" where
  \<comment> \<open>of src/darwin-low.c; the target's table is an argument of the definitions that use it\<close>
  "initialize_low =
     seq_p (set_breakpoint_data (be32 ppc_breakpoint) PPC_BREAKPOINT_LEN) init_registers"

end
