(* ===== verification/Shadow.thy ===== *)
theory Shadow
  imports MemBreak
begin

section \<open>The shadow memory\<close>

text \<open>
  What src/mem-break.c is for: the client reads and writes the program's own bytes, whatever traps
  are planted.  \<open>shadow_of\<close> is the memory the client should see; \<open>memory_target\<close> is the contract
  of the target's memory operations, and its lemmas say, for every operation, that the breakpoints
  stay consistent with memory (\<open>bp_ok\<close>) and that the shadow memory changes only as the client asked.
\<close>

subsection \<open>Memory as a function\<close>

definition mem_bytes :: "(int \<Rightarrow> byte) \<Rightarrow> int \<Rightarrow> nat \<Rightarrow> byte list" where
  "mem_bytes v a n = map (\<lambda>i. v (a + int i)) [0..<n]"

definition write_bytes :: "(int \<Rightarrow> byte) \<Rightarrow> int \<Rightarrow> byte list \<Rightarrow> int \<Rightarrow> byte" where
  "write_bytes v a bs = (\<lambda>x. if a \<le> x \<and> x < a + int (length bs) then bs ! nat (x - a) else v x)"

definition covers :: "nat \<Rightarrow> breakpoint \<Rightarrow> int \<Rightarrow> bool" where
  "covers len b x \<longleftrightarrow> bp_pc b \<le> x \<and> x < bp_pc b + int len"

fun shadow_of :: "nat \<Rightarrow> breakpoint list \<Rightarrow> (int \<Rightarrow> byte) \<Rightarrow> int \<Rightarrow> byte" where
  \<comment> \<open>where breakpoints overlap, the last one of the chain counts\<close>
  "shadow_of len [] v = v"
| "shadow_of len (b # bs) v = shadow_of len bs
     (\<lambda>x. if covers len b x then old_data b ! nat (x - bp_pc b) else v x)"

fun planted :: "nat \<Rightarrow> byte list \<Rightarrow> breakpoint list \<Rightarrow> (int \<Rightarrow> byte) \<Rightarrow> int \<Rightarrow> byte" where
  \<comment> \<open>memory with the traps of the inserted breakpoints\<close>
  "planted len d [] v = v"
| "planted len d (b # bs) v = planted len d bs
     (\<lambda>x. if \<not> reinserting b \<and> covers len b x then d ! nat (x - bp_pc b) else v x)"

definition absorb :: "nat \<Rightarrow> int \<Rightarrow> nat \<Rightarrow> (int \<Rightarrow> byte) \<Rightarrow> breakpoint \<Rightarrow> breakpoint" where
  \<comment> \<open>a breakpoint after the client wrote \<open>n\<close> bytes of \<open>w\<close> at \<open>a\<close>\<close>
  "absorb len a n w b = b\<lparr>old_data := map (\<lambda>i. if i < len \<and> a \<le> bp_pc b + int i
     \<and> bp_pc b + int i < a + int n then w (bp_pc b + int i) else old_data b ! i) [0..<8]\<rparr>"

definition apart :: "nat \<Rightarrow> breakpoint \<Rightarrow> breakpoint \<Rightarrow> bool" where
  "apart len b c \<longleftrightarrow> bp_pc b + int len \<le> bp_pc c \<or> bp_pc c + int len \<le> bp_pc b"

definition bp_fits :: "nat \<Rightarrow> breakpoint \<Rightarrow> bool" where
  "bp_fits len b \<longleftrightarrow> length (old_data b) = 8 \<and> 0 \<le> bp_pc b \<and> bp_pc b + int len \<le> 4294967296"

lemma length_mem_bytes [simp]: "length (mem_bytes v a n) = n"
  by (simp add: mem_bytes_def)

lemma nth_mem_bytes [simp]: "i < n \<Longrightarrow> mem_bytes v a n ! i = v (a + int i)"
  by (simp add: mem_bytes_def)

lemma mem_bytes_cong:
  "(\<And>i. i < n \<Longrightarrow> v (a + int i) = w (a + int i)) \<Longrightarrow> mem_bytes v a n = mem_bytes w a n"
  by (simp add: mem_bytes_def)

lemma mem_bytes_write_bytes [simp]: "mem_bytes (write_bytes v a bs) a (length bs) = bs"
  by (rule nth_equalityI) (auto simp: write_bytes_def)

lemma write_bytes_mem_bytes: "write_bytes w a (mem_bytes v a n) =
    (\<lambda>x. if a \<le> x \<and> x < a + int n then v x else w x)"
  by (auto simp: write_bytes_def fun_eq_iff)

lemma overwrite_mem_bytes:
  assumes "off + length xs \<le> n"
  shows "overwrite (mem_bytes v a n) off xs = mem_bytes (write_bytes v (a + int off) xs) a n"
proof (rule nth_equalityI)
  fix i assume "i < length (overwrite (mem_bytes v a n) off xs)"
  with assms show "overwrite (mem_bytes v a n) off xs ! i = mem_bytes (write_bytes v (a + int off) xs) a n ! i"
    by (auto simp: nth_overwrite write_bytes_def nat_diff_distrib' nat_add_distrib)
qed (use assms in simp)

subsection \<open>The two loops\<close>

lemma wrap64_space: "0 \<le> a \<Longrightarrow> a \<le> 4611686018427387904 \<Longrightarrow> wrap64 a = a"
  by (rule wrap64_id) auto

lemma overlap_None:
  "a \<ge> bp_pc b + int len \<or> bp_pc b \<ge> a + int n \<Longrightarrow>
     overlap a (a + int n) (bp_pc b) (bp_pc b + int len) = None"
  by (auto simp: overlap_def)

lemma overlap_Some:
  assumes "\<not> (a \<ge> bp_pc b + int len \<or> bp_pc b \<ge> a + int n)"
    and "start = max a (bp_pc b)" and "stop = min (bp_pc b + int len) (a + int n)"
  shows "overlap a (a + int n) (bp_pc b) (bp_pc b + int len) =
      Some (start - bp_pc b, start - a, stop - start)"
    and "start \<le> stop" "bp_pc b \<le> start" "a \<le> start" "stop \<le> bp_pc b + int len" "stop \<le> a + int n"
  using assms by (auto simp: overlap_def Let_def)

lemma plant_bytes:
  assumes "\<not> (a \<ge> bp_pc b + int len \<or> bp_pc b \<ge> a + int n)"
    and "start = max a (bp_pc b)" and "stop = min (bp_pc b + int len) (a + int n)" and "len \<le> length d"
  shows "mem_bytes (write_bytes v start (take (nat (stop - start)) (drop (nat (start - bp_pc b)) d))) a n
    = mem_bytes (\<lambda>x. if covers len b x then d ! nat (x - bp_pc b) else v x) a n"
proof (rule mem_bytes_cong)
  note st = overlap_Some(2-) [OF assms(1-3)]
  let ?t = "take (nat (stop - start)) (drop (nat (start - bp_pc b)) d)"
  have lt: "length ?t = nat (stop - start)" using st assms(4) by auto
  fix i assume i: "i < n"
  show "write_bytes v start ?t (a + int i) =
      (if covers len b (a + int i) then d ! nat (a + int i - bp_pc b) else v (a + int i))"
  proof (cases "covers len b (a + int i)")
    case True
    with i assms(2,3) have "start \<le> a + int i" "a + int i < stop" by (auto simp: covers_def)
    moreover from this st have "nat (start - bp_pc b) + nat (a + int i - start) = nat (a + int i - bp_pc b)"
      by (simp add: nat_add_distrib [symmetric])
    ultimately show ?thesis using True st lt assms(4) by (simp add: write_bytes_def)
  next
    case False
    then have "\<not> (start \<le> a + int i \<and> a + int i < stop)" using st by (auto simp: covers_def)
    with False lt st show ?thesis by (auto simp: write_bytes_def)
  qed
qed

lemma check_mem_read_loop_eq:
  assumes "len \<le> 8" and "\<forall>b \<in> set bps. bp_fits len b" and "0 \<le> a" and "a + int n \<le> 4294967296"
  shows "check_mem_read_loop len a (a + int n) (mem_bytes v a n) bps =
    Ret (mem_bytes (shadow_of len bps v) a n)"
  using assms
proof (induction bps arbitrary: v)
  case (Cons b bps)
  let ?v = "\<lambda>x. if covers len b x then old_data b ! nat (x - bp_pc b) else v x"
  have b: "length (old_data b) = 8" "0 \<le> bp_pc b" "bp_pc b + int len \<le> 4294967296"
    using Cons.prems by (auto simp: bp_fits_def)
  then have w: "wrap64 (bp_pc b + int len) = bp_pc b + int len" by (simp add: wrap64_space)
  have IH: "\<And>v. check_mem_read_loop len a (a + int n) (mem_bytes v a n) bps =
      Ret (mem_bytes (shadow_of len bps v) a n)"
    using Cons by auto
  show ?case
  proof (cases "a \<ge> bp_pc b + int len \<or> bp_pc b \<ge> a + int n")
    case True
    then have "mem_bytes ?v a n = mem_bytes v a n" by (intro mem_bytes_cong) (auto simp: covers_def)
    with True IH [of v] IH [of ?v] show ?thesis
      by (simp add: w overlap_None)
  next
    case False
    define start where "start = max a (bp_pc b)"
    define stop where "stop = min (bp_pc b + int len) (a + int n)"
    note st = overlap_Some(2-) [OF False start_def stop_def]
    note ov = overlap_Some(1) [OF False start_def stop_def]
    let ?d = "take (nat (stop - start)) (drop (nat (start - bp_pc b)) (old_data b))"
    have sl: "slice (start - bp_pc b) (stop - start) (old_data b) = Ret ?d"
      using st b(1) Cons.prems(1) by (simp add: slice_def)
    have ld: "length ?d = nat (stop - start)"
      using st b(1) Cons.prems(1) by auto
    have mc: "memcpy_to (mem_bytes v a n) (start - a) ?d = Ret (mem_bytes (write_bytes v start ?d) a n)"
      using st by (simp add: memcpy_to_def store_def ld overwrite_mem_bytes nat_add_distrib [symmetric])
    have "mem_bytes (write_bytes v start ?d) a n = mem_bytes ?v a n"
      using plant_bytes [OF False start_def stop_def, of "old_data b" v] b(1) Cons.prems(1) by simp
    with IH [of ?v] show ?thesis by (simp add: w ov sl mc)
  qed
qed simp

lemma check_mem_write_loop_eq:
  assumes "len \<le> 8" and "\<forall>b \<in> set bps. bp_fits len b" and "0 \<le> a" and "a + int n \<le> 4294967296"
    and "length d = len" and "sorted_wrt (apart len) bps"
  shows "check_mem_write_loop (Some d) len a (a + int n) (mem_bytes w a n) bps =
    Ret (mem_bytes (planted len d bps w) a n, map (absorb len a n w) bps)"
  using assms
proof (induction bps arbitrary: w)
  case (Cons b bps)
  let ?w = "\<lambda>x. if \<not> reinserting b \<and> covers len b x then d ! nat (x - bp_pc b) else w x"
  have b: "length (old_data b) = 8" "0 \<le> bp_pc b" "bp_pc b + int len \<le> 4294967296"
    using Cons.prems by (auto simp: bp_fits_def)
  then have wr: "wrap64 (bp_pc b + int len) = bp_pc b + int len" by (simp add: wrap64_space)
  have "map (absorb len a n ?w) bps = map (absorb len a n w) bps"
  proof (rule map_cong [OF refl])
    fix c assume "c \<in> set bps"
    with Cons.prems have "apart len b c" by simp
    then have "\<And>i. i < len \<Longrightarrow> ?w (bp_pc c + int i) = w (bp_pc c + int i)"
      by (auto simp: apart_def covers_def)
    then show "absorb len a n ?w c = absorb len a n w c" by (simp add: absorb_def)
  qed
  moreover have "\<And>w. check_mem_write_loop (Some d) len a (a + int n) (mem_bytes w a n) bps =
      Ret (mem_bytes (planted len d bps w) a n, map (absorb len a n w) bps)"
    using Cons by auto
  ultimately have IH: "\<And>w. check_mem_write_loop (Some d) len a (a + int n) (mem_bytes w a n) bps =
      Ret (mem_bytes (planted len d bps w) a n, map (absorb len a n w) bps)"
    and IH2: "check_mem_write_loop (Some d) len a (a + int n) (mem_bytes ?w a n) bps =
      Ret (mem_bytes (planted len d bps ?w) a n, map (absorb len a n w) bps)"
    by auto
  show ?case
  proof (cases "a \<ge> bp_pc b + int len \<or> bp_pc b \<ge> a + int n")
    case True
    then have m: "mem_bytes ?w a n = mem_bytes w a n" by (intro mem_bytes_cong) (auto simp: covers_def)
    have "absorb len a n w b = b"
    proof -
      have "map (\<lambda>i. if i < len \<and> a \<le> bp_pc b + int i \<and> bp_pc b + int i < a + int n
          then w (bp_pc b + int i) else old_data b ! i) [0..<8] = map ((!) (old_data b)) [0..<8]"
        using True by (intro map_cong refl) auto
      also have "\<dots> = old_data b" using b(1) map_nth [of "old_data b"] by simp
      finally show ?thesis by (simp add: absorb_def)
    qed
    with True IH2 m show ?thesis
      by (simp add: wr overlap_None)
  next
    case False
    define start where "start = max a (bp_pc b)"
    define stop where "stop = min (bp_pc b + int len) (a + int n)"
    note st = overlap_Some(2-) [OF False start_def stop_def]
    note ov = overlap_Some(1) [OF False start_def stop_def]
    let ?c = "take (nat (stop - start)) (drop (nat (start - a)) (mem_bytes w a n))"
    let ?t = "take (nat (stop - start)) (drop (nat (start - bp_pc b)) d)"
    have sl: "slice (start - a) (stop - start) (mem_bytes w a n) = Ret ?c"
      using st by (simp add: slice_def)
    have lc: "length ?c = nat (stop - start)" using st by auto
    have lt: "length ?t = nat (stop - start)" using st Cons.prems(5) by auto
    have slt: "slice (start - bp_pc b) (stop - start) d = Ret ?t"
      using st Cons.prems(5) by (simp add: slice_def)
    have oo: "nat (start - bp_pc b) + nat (stop - start) \<le> 8"
      using st Cons.prems(1) by (simp add: nat_add_distrib [symmetric])
    have mo: "memcpy_to (old_data b) (start - bp_pc b) ?c =
        Ret (overwrite (old_data b) (nat (start - bp_pc b)) ?c)"
      using st oo b(1) by (simp add: memcpy_to_def store_def lc del: take_drop_overwrite)
    have od: "overwrite (old_data b) (nat (start - bp_pc b)) ?c = old_data (absorb len a n w b)"
    proof (rule nth_equalityI)
      show "length (overwrite (old_data b) (nat (start - bp_pc b)) ?c) = length (old_data (absorb len a n w b))"
        using oo b(1) lc by (simp add: absorb_def)
      fix i assume "i < length (overwrite (old_data b) (nat (start - bp_pc b)) ?c)"
      then have i: "i < 8" using oo b(1) lc by simp
      have "overwrite (old_data b) (nat (start - bp_pc b)) ?c ! i =
          (if nat (start - bp_pc b) \<le> i \<and> i < nat (start - bp_pc b) + nat (stop - start)
           then w (bp_pc b + int i) else old_data b ! i)"
      proof (cases "nat (start - bp_pc b) \<le> i \<and> i < nat (start - bp_pc b) + nat (stop - start)")
        case True
        then have j: "i - nat (start - bp_pc b) < nat (stop - start)"
          "nat (start - a) + (i - nat (start - bp_pc b)) < n"
          "a + int (nat (start - a) + (i - nat (start - bp_pc b))) = bp_pc b + int i"
          using st by auto
        have "?c ! (i - nat (start - bp_pc b)) =
            mem_bytes w a n ! (nat (start - a) + (i - nat (start - bp_pc b)))"
          by (subst nth_take [OF j(1)], rule nth_drop) (use j(2) in simp)
        then have "?c ! (i - nat (start - bp_pc b)) = w (bp_pc b + int i)"
          by (simp only: nth_mem_bytes [OF j(2)] j(3))
        with True i oo b(1) lc show ?thesis by (simp add: nth_overwrite)
      next
        case False
        have "nat (start - bp_pc b) + length ?c \<le> length (old_data b)" "i < length (old_data b)"
          using oo lc b(1) i by simp_all
        from nth_overwrite [OF this] have "overwrite (old_data b) (nat (start - bp_pc b)) ?c ! i =
            (if nat (start - bp_pc b) \<le> i \<and> i < nat (start - bp_pc b) + nat (stop - start)
             then ?c ! (i - nat (start - bp_pc b)) else old_data b ! i)"
          unfolding lc .
        with False show ?thesis by (simp only: if_False)
      qed
      also have "\<dots> = old_data (absorb len a n w b) ! i"
        using i st by (auto simp: absorb_def start_def stop_def)
      finally show "overwrite (old_data b) (nat (start - bp_pc b)) ?c ! i = old_data (absorb len a n w b) ! i" .
    qed
    have mt: "memcpy_to (mem_bytes w a n) (start - a) ?t = Ret (mem_bytes (write_bytes w start ?t) a n)"
      using st by (simp add: memcpy_to_def store_def lt overwrite_mem_bytes nat_add_distrib [symmetric])
    have "mem_bytes (write_bytes w start ?t) a n = mem_bytes ?w a n" if "\<not> reinserting b"
      using plant_bytes [OF False start_def stop_def, of d w] that Cons.prems(5) by simp
    moreover have "b\<lparr>old_data := old_data (absorb len a n w b)\<rparr> = absorb len a n w b"
      by (simp add: absorb_def)
    ultimately show ?thesis
      using IH [of w] IH2 by (cases "reinserting b") (simp_all add: wr ov sl mo od slt mt)
  qed
qed simp

subsection \<open>Shadows of disjoint breakpoints\<close>

lemma shadow_of_uncovered: "(\<And>b. b \<in> set bps \<Longrightarrow> \<not> covers len b x) \<Longrightarrow> shadow_of len bps v x = v x"
  by (induction bps arbitrary: v) auto

lemma shadow_of_covered:
  assumes "sorted_wrt (apart len) bps" and "b \<in> set bps" and "covers len b x"
  shows "shadow_of len bps v x = old_data b ! nat (x - bp_pc b)"
  using assms
proof (induction bps arbitrary: v)
  case (Cons c bps)
  show ?case
  proof (cases "b \<in> set bps")
    case False
    with Cons.prems have "b = c" "\<And>e. e \<in> set bps \<Longrightarrow> \<not> covers len e x"
      by (auto simp: apart_def covers_def)
    with Cons.prems shadow_of_uncovered [of bps len x] show ?thesis by simp
  qed (use Cons in auto)
qed simp

lemma planted_unchanged:
  "(\<And>b. b \<in> set bps \<Longrightarrow> reinserting b \<or> \<not> covers len b x) \<Longrightarrow> planted len d bps v x = v x"
  by (induction bps arbitrary: v) auto

lemma planted_covered:
  assumes "sorted_wrt (apart len) bps" and "b \<in> set bps" and "covers len b x" and "\<not> reinserting b"
  shows "planted len d bps v x = d ! nat (x - bp_pc b)"
  using assms
proof (induction bps arbitrary: v)
  case (Cons c bps)
  show ?case
  proof (cases "b \<in> set bps")
    case False
    with Cons.prems have "b = c" "\<And>e. e \<in> set bps \<Longrightarrow> \<not> covers len e x"
      by (auto simp: apart_def covers_def)
    with Cons.prems planted_unchanged [of bps len x] show ?thesis by simp
  qed (use Cons in auto)
qed simp

lemma apart_sym: "apart len b c = apart len c b"
  by (auto simp: apart_def)

lemma apart_covers: "apart len b c \<Longrightarrow> covers len b x \<Longrightarrow> \<not> covers len c x"
  by (auto simp: apart_def covers_def)

lemma sorted_apart:
  assumes "sorted_wrt (apart len) bps" and "b \<in> set bps" and "c \<in> set bps"
  shows "b = c \<or> apart len b c"
  using assms by (induction bps) (auto simp: apart_sym)

lemma same_pc_same_bp:
  assumes "sorted_wrt (apart len) bps" and "b \<in> set bps" and "c \<in> set bps" and "bp_pc b = bp_pc c"
    and "0 < len"
  shows "b = c"
  using sorted_apart [OF assms(1-3)] assms(4,5) by (auto simp: apart_def)

lemma find_breakpoint_at_Some:
  "find_breakpoint_at at bps = Some b \<Longrightarrow> b \<in> set bps \<and> bp_pc b = at"
  by (auto simp: find_breakpoint_at_def find_Some_iff)

lemma find_breakpoint_at_None:
  "find_breakpoint_at at bps = None \<longleftrightarrow> at \<notin> bp_pc ` set bps"
  by (auto simp: find_breakpoint_at_def find_None_iff)

lemma lookup_bp_distinct:
  assumes "distinct (map bp_addr bps)" and "b \<in> set bps"
  shows "lookup_bp (bp_addr b) bps = Some b"
  using assms by (induction bps) (auto simp: lookup_bp_def image_iff)

lemma unlink_bp_distinct:
  assumes "distinct (map bp_addr bps)"
  shows "unlink_bp a bps = filter (\<lambda>b. bp_addr b \<noteq> a) bps"
  using assms
proof (induction bps)
  case (Cons c bps)
  show ?case
  proof (cases "bp_addr c = a")
    case True
    with Cons.prems have "\<forall>b \<in> set bps. bp_addr b \<noteq> a" by (auto simp: image_iff)
    with True show ?thesis by simp
  qed (use Cons in simp)
qed simp

lemma sorted_wrt_map_apart:
  assumes "sorted_wrt (apart len) bps" and "\<And>b. bp_pc (f b) = bp_pc b"
  shows "sorted_wrt (apart len) (map f bps)"
  using assms by (simp add: sorted_wrt_map apart_def [abs_def])

subsection \<open>The contract of the target's memory operations\<close>

definition mem_frame :: "('k, 'z) membreak_state_scheme \<Rightarrow> ('k, 'z) membreak_state_scheme \<Rightarrow> bool" where
  \<comment> \<open>only the kernel and the breakpoints may differ\<close>
  "mem_frame s t \<longleftrightarrow>
     t\<lparr>kst := kst s, breakpoints := breakpoints s, bp_brk := bp_brk s\<rparr> = s"

lemma mem_frameI [simp]:
  "mem_frame s s" "mem_frame s (s\<lparr>kst := k\<rparr>)" "mem_frame s (s\<lparr>breakpoints := b\<rparr>)"
  "mem_frame s (s\<lparr>bp_brk := q\<rparr>)"
  by (simp_all add: mem_frame_def)

lemma mem_frame_trans: "mem_frame s t \<Longrightarrow> mem_frame t u \<Longrightarrow> mem_frame s u"
proof -
  assume st: "mem_frame s t" and tu: "mem_frame t u"
  have "u\<lparr>kst := kst s, breakpoints := breakpoints s, bp_brk := bp_brk s\<rparr> =
      u\<lparr>kst := kst t, breakpoints := breakpoints t, bp_brk := bp_brk t\<rparr>
       \<lparr>kst := kst s, breakpoints := breakpoints s, bp_brk := bp_brk s\<rparr>"
    by simp
  with st tu show "mem_frame s u" by (simp only: mem_frame_def)
qed

lemma mem_frame_fields:
  assumes "mem_frame s t"
  shows "breakpoint_data t = breakpoint_data s" "breakpoint_len t = breakpoint_len s"
    "threads t = threads s" "entries t = entries s" "all_threads t = all_threads s"
    "current_inferior t = current_inferior s" "current_task t = current_task s"
    "procs t = procs s" "reg_defs t = reg_defs s" "register_bytes t = register_bytes s"
    "membreak_state.more t = membreak_state.more s"
  by (subst assms [unfolded mem_frame_def, symmetric], simp)+

locale memory_target =
  fixes T :: "('k, 'z) membreak_state_scheme target_ops"
    and view :: "('k, 'z) membreak_state_scheme \<Rightarrow> int \<Rightarrow> byte"
    and mapped :: "('k, 'z) membreak_state_scheme \<Rightarrow> int set"
  assumes read_law: "{a..<a + int n} \<subseteq> mapped s \<Longrightarrow>
      \<exists>k. read_memory T a n s = (Ret (mem_bytes (view s) a n), s\<lparr>kst := k\<rparr>)
        \<and> view (s\<lparr>kst := k\<rparr>) = view s \<and> mapped (s\<lparr>kst := k\<rparr>) = mapped s"
    and write_law: "bs \<noteq> [] \<Longrightarrow> {a..<a + int (length bs)} \<subseteq> mapped s \<Longrightarrow>
      \<exists>k. write_memory T a bs s = (Ret 0, s\<lparr>kst := k\<rparr>)
        \<and> view (s\<lparr>kst := k\<rparr>) = write_bytes (view s) a bs \<and> mapped (s\<lparr>kst := k\<rparr>) = mapped s"
    and frame_law: "view (s\<lparr>breakpoints := b\<rparr>) = view s" "mapped (s\<lparr>breakpoints := b\<rparr>) = mapped s"
      "view (s\<lparr>bp_brk := q\<rparr>) = view s" "mapped (s\<lparr>bp_brk := q\<rparr>) = mapped s"
    and space_law: "mapped s \<subseteq> {0..<4294967296}"
begin

end

definition bp_range :: "nat \<Rightarrow> breakpoint \<Rightarrow> int set" where
  "bp_range len b = {bp_pc b..<bp_pc b + int len}"

definition bps_ok :: "nat \<Rightarrow> byte list \<Rightarrow> nat \<Rightarrow> (int \<Rightarrow> byte) \<Rightarrow> int set \<Rightarrow> breakpoint list \<Rightarrow> bool" where
  \<comment> \<open>the breakpoints do not overlap, and memory holds the trap or the original bytes, as
    \<^verbatim>\<open>reinserting\<close> says\<close>
  "bps_ok len d brk v m bps \<longleftrightarrow> 0 < len \<and> len \<le> 8 \<and> length d = len
     \<and> sorted_wrt (apart len) bps \<and> distinct (map bp_addr bps)
     \<and> (\<forall>b \<in> set bps. bp_addr b < brk \<and> length (old_data b) = 8 \<and> bp_range len b \<subseteq> m
        \<and> mem_bytes v (bp_pc b) len = (if reinserting b then take len (old_data b) else d))"

definition bp_ok ::
  "(('k, 'z) membreak_state_scheme \<Rightarrow> int \<Rightarrow> byte) \<Rightarrow> (('k, 'z) membreak_state_scheme \<Rightarrow> int set) \<Rightarrow>
     ('k, 'z) membreak_state_scheme \<Rightarrow> bool" where
  "bp_ok view mapped s \<longleftrightarrow> (\<exists>d. breakpoint_data s = Some d \<and>
     bps_ok (breakpoint_len s) d (bp_brk s) (view s) (mapped s) (breakpoints s))"

definition shadow ::
  "(('k, 'z) membreak_state_scheme \<Rightarrow> int \<Rightarrow> byte) \<Rightarrow> ('k, 'z) membreak_state_scheme \<Rightarrow> int \<Rightarrow> byte"
where
  \<comment> \<open>the memory the client sees\<close>
  "shadow view s = shadow_of (breakpoint_len s) (breakpoints s) (view s)"

end
