(* ===== verification/ShadowOps.thy ===== *)
theory ShadowOps
  imports Shadow
begin

section \<open>The breakpoint operations keep the shadow memory\<close>

text \<open>
  First what each operation does to the breakpoints and to memory as a function, then, in the locale
  \<open>memory_target\<close>, that the operations of src/mem-break.c and src/target.c do just this.
\<close>

subsection \<open>Pure part\<close>

lemma bps_okD:
  assumes "bps_ok len d brk v m bps"
  shows "0 < len" "len \<le> 8" "length d = len" "sorted_wrt (apart len) bps" "distinct (map bp_addr bps)"
  using assms by (auto simp: bps_ok_def)

lemma bps_ok_mem:
  assumes "bps_ok len d brk v m bps" and "b \<in> set bps"
  shows "bp_addr b < brk" "length (old_data b) = 8" "bp_range len b \<subseteq> m"
    "mem_bytes v (bp_pc b) len = (if reinserting b then take len (old_data b) else d)"
  using assms by (auto simp: bps_ok_def)

lemma bps_ok_fits:
  assumes "bps_ok len d brk v m bps" and "b \<in> set bps" and "m \<subseteq> {0..<4294967296}"
  shows "bp_fits len b"
proof -
  have "{bp_pc b..<bp_pc b + int len} \<subseteq> {0..<4294967296}" "0 < len"
    using order_trans [OF bps_ok_mem(3) [OF assms(1,2)] assms(3)] bps_okD(1) [OF assms(1)]
    by (simp_all add: bp_range_def)
  then have "0 \<le> bp_pc b" "bp_pc b + int len \<le> 4294967296"
    by simp_all
  with bps_ok_mem(2) [OF assms(1,2)] show ?thesis by (simp add: bp_fits_def)
qed

lemma mem_byte_eq:
  assumes "mem_bytes v a n = bs" and "a \<le> x" and "x < a + int n"
  shows "v x = bs ! nat (x - a)"
proof -
  have "nat (x - a) < n" "a + int (nat (x - a)) = x" using assms(2,3) by auto
  with nth_mem_bytes [of "nat (x - a)" n v a] assms(1) show ?thesis by simp
qed

lemma mem_bytes_eqI:
  assumes "length bs = n" and "\<And>x. a \<le> x \<Longrightarrow> x < a + int n \<Longrightarrow> v x = bs ! nat (x - a)"
  shows "mem_bytes v a n = bs"
  using assms by (intro nth_equalityI) auto

lemma bps_ok_byte:
  assumes "bps_ok len d brk v m bps" and "b \<in> set bps" and "covers len b x"
  shows "v x = (if reinserting b then old_data b else d) ! nat (x - bp_pc b)"
  using mem_byte_eq [OF bps_ok_mem(4) [OF assms(1,2)], of x] assms(3)
  by (auto simp: covers_def split: if_splits)

lemma shadow_byte:
  assumes "bps_ok len d brk v m bps"
  shows "b \<in> set bps \<Longrightarrow> covers len b x \<Longrightarrow>
      shadow_of len bps v x = old_data b ! nat (x - bp_pc b)"
    and "(\<And>b. b \<in> set bps \<Longrightarrow> \<not> covers len b x) \<Longrightarrow> shadow_of len bps v x = v x"
  using shadow_of_covered [OF bps_okD(4) [OF assms]] shadow_of_uncovered by auto

lemma write_apart:
  assumes "apart len b c" and "length bs = len"
  shows "mem_bytes (write_bytes v (bp_pc b) bs) (bp_pc c) len = mem_bytes v (bp_pc c) len"
  using assms by (intro mem_bytes_cong) (auto simp: apart_def write_bytes_def)

lemma absorb_fields [simp]:
  "bp_pc (absorb len a n w b) = bp_pc b" "bp_addr (absorb len a n w b) = bp_addr b"
  "reinserting (absorb len a n w b) = reinserting b" "length (old_data (absorb len a n w b)) = 8"
  "bp_range len' (absorb len a n w b) = bp_range len' b"
  "covers len' (absorb len a n w b) = covers len' b"
  by (simp_all add: absorb_def bp_range_def covers_def fun_eq_iff)

lemma absorb_byte:
  assumes "covers len b x" and "len \<le> 8"
  shows "old_data (absorb len a n w b) ! nat (x - bp_pc b) =
    (if a \<le> x \<and> x < a + int n then w x else old_data b ! nat (x - bp_pc b))"
  using assms by (auto simp: absorb_def covers_def)

lemma client_write:
  fixes w :: "int \<Rightarrow> byte"
  assumes ok: "bps_ok len d brk v m bps" and w: "\<And>x. \<not> (a \<le> x \<and> x < a + int n) \<Longrightarrow> w x = v x"
  defines "v' \<equiv> write_bytes v a (mem_bytes (planted len d bps w) a n)"
    and "bps' \<equiv> map (absorb len a n w) bps"
  shows "bps_ok len d brk v' m bps'"
    and "shadow_of len bps' v' = write_bytes (shadow_of len bps v) a (mem_bytes w a n)"
proof -
  note facts = bps_okD [OF ok]
  have v': "\<And>x. v' x = (if a \<le> x \<and> x < a + int n then planted len d bps w x else v x)"
    by (simp add: v'_def write_bytes_mem_bytes)
  have byte: "v' x = (if reinserting b then old_data (absorb len a n w b) else d) ! nat (x - bp_pc b)"
    if "b \<in> set bps" "covers len b x" for b x
  proof (cases "reinserting b")
    case True
    have "planted len d bps w x = w x"
    proof (rule planted_unchanged)
      fix c assume "c \<in> set bps"
      with sorted_apart [OF facts(4) that(1)] True apart_covers that(2)
      show "reinserting c \<or> \<not> covers len c x" by blast
    qed
    with True bps_ok_byte [OF ok that] show ?thesis by (simp add: v' absorb_byte [OF that(2) facts(2)])
  next
    case False
    with bps_ok_byte [OF ok that] planted_covered [OF facts(4) that] show ?thesis by (simp add: v')
  qed
  have "sorted_wrt (apart len) bps'"
    using facts(4) by (simp add: bps'_def sorted_wrt_map_apart)
  moreover have "\<forall>b' \<in> set bps'. bp_addr b' < brk \<and> length (old_data b') = 8 \<and> bp_range len b' \<subseteq> m
      \<and> mem_bytes v' (bp_pc b') len = (if reinserting b' then take len (old_data b') else d)"
  proof
    fix b' assume "b' \<in> set bps'"
    then obtain b where b: "b \<in> set bps" "b' = absorb len a n w b" by (auto simp: bps'_def)
    have "mem_bytes v' (bp_pc b') len = (if reinserting b' then take len (old_data b') else d)"
      using byte [OF b(1)] facts(2,3) b(2) by (intro mem_bytes_eqI) (auto simp: covers_def)
    with b bps_ok_mem [OF ok b(1)]
    show "bp_addr b' < brk \<and> length (old_data b') = 8 \<and> bp_range len b' \<subseteq> m
      \<and> mem_bytes v' (bp_pc b') len = (if reinserting b' then take len (old_data b') else d)" by simp
  qed
  ultimately show ok': "bps_ok len d brk v' m bps'"
    using facts by (simp add: bps_ok_def bps'_def comp_def)
  show "shadow_of len bps' v' = write_bytes (shadow_of len bps v) a (mem_bytes w a n)"
  proof
    fix x
    show "shadow_of len bps' v' x = write_bytes (shadow_of len bps v) a (mem_bytes w a n) x"
    proof (cases "\<exists>b \<in> set bps. covers len b x")
      case True
      then obtain b where b: "b \<in> set bps" "covers len b x" by blast
      then have "absorb len a n w b \<in> set bps'" by (simp add: bps'_def)
      from shadow_byte(1) [OF ok' this] b
      have "shadow_of len bps' v' x = old_data (absorb len a n w b) ! nat (x - bp_pc b)" by simp
      with b shadow_byte(1) [OF ok b] facts(2) show ?thesis
        by (simp add: absorb_byte write_bytes_mem_bytes)
    next
      case False
      then have "\<forall>b \<in> set bps'. \<not> covers len b x" by (simp add: bps'_def)
      then have "shadow_of len bps' v' x = v' x" by (simp add: shadow_of_uncovered)
      moreover have "planted len d bps w x = w x" using False planted_unchanged by blast
      moreover have "shadow_of len bps v x = v x" using False shadow_byte(2) [OF ok] by blast
      ultimately show ?thesis by (simp add: v' write_bytes_mem_bytes)
    qed
  qed
qed

lemma switch_bp:
  assumes ok: "bps_ok len d brk v m bps" and b: "b \<in> set bps"
    and bs: "bs = (if r then take len (old_data b) else d)"
  defines "bps' \<equiv> map (\<lambda>c. if bp_addr c = bp_addr b then c\<lparr>reinserting := r\<rparr> else c) bps"
    and "v' \<equiv> write_bytes v (bp_pc b) bs"
  shows "bps_ok len d brk v' m bps'" and "shadow_of len bps' v' = shadow_of len bps v"
proof -
  note facts = bps_okD [OF ok]
  have lb: "length bs = len" using bs facts(2,3) bps_ok_mem(2) [OF ok b] by auto
  have same: "c = b" if "c \<in> set bps" "bp_addr c = bp_addr b" for c
    using facts(5) that b by (auto simp: distinct_map dest: inj_onD)
  have mem: "bp_addr b' < brk \<and> length (old_data b') = 8 \<and> bp_range len b' \<subseteq> m
      \<and> mem_bytes v' (bp_pc b') len = (if reinserting b' then take len (old_data b') else d)"
    if "b' \<in> set bps'" for b'
  proof -
    from that obtain c where c: "c \<in> set bps" "b' = (if bp_addr c = bp_addr b then c\<lparr>reinserting := r\<rparr> else c)"
      by (auto simp: bps'_def)
    show ?thesis
    proof (cases "bp_addr c = bp_addr b")
      case True
      with same c have "c = b" by blast
      with c bps_ok_mem [OF ok b] bs lb show ?thesis
        using mem_bytes_write_bytes [of v "bp_pc b" bs] by (simp add: v'_def bp_range_def)
    next
      case False
      then have "apart len b c" using sorted_apart [OF facts(4) b c(1)] by auto
      with False c bps_ok_mem [OF ok c(1)] lb show ?thesis by (simp add: v'_def write_apart)
    qed
  qed
  have pcs: "\<And>c. bp_pc (if bp_addr c = bp_addr b then c\<lparr>reinserting := r\<rparr> else c) = bp_pc c" by simp
  have "sorted_wrt (apart len) bps'"
    unfolding bps'_def by (rule sorted_wrt_map_apart [OF facts(4) pcs])
  moreover have "map bp_addr bps' = map bp_addr bps" by (simp add: bps'_def)
  ultimately show ok': "bps_ok len d brk v' m bps'" using facts mem by (simp add: bps_ok_def)
  have sh: "shadow_of len bps' u = shadow_of len bps u" for u
    unfolding bps'_def
    by (induction bps arbitrary: u) (simp_all add: covers_def cong: if_cong)
  show "shadow_of len bps' v' = shadow_of len bps v"
  proof
    fix x
    show "shadow_of len bps' v' x = shadow_of len bps v x"
    proof (cases "\<exists>c \<in> set bps. covers len c x")
      case True
      then obtain c where "c \<in> set bps" "covers len c x" by blast
      then show ?thesis using shadow_of_covered [OF facts(4)] sh by simp
    next
      case False
      then have "v' x = v x" using b lb by (auto simp: v'_def write_bytes_def covers_def)
      with False show ?thesis using sh shadow_of_uncovered [of bps len x] by simp
    qed
  qed
qed

lemma delete_bp:
  assumes ok: "bps_ok len d brk v m bps" and b: "b \<in> set bps"
  defines "bps' \<equiv> filter (\<lambda>c. bp_addr c \<noteq> bp_addr b) bps"
    and "v' \<equiv> write_bytes v (bp_pc b) (take len (old_data b))"
  shows "bps_ok len d brk v' m bps'" and "shadow_of len bps' v' = shadow_of len bps v"
proof -
  note facts = bps_okD [OF ok]
  have lb: "length (take len (old_data b)) = len" using facts(2) bps_ok_mem(2) [OF ok b] by auto
  have same: "c = b" if "c \<in> set bps" "bp_addr c = bp_addr b" for c
    using facts(5) that b by (auto simp: distinct_map dest: inj_onD)
  have other: "c \<in> set bps \<and> apart len b c" if "c \<in> set bps'" for c
    using that sorted_apart [OF facts(4) b] by (auto simp: bps'_def)
  have "\<forall>c \<in> set bps'. bp_addr c < brk \<and> length (old_data c) = 8 \<and> bp_range len c \<subseteq> m
      \<and> mem_bytes v' (bp_pc c) len = (if reinserting c then take len (old_data c) else d)"
    using other bps_ok_mem [OF ok] write_apart [OF _ lb] by (simp add: v'_def)
  then show ok': "bps_ok len d brk v' m bps'"
    using facts by (simp add: bps_ok_def bps'_def sorted_wrt_filter distinct_map_filter)
  show "shadow_of len bps' v' = shadow_of len bps v"
  proof
    fix x
    consider (b) "covers len b x" | (c) c where "c \<in> set bps'" "covers len c x"
      | (none) "\<And>c. c \<in> set bps \<Longrightarrow> \<not> covers len c x"
      using same by (auto simp: bps'_def)
    then show "shadow_of len bps' v' x = shadow_of len bps v x"
    proof cases
      case b
      then have "\<And>c. c \<in> set bps' \<Longrightarrow> \<not> covers len c x" using other apart_covers by blast
      then have "shadow_of len bps' v' x = v' x" by (rule shadow_of_uncovered)
      also have "\<dots> = old_data b ! nat (x - bp_pc b)"
        using b lb by (auto simp: v'_def write_bytes_def covers_def)
      finally show ?thesis using shadow_byte(1) [OF ok \<open>b \<in> set bps\<close> b] by simp
    next
      case c
      with other have "c \<in> set bps" by blast
      with shadow_byte(1) [OF ok' c] shadow_byte(1) [OF ok this c(2)] show ?thesis by simp
    next
      case none
      then have "v' x = v x" using \<open>b \<in> set bps\<close> lb by (auto simp: v'_def write_bytes_def covers_def)
      with none show ?thesis using shadow_byte(2) [OF ok'] shadow_byte(2) [OF ok] other by metis
    qed
  qed
qed

definition clear_of :: "nat \<Rightarrow> breakpoint list \<Rightarrow> int \<Rightarrow> bool" where
  \<comment> \<open>a trap at this address would overlap none of the breakpoints\<close>
  "clear_of len bps at \<longleftrightarrow> list_all (\<lambda>b. at + int len \<le> bp_pc b \<or> bp_pc b + int len \<le> at) bps"

lemma insert_bp:
  assumes ok: "bps_ok len d brk v m bps" and cl: "clear_of len bps (bp_pc b)"
    and b: "bp_addr b = brk" "old_data b = overwrite (replicate 8 0) 0 (mem_bytes v (bp_pc b) len)"
      "\<not> reinserting b" and r: "bp_range len b \<subseteq> m"
  defines "v' \<equiv> write_bytes v (bp_pc b) d"
  shows "bps_ok len d (Suc brk) v' m (b # bps)" and "shadow_of len (b # bps) v' = shadow_of len bps v"
proof -
  note facts = bps_okD [OF ok]
  have ap: "\<forall>c \<in> set bps. apart len b c"
    using cl by (auto simp: clear_of_def apart_def list_all_iff)
  have old: "length (old_data b) = 8" "take len (old_data b) = mem_bytes v (bp_pc b) len"
    using b(2) facts(2) take_drop_overwrite [of 0 "mem_bytes v (bp_pc b) len" "replicate 8 0"] by simp_all
  have "mem_bytes v' (bp_pc b) len = d"
    using mem_bytes_write_bytes [of v "bp_pc b" d] facts(3) by (simp add: v'_def)
  moreover have "\<forall>c \<in> set bps. bp_addr c < Suc brk \<and> length (old_data c) = 8 \<and> bp_range len c \<subseteq> m
      \<and> mem_bytes v' (bp_pc c) len = (if reinserting c then take len (old_data c) else d)"
    using bps_ok_mem [OF ok] ap write_apart [OF _ facts(3)] by (auto simp: v'_def less_Suc_eq)
  moreover have "b \<notin> set bps \<and> brk \<notin> bp_addr ` set bps"
    using bps_ok_mem(1) [OF ok] b(1) by fastforce
  ultimately show ok': "bps_ok len d (Suc brk) v' m (b # bps)"
    using facts ap old b r by (simp add: bps_ok_def)
  show "shadow_of len (b # bps) v' = shadow_of len bps v"
  proof
    fix x
    consider (b) "covers len b x" | (c) c where "c \<in> set bps" "covers len c x"
      | (none) "\<And>c. c \<in> set (b # bps) \<Longrightarrow> \<not> covers len c x"
      by auto
    then show "shadow_of len (b # bps) v' x = shadow_of len bps v x"
    proof cases
      case b
      then have "\<And>c. c \<in> set bps \<Longrightarrow> \<not> covers len c x" using ap apart_covers by blast
      then have "shadow_of len bps v x = v x" by (rule shadow_of_uncovered)
      also have "\<dots> = take len (old_data b) ! nat (x - bp_pc b)"
        using b mem_byte_eq [OF old(2) [symmetric]] by (auto simp: covers_def)
      also have "\<dots> = old_data b ! nat (x - bp_pc b)" using b by (auto simp: covers_def)
      finally show ?thesis using shadow_byte(1) [OF ok', of b x] b by simp
    next
      case c
      then show ?thesis using shadow_byte(1) [OF ok', of c x] shadow_byte(1) [OF ok c] by simp
    next
      case none
      then have "v' x = v x" using facts(3) by (auto simp: v'_def write_bytes_def covers_def)
      with none show ?thesis using shadow_byte(2) [OF ok', of x] shadow_byte(2) [OF ok, of x]
        by (metis list.set_intros(2))
    qed
  qed
qed

lemma map_bps_ok:
  assumes ok: "bps_ok len d brk v m bps"
    and f: "\<And>c. bp_addr (f c) = bp_addr c" "\<And>c. bp_pc (f c) = bp_pc c"
      "\<And>c. old_data (f c) = old_data c" "\<And>c. reinserting (f c) = reinserting c"
  shows "bps_ok len d brk v m (map f bps)" and "shadow_of len (map f bps) v = shadow_of len bps v"
proof -
  have "sorted_wrt (apart len) (map f bps)"
    using sorted_wrt_map_apart [OF bps_okD(4) [OF ok]] f(2) by blast
  with ok f show "bps_ok len d brk v m (map f bps)"
    by (simp add: bps_ok_def comp_def bp_range_def)
  show "shadow_of len (map f bps) v = shadow_of len bps v"
    by (induction bps arbitrary: v) (simp_all add: f covers_def cong: if_cong)
qed

lemma view_determined:
  assumes "bps_ok len d brk v m bps" and "bps_ok len d brk' v' m' bps"
    and "shadow_of len bps v = shadow_of len bps v'"
  shows "v = v'"
proof
  fix x
  show "v x = v' x"
  proof (cases "\<exists>b \<in> set bps. covers len b x")
    case True
    then show ?thesis using bps_ok_byte [OF assms(1)] bps_ok_byte [OF assms(2)] by metis
  next
    case False
    then show ?thesis
      using shadow_byte(2) [OF assms(1)] shadow_byte(2) [OF assms(2)] assms(3) by metis
  qed
qed

subsection \<open>The programs\<close>

definition keeps_memory ::
  "(('k, 'z) membreak_state_scheme \<Rightarrow> int \<Rightarrow> byte) \<Rightarrow> (('k, 'z) membreak_state_scheme \<Rightarrow> int set) \<Rightarrow>
     ('k, 'z) membreak_state_scheme \<Rightarrow> ('k, 'z) membreak_state_scheme \<Rightarrow> bool" where
  \<comment> \<open>from consistent breakpoints to consistent breakpoints, with the same shadow memory\<close>
  "keeps_memory view mapped s t \<longleftrightarrow> bp_ok view mapped t \<and> shadow view t = shadow view s
     \<and> mem_frame s t \<and> mapped t = mapped s"

lemma keeps_memory_trans:
  "keeps_memory view mapped s t \<Longrightarrow> keeps_memory view mapped t u \<Longrightarrow> keeps_memory view mapped s u"
  by (auto simp: keeps_memory_def intro: mem_frame_trans)

definition in_mem :: "int set \<Rightarrow> int \<Rightarrow> nat \<Rightarrow> bool" where
  "in_mem m a n \<longleftrightarrow> {a..<a + int n} \<subseteq> m \<and> 0 \<le> a \<and> a + int n \<le> 4294967296"

lemma bp_okE:
  assumes "bp_ok view mapped s"
  obtains d where "breakpoint_data s = Some d"
    "bps_ok (breakpoint_len s) d (bp_brk s) (view s) (mapped s) (breakpoints s)"
  using assms by (auto simp: bp_ok_def)

lemma bp_ok_view_determined:
  assumes "bp_ok view mapped s" and "keeps_memory view mapped s t" and "breakpoints t = breakpoints s"
  shows "view t = view s"
proof -
  obtain d where d: "breakpoint_data s = Some d"
      "bps_ok (breakpoint_len s) d (bp_brk s) (view s) (mapped s) (breakpoints s)"
    using assms(1) by (rule bp_okE)
  have f: "mem_frame s t" "bp_ok view mapped t" "shadow view t = shadow view s"
    using assms(2) by (auto simp: keeps_memory_def)
  obtain d' where d': "breakpoint_data t = Some d'"
      "bps_ok (breakpoint_len t) d' (bp_brk t) (view t) (mapped t) (breakpoints t)"
    using f(2) by (rule bp_okE)
  have "d' = d" using d(1) d'(1) mem_frame_fields(1) [OF f(1)] by simp
  with d d' f assms(3) mem_frame_fields(2) [OF f(1)] show ?thesis
    using view_determined [OF d'(2) [unfolded assms(3)]] by (auto simp: shadow_def)
qed

context memory_target
begin

lemma trap_written:
  assumes "breakpoint_data s = Some d" and "length d = breakpoint_len s" and "0 < breakpoint_len s"
    and "{a..<a + int (breakpoint_len s)} \<subseteq> mapped s"
  shows "\<exists>k. write_trap T a s = (Ret (), s\<lparr>kst := k\<rparr>)
    \<and> view (s\<lparr>kst := k\<rparr>) = write_bytes (view s) a d \<and> mapped (s\<lparr>kst := k\<rparr>) = mapped s"
proof -
  have "trap_bytes s = Ret d" using assms by (simp add: trap_bytes_def slice_def)
  moreover have "d \<noteq> []" using assms by auto
  ultimately show ?thesis using write_law [of d a s] assms by (auto simp: write_trap_def prog_simps)
qed

lemma old_written:
  assumes "length (old_data b) = 8" and "breakpoint_len s \<le> 8" and "0 < breakpoint_len s"
    and "bp_range (breakpoint_len s) b \<subseteq> mapped s"
  shows "\<exists>k. write_old T b s = (Ret (), s\<lparr>kst := k\<rparr>)
    \<and> view (s\<lparr>kst := k\<rparr>) = write_bytes (view s) (bp_pc b) (take (breakpoint_len s) (old_data b))
    \<and> mapped (s\<lparr>kst := k\<rparr>) = mapped s"
proof -
  have "slice 0 (int (breakpoint_len s)) (old_data b) = Ret (take (breakpoint_len s) (old_data b))"
    using assms by (simp add: slice_def)
  moreover have "take (breakpoint_len s) (old_data b) \<noteq> []" using assms by auto
  ultimately show ?thesis
    using write_law [of "take (breakpoint_len s) (old_data b)" "bp_pc b" s] assms
    by (auto simp: write_old_def prog_simps bp_range_def)
qed

lemma bp_ok_fits:
  assumes "bp_ok view mapped s" and "b \<in> set (breakpoints s)"
  shows "bp_fits (breakpoint_len s) b"
  using assms space_law [of s] by (auto simp: bp_ok_def intro: bps_ok_fits)

lemma read_shadow:
  assumes ok: "bp_ok view mapped s" and m: "in_mem (mapped s) a n"
  shows "\<exists>t. read_inferior_memory T a n s = (Ret (mem_bytes (shadow view s) a n), t)
    \<and> keeps_memory view mapped s t \<and> breakpoints t = breakpoints s"
proof -
  have im: "{a..<a + int n} \<subseteq> mapped s" "0 \<le> a" "a + int n \<le> 4294967296"
    using m by (auto simp: in_mem_def)
  obtain k where k: "read_memory T a n s = (Ret (mem_bytes (view s) a n), s\<lparr>kst := k\<rparr>)"
      "view (s\<lparr>kst := k\<rparr>) = view s" "mapped (s\<lparr>kst := k\<rparr>) = mapped s"
    using read_law [OF im(1)] by blast
  obtain d where d: "breakpoint_data s = Some d"
      "bps_ok (breakpoint_len s) d (bp_brk s) (view s) (mapped s) (breakpoints s)"
    using ok by (rule bp_okE)
  have "check_mem_read_loop (breakpoint_len s) a (a + int n) (mem_bytes (view s) a n) (breakpoints s)
      = Ret (mem_bytes (shadow view s) a n)"
    unfolding shadow_def
    using bps_okD [OF d(2)] bp_ok_fits [OF ok] im by (intro check_mem_read_loop_eq) auto
  moreover have "wrap64 (a + int n) = a + int n" using im by (simp add: wrap64_space)
  ultimately have "read_inferior_memory T a n s = (Ret (mem_bytes (shadow view s) a n), s\<lparr>kst := k\<rparr>)"
    by (simp add: read_inferior_memory_def check_mem_read_def prog_simps k)
  moreover have "keeps_memory view mapped s (s\<lparr>kst := k\<rparr>)"
    using d k by (simp add: keeps_memory_def bp_ok_def shadow_def)
  ultimately show ?thesis by auto
qed

lemma write_shadow:
  assumes ok: "bp_ok view mapped s" and m: "in_mem (mapped s) a (length bs)" and ne: "bs \<noteq> []"
  shows "\<exists>t. write_inferior_memory T a bs s = (Ret 0, t) \<and> bp_ok view mapped t
    \<and> shadow view t = write_bytes (shadow view s) a bs \<and> mem_frame s t \<and> mapped t = mapped s
    \<and> map bp_pc (breakpoints t) = map bp_pc (breakpoints s)
    \<and> map reinserting (breakpoints t) = map reinserting (breakpoints s)"
proof -
  define w where "w = write_bytes (view s) a bs"
  define n where "n = length bs"
  have im: "{a..<a + int n} \<subseteq> mapped s" "0 \<le> a" "a + int n \<le> 4294967296"
    using m by (auto simp: in_mem_def n_def)
  have bs: "mem_bytes w a n = bs" by (simp add: w_def n_def)
  obtain d where d: "breakpoint_data s = Some d"
      "bps_ok (breakpoint_len s) d (bp_brk s) (view s) (mapped s) (breakpoints s)"
    using ok by (rule bp_okE)
  let ?buf = "mem_bytes (planted (breakpoint_len s) d (breakpoints s) w) a n"
  let ?bps = "map (absorb (breakpoint_len s) a n w) (breakpoints s)"
  have wr: "wrap64 (a + int (length bs)) = a + int n" using im by (simp add: wrap64_space n_def)
  have loop: "check_mem_write_loop (breakpoint_data s) (breakpoint_len s) a (wrap64 (a + int (length bs)))
      bs (breakpoints s) = Ret (?buf, ?bps)"
    using check_mem_write_loop_eq [of "breakpoint_len s" "breakpoints s" a n d w]
      bps_okD [OF d(2)] bp_ok_fits [OF ok] im by (simp add: d(1) bs wr)
  let ?s1 = "s\<lparr>breakpoints := ?bps\<rparr>"
  have "{a..<a + int (length ?buf)} \<subseteq> mapped ?s1" using im frame_law by simp
  moreover have "?buf \<noteq> []" using ne by (metis length_mem_bytes length_0_conv n_def)
  ultimately obtain k where k: "write_memory T a ?buf ?s1 = (Ret 0, ?s1\<lparr>kst := k\<rparr>)"
      "view (?s1\<lparr>kst := k\<rparr>) = write_bytes (view s) a ?buf" "mapped (?s1\<lparr>kst := k\<rparr>) = mapped s"
    using frame_law write_law [of ?buf a ?s1] by auto
  have "\<And>x. \<not> (a \<le> x \<and> x < a + int n) \<Longrightarrow> w x = view s x"
    by (auto simp: w_def write_bytes_def n_def)
  note cw = client_write [OF d(2) this]
  have "write_inferior_memory T a bs s = (Ret 0, ?s1\<lparr>kst := k\<rparr>)"
    by (simp add: write_inferior_memory_def check_mem_write_def prog_simps loop k(1))
  moreover have "bp_ok view mapped (?s1\<lparr>kst := k\<rparr>)"
    using cw(1) d(1) k(2,3) unfolding bp_ok_def by simp
  moreover have "shadow view (?s1\<lparr>kst := k\<rparr>) = write_bytes (shadow view s) a bs"
    using cw(2) k(2) unfolding shadow_def by (simp add: bs)
  moreover have "mem_frame s (?s1\<lparr>kst := k\<rparr>)" by (rule mem_frame_trans) (rule mem_frameI)+
  ultimately show ?thesis using k(3) by (auto simp: comp_def)
qed

lemma set_breakpoint_at_keeps:
  assumes ok: "bp_ok view mapped s" and cl: "clear_of (breakpoint_len s) (breakpoints s) a"
    and m: "{a..<a + int (breakpoint_len s)} \<subseteq> mapped s"
  shows "\<exists>t b. set_breakpoint_at T a h s = (Ret (), t) \<and> keeps_memory view mapped s t
    \<and> breakpoints t = b # breakpoints s \<and> bp_addr b = bp_brk s \<and> bp_pc b = a \<and> \<not> reinserting b
    \<and> breakpoint_to_reinsert b = None \<and> handler b = h"
proof -
  obtain d where d: "breakpoint_data s = Some d"
      "bps_ok (breakpoint_len s) d (bp_brk s) (view s) (mapped s) (breakpoints s)"
    using ok by (rule bp_okE)
  note facts = bps_okD [OF d(2)]
  let ?s1 = "s\<lparr>bp_brk := Suc (bp_brk s)\<rparr>" and ?len = "breakpoint_len s"
  have "{a..<a + int ?len} \<subseteq> mapped ?s1" using m frame_law by simp
  from read_law [OF this] obtain k where
    k: "read_memory T a ?len ?s1 = (Ret (mem_bytes (view s) a ?len), ?s1\<lparr>kst := k\<rparr>)"
      "view (?s1\<lparr>kst := k\<rparr>) = view s" "mapped (?s1\<lparr>kst := k\<rparr>) = mapped s"
    using frame_law by auto
  let ?s2 = "?s1\<lparr>kst := k\<rparr>" and ?od = "overwrite (replicate 8 0) 0 (mem_bytes (view s) a ?len)"
  let ?b = "\<lparr>bp_addr = bp_brk s, bp_pc = a, old_data = ?od, reinserting = False,
    breakpoint_to_reinsert = None, handler = h\<rparr>"
  obtain k' where k': "write_trap T a ?s2 = (Ret (), ?s2\<lparr>kst := k'\<rparr>)"
      "view (?s2\<lparr>kst := k'\<rparr>) = write_bytes (view s) a d" "mapped (?s2\<lparr>kst := k'\<rparr>) = mapped s"
    using trap_written [of ?s2 d a] d(1) facts m k by auto
  let ?t = "?s2\<lparr>kst := k'\<rparr>\<lparr>breakpoints := ?b # breakpoints s\<rparr>"
  have "set_breakpoint_at T a h s = (Ret (), ?t)"
    using facts(2) by (simp add: set_breakpoint_at_def d(1) prog_simps k(1) store_def
        MAX_BREAKPOINT_LEN_def k'(1))
  moreover have "mem_frame s ?t"
    by (rule mem_frame_trans [of _ "s\<lparr>bp_brk := Suc (bp_brk s), kst := k'\<rparr>"]) (simp_all add: mem_frame_def)
  moreover have "view ?t = write_bytes (view s) a d" "mapped ?t = mapped s"
    using k'(2,3) frame_law(1,2) [where s = "?s2\<lparr>kst := k'\<rparr>" and b = "?b # breakpoints s"] by simp_all
  moreover note insert_bp [OF d(2), of ?b] cl m
  ultimately have "keeps_memory view mapped s ?t"
    unfolding keeps_memory_def bp_ok_def shadow_def
    by (simp add: bp_range_def d(1))
  with \<open>set_breakpoint_at T a h s = (Ret (), ?t)\<close> show ?thesis by auto
qed

lemma delete_breakpoint_keeps:
  assumes ok: "bp_ok view mapped s" and b: "b \<in> set (breakpoints s)"
  shows "\<exists>t. delete_breakpoint T (bp_addr b) s = (Ret (), t) \<and> keeps_memory view mapped s t
    \<and> breakpoints t = filter (\<lambda>c. bp_addr c \<noteq> bp_addr b) (breakpoints s)"
proof -
  obtain d where d: "breakpoint_data s = Some d"
      "bps_ok (breakpoint_len s) d (bp_brk s) (view s) (mapped s) (breakpoints s)"
    using ok by (rule bp_okE)
  note facts = bps_okD [OF d(2)]
  let ?bps = "filter (\<lambda>c. bp_addr c \<noteq> bp_addr b) (breakpoints s)"
  let ?s1 = "s\<lparr>breakpoints := ?bps\<rparr>"
  obtain k where k: "write_old T b ?s1 = (Ret (), ?s1\<lparr>kst := k\<rparr>)"
      "view (?s1\<lparr>kst := k\<rparr>) = write_bytes (view s) (bp_pc b) (take (breakpoint_len s) (old_data b))"
      "mapped (?s1\<lparr>kst := k\<rparr>) = mapped s"
    using old_written [of b ?s1] bps_ok_mem [OF d(2) b] facts frame_law by auto
  have "delete_breakpoint T (bp_addr b) s = (Ret (), ?s1\<lparr>kst := k\<rparr>)"
    using b k(1) by (auto simp: delete_breakpoint_def lookup_bp_distinct [OF facts(5) b]
        unlink_bp_distinct [OF facts(5)])
  moreover have "keeps_memory view mapped s (?s1\<lparr>kst := k\<rparr>)"
    using delete_bp [OF d(2) b] k d(1)
    unfolding keeps_memory_def bp_ok_def shadow_def by (simp add: mem_frame_def)
  ultimately show ?thesis by auto
qed

lemma filter_pc:
  assumes "bp_ok view mapped s" and "b \<in> set (breakpoints s)"
  shows "filter (\<lambda>c. bp_addr c \<noteq> bp_addr b) (breakpoints s)
    = filter (\<lambda>c. bp_pc c \<noteq> bp_pc b) (breakpoints s)"
proof (rule filter_cong [OF refl])
  fix c assume c: "c \<in> set (breakpoints s)"
  obtain d where d: "bps_ok (breakpoint_len s) d (bp_brk s) (view s) (mapped s) (breakpoints s)"
    using assms(1) by (rule bp_okE)
  note facts = bps_okD [OF d]
  show "(bp_addr c \<noteq> bp_addr b) = (bp_pc c \<noteq> bp_pc b)"
    using same_pc_same_bp [OF facts(4) c assms(2) _ facts(1)] facts(5) c assms(2)
    by (auto simp: distinct_map dest: inj_onD)
qed

lemma delete_breakpoint_at_keeps:
  assumes ok: "bp_ok view mapped s"
  shows "\<exists>t. delete_breakpoint_at T a s = (Ret (), t) \<and> keeps_memory view mapped s t
    \<and> breakpoints t = filter (\<lambda>c. bp_pc c \<noteq> a) (breakpoints s)"
proof (cases "find_breakpoint_at a (breakpoints s)")
  case None
  then have "a \<notin> bp_pc ` set (breakpoints s)" by (simp add: find_breakpoint_at_None)
  then have "filter (\<lambda>c. bp_pc c \<noteq> a) (breakpoints s) = breakpoints s" by (auto simp: filter_id_conv)
  with None ok show ?thesis by (simp add: delete_breakpoint_at_def keeps_memory_def)
next
  case (Some b)
  then have b: "b \<in> set (breakpoints s)" "bp_pc b = a" using find_breakpoint_at_Some by auto
  with Some delete_breakpoint_keeps [OF ok b(1)] filter_pc [OF ok b(1)] show ?thesis
    by (simp add: delete_breakpoint_at_def)
qed

lemma switch_keeps:
  assumes ok: "bp_ok view mapped s" and b: "b \<in> set (breakpoints s)" and d: "breakpoint_data s = Some d"
    and k: "view (s\<lparr>kst := k\<rparr>) = write_bytes (view s) (bp_pc b)
        (if r then take (breakpoint_len s) (old_data b) else d)" "mapped (s\<lparr>kst := k\<rparr>) = mapped s"
  shows "keeps_memory view mapped s (s\<lparr>kst := k, breakpoints :=
    map (\<lambda>c. if bp_addr c = bp_addr b then c\<lparr>reinserting := r\<rparr> else c) (breakpoints s)\<rparr>)"
    (is "keeps_memory view mapped s ?t")
proof -
  have ok': "bps_ok (breakpoint_len s) d (bp_brk s) (view s) (mapped s) (breakpoints s)"
    using ok d by (auto simp: bp_ok_def)
  have "view ?t = view (s\<lparr>kst := k\<rparr>)" "mapped ?t = mapped (s\<lparr>kst := k\<rparr>)"
    using frame_law(1,2) [where s = "s\<lparr>kst := k\<rparr>"] by simp_all
  moreover have "mem_frame s ?t" by (simp add: mem_frame_def)
  ultimately show ?thesis
    using switch_bp [OF ok' b refl, of r] k d
    unfolding keeps_memory_def bp_ok_def shadow_def by simp
qed

lemma trap_of_bp:
  assumes ok: "bp_ok view mapped s" and b: "b \<in> set (breakpoints s)"
  shows "\<exists>k. write_trap T (bp_pc b) s = (Ret (), s\<lparr>kst := k\<rparr>) \<and>
    keeps_memory view mapped s (s\<lparr>kst := k, breakpoints :=
      map (\<lambda>c. if bp_addr c = bp_addr b then c\<lparr>reinserting := False\<rparr> else c) (breakpoints s)\<rparr>)"
proof -
  obtain d where d: "breakpoint_data s = Some d"
      "bps_ok (breakpoint_len s) d (bp_brk s) (view s) (mapped s) (breakpoints s)"
    using ok by (rule bp_okE)
  obtain k where "write_trap T (bp_pc b) s = (Ret (), s\<lparr>kst := k\<rparr>)"
      "view (s\<lparr>kst := k\<rparr>) = write_bytes (view s) (bp_pc b) d" "mapped (s\<lparr>kst := k\<rparr>) = mapped s"
    using trap_written [OF d(1), of "bp_pc b"] bps_okD [OF d(2)] bps_ok_mem [OF d(2) b]
    by (auto simp: bp_range_def)
  with switch_keeps [OF ok b d(1), of k False] show ?thesis by auto
qed

lemma old_of_bp:
  assumes ok: "bp_ok view mapped s" and b: "b \<in> set (breakpoints s)"
  shows "\<exists>k. write_old T b s = (Ret (), s\<lparr>kst := k\<rparr>) \<and>
    keeps_memory view mapped s (s\<lparr>kst := k, breakpoints :=
      map (\<lambda>c. if bp_addr c = bp_addr b then c\<lparr>reinserting := True\<rparr> else c) (breakpoints s)\<rparr>)"
proof -
  obtain d where d: "breakpoint_data s = Some d"
      "bps_ok (breakpoint_len s) d (bp_brk s) (view s) (mapped s) (breakpoints s)"
    using ok by (rule bp_okE)
  obtain k where "write_old T b s = (Ret (), s\<lparr>kst := k\<rparr>)"
      "view (s\<lparr>kst := k\<rparr>) = write_bytes (view s) (bp_pc b) (take (breakpoint_len s) (old_data b))"
      "mapped (s\<lparr>kst := k\<rparr>) = mapped s"
    using old_written [of b s] bps_okD [OF d(2)] bps_ok_mem [OF d(2) b] by auto
  with switch_keeps [OF ok b d(1), of k True] show ?thesis by auto
qed

lemma uninsert_keeps:
  assumes ok: "bp_ok view mapped s" and b: "find_breakpoint_at a (breakpoints s) = Some b"
  shows "\<exists>t. uninsert_breakpoint T a s = (Ret (), t) \<and> keeps_memory view mapped s t
    \<and> breakpoints t = map (\<lambda>c. if bp_addr c = bp_addr b then c\<lparr>reinserting := True\<rparr> else c) (breakpoints s)"
proof -
  from old_of_bp [OF ok] find_breakpoint_at_Some [OF b] obtain k where
    k: "write_old T b s = (Ret (), s\<lparr>kst := k\<rparr>)" "keeps_memory view mapped s (s\<lparr>kst := k, breakpoints :=
      map (\<lambda>c. if bp_addr c = bp_addr b then c\<lparr>reinserting := True\<rparr> else c) (breakpoints s)\<rparr>)"
    by blast
  from b k(1) show ?thesis
    by (intro exI conjI, simp add: uninsert_breakpoint_def prog_simps upd_bp_def) (use k(2) in simp_all)
qed

lemma reinsert_keeps:
  assumes ok: "bp_ok view mapped s" and b: "find_breakpoint_at a (breakpoints s) = Some b"
    and r: "reinserting b"
  shows "\<exists>t. reinsert_breakpoint T a s = (Ret (), t) \<and> keeps_memory view mapped s t
    \<and> breakpoints t = map (\<lambda>c. if bp_addr c = bp_addr b then c\<lparr>reinserting := False\<rparr> else c) (breakpoints s)"
proof -
  from trap_of_bp [OF ok] find_breakpoint_at_Some [OF b] obtain k where
    k: "write_trap T (bp_pc b) s = (Ret (), s\<lparr>kst := k\<rparr>)" "keeps_memory view mapped s (s\<lparr>kst := k, breakpoints :=
      map (\<lambda>c. if bp_addr c = bp_addr b then c\<lparr>reinserting := False\<rparr> else c) (breakpoints s)\<rparr>)"
    by blast
  from b k(1) r show ?thesis
    by (intro exI conjI, simp add: reinsert_breakpoint_def prog_simps upd_bp_def) (use k(2) in simp_all)
qed

lemma link_keeps:
  assumes ok: "bp_ok view mapped s"
  shows "keeps_memory view mapped s (s\<lparr>breakpoints :=
    map (\<lambda>c. if bp_addr c = i then c\<lparr>breakpoint_to_reinsert := l\<rparr> else c) (breakpoints s)\<rparr>)"
proof -
  obtain d where d: "breakpoint_data s = Some d"
      "bps_ok (breakpoint_len s) d (bp_brk s) (view s) (mapped s) (breakpoints s)"
    using ok by (rule bp_okE)
  have "\<And>c. bp_pc (if bp_addr c = i then c\<lparr>breakpoint_to_reinsert := l\<rparr> else c) = bp_pc c"
    "\<And>c. bp_addr (if bp_addr c = i then c\<lparr>breakpoint_to_reinsert := l\<rparr> else c) = bp_addr c"
    "\<And>c. old_data (if bp_addr c = i then c\<lparr>breakpoint_to_reinsert := l\<rparr> else c) = old_data c"
    "\<And>c. reinserting (if bp_addr c = i then c\<lparr>breakpoint_to_reinsert := l\<rparr> else c) = reinserting c"
    by simp_all
  from map_bps_ok [OF d(2) this(2,1,3,4)] d(1) show ?thesis
    by (simp add: keeps_memory_def bp_ok_def shadow_def frame_law)
qed

lemma reinsert_by_bp_keeps:
  assumes ok: "bp_ok view mapped s" and o: "find_breakpoint_at stop_pc (breakpoints s) = Some orig"
    and cl: "clear_of (breakpoint_len s) (breakpoints s) stop_at"
    and m: "{stop_at..<stop_at + int (breakpoint_len s)} \<subseteq> mapped s"
  shows "\<exists>t b. reinsert_breakpoint_by_bp T stop_pc stop_at s = (Ret (), t)
    \<and> keeps_memory view mapped s t \<and> bp_pc b = stop_at \<and> bp_addr b = bp_brk s \<and> \<not> reinserting b
    \<and> handler b = Some Reinsert_breakpoint_handler \<and> breakpoint_to_reinsert b = Some (bp_addr orig)
    \<and> breakpoints t = b # map (\<lambda>c. if bp_addr c = bp_addr orig then c\<lparr>reinserting := True\<rparr> else c) (breakpoints s)"
proof -
  from set_breakpoint_at_keeps [OF ok cl m] obtain s1 b where
    s1: "set_breakpoint_at T stop_at (Some Reinsert_breakpoint_handler) s = (Ret (), s1)"
      "keeps_memory view mapped s s1" "breakpoints s1 = b # breakpoints s" "bp_addr b = bp_brk s"
      "bp_pc b = stop_at" "\<not> reinserting b" "handler b = Some Reinsert_breakpoint_handler"
    by blast
  obtain d where d: "bps_ok (breakpoint_len s) d (bp_brk s) (view s) (mapped s) (breakpoints s)"
    using ok by (rule bp_okE)
  have oin: "orig \<in> set (breakpoints s)" "bp_pc orig = stop_pc" using find_breakpoint_at_Some [OF o] by auto
  have addrs: "\<forall>c \<in> set (breakpoints s). bp_addr c \<noteq> bp_brk s" using bps_ok_mem(1) [OF d] by fastforce
  have ne: "stop_at \<noteq> stop_pc"
    using cl oin bps_okD(1) [OF d] by (fastforce simp: clear_of_def list_all_iff)
  define b' where "b' = b\<lparr>breakpoint_to_reinsert := Some (bp_addr orig)\<rparr>"
  have fo: "find_breakpoint_at stop_pc (breakpoints s1) = Some orig"
    "find_breakpoint_at stop_at (breakpoints s1) = Some b"
    using o ne s1(3,5) by (simp_all add: find_breakpoint_at_def)
  let ?s2 = "s1\<lparr>breakpoints := b' # breakpoints s\<rparr>"
  have link: "map (\<lambda>c. if bp_addr c = bp_addr b then c\<lparr>breakpoint_to_reinsert := Some (bp_addr orig)\<rparr> else c)
      (breakpoints s1) = b' # breakpoints s"
    using addrs s1(3,4) by (auto simp: b'_def intro: map_idI)
  have "bp_ok view mapped s1" using s1(2) by (simp add: keeps_memory_def)
  from link_keeps [OF this, of "bp_addr b" "Some (bp_addr orig)"]
  have s2: "keeps_memory view mapped s ?s2"
    unfolding link by (rule keeps_memory_trans [OF s1(2)])
  then have ok2: "bp_ok view mapped ?s2" by (simp add: keeps_memory_def)
  from old_of_bp [OF ok2, of orig] oin obtain k where
    k: "write_old T orig ?s2 = (Ret (), ?s2\<lparr>kst := k\<rparr>)"
      "keeps_memory view mapped ?s2 (?s2\<lparr>kst := k, breakpoints :=
        map (\<lambda>c. if bp_addr c = bp_addr orig then c\<lparr>reinserting := True\<rparr> else c) (b' # breakpoints s)\<rparr>)"
    by auto
  have "bp_addr b' \<noteq> bp_addr orig" using addrs oin s1(4) by (auto simp: b'_def)
  then have mp: "map (\<lambda>c. if bp_addr c = bp_addr orig then c\<lparr>reinserting := True\<rparr> else c) (b' # breakpoints s)
      = b' # map (\<lambda>c. if bp_addr c = bp_addr orig then c\<lparr>reinserting := True\<rparr> else c) (breakpoints s)"
    by simp
  note t = keeps_memory_trans [OF s2 k(2) [unfolded mp]]
  have "reinsert_breakpoint_by_bp T stop_pc stop_at s = (Ret (), ?s2\<lparr>kst := k, breakpoints :=
      b' # map (\<lambda>c. if bp_addr c = bp_addr orig then c\<lparr>reinserting := True\<rparr> else c) (breakpoints s)\<rparr>)"
    using \<open>bp_addr b' \<noteq> bp_addr orig\<close> k(1) link
    by (simp add: reinsert_breakpoint_by_bp_def prog_simps s1(1) fo upd_bp_def)
  with t show ?thesis
    by (intro exI [of _ b'] exI conjI) (assumption, use s1(4-7) in \<open>simp_all add: b'_def\<close>)
qed

lemma hit_reinserts:
  assumes ok: "bp_ok view mapped s" and b: "find_breakpoint_at a (breakpoints s) = Some b"
    and h: "handler b = Some Reinsert_breakpoint_handler" "\<not> reinserting b"
    and o: "breakpoint_to_reinsert b = Some (bp_addr orig)" "orig \<in> set (breakpoints s)"
      "bp_addr orig \<noteq> bp_addr b"
  shows "\<exists>t. check_breakpoints T a s = (Ret True, t) \<and> keeps_memory view mapped s t
    \<and> breakpoints t = map (\<lambda>c. if bp_addr c = bp_addr orig then c\<lparr>reinserting := False\<rparr> else c)
        (filter (\<lambda>c. bp_addr c \<noteq> bp_addr b) (breakpoints s))"
proof -
  let ?f = "\<lambda>c. if bp_addr c = bp_addr orig then c\<lparr>reinserting := False\<rparr> else c"
  obtain d where d: "bps_ok (breakpoint_len s) d (bp_brk s) (view s) (mapped s) (breakpoints s)"
    using ok by (rule bp_okE)
  have bin: "b \<in> set (breakpoints s)" "bp_pc b = a" using find_breakpoint_at_Some [OF b] by auto
  from trap_of_bp [OF ok o(2)] obtain k where
    k: "write_trap T (bp_pc orig) s = (Ret (), s\<lparr>kst := k\<rparr>)"
      "keeps_memory view mapped s (s\<lparr>kst := k, breakpoints := map ?f (breakpoints s)\<rparr>)"
    by auto
  let ?s1 = "s\<lparr>kst := k, breakpoints := map ?f (breakpoints s)\<rparr>"
  have ok1: "bp_ok view mapped ?s1" using k(2) by (simp add: keeps_memory_def)
  have "?f b = b" using o(3) by simp
  then have b1: "b \<in> set (breakpoints ?s1)" using bin(1) by (force simp: image_iff)
  from delete_breakpoint_keeps [OF ok1 b1] obtain t where
    t: "delete_breakpoint T (bp_addr b) ?s1 = (Ret (), t)" "keeps_memory view mapped ?s1 t"
      "breakpoints t = filter (\<lambda>c. bp_addr c \<noteq> bp_addr b) (map ?f (breakpoints s))"
    by auto
  have "check_breakpoints T a s = (Ret True, t)"
    using b h o bin k(1) t(1) lookup_bp_distinct [OF bps_okD(5) [OF d] o(2)]
    by (simp add: check_breakpoints_def reinsert_breakpoint_handler_def prog_simps upd_bp_def)
  moreover have "filter (\<lambda>c. bp_addr c \<noteq> bp_addr b) (map ?f (breakpoints s)) =
      map ?f (filter (\<lambda>c. bp_addr c \<noteq> bp_addr b) (breakpoints s))"
    by (simp add: filter_map comp_def cong: filter_cong if_cong) (metis (mono_tags, lifting))
  ultimately show ?thesis using keeps_memory_trans [OF k(2) t(2)] t(3) by auto
qed

end

end
