(* ===== verification/DarwinMemory.thy ===== *)
theory DarwinMemory
  imports ShadowOps
begin

section \<open>Darwin memory meets the contract\<close>

text \<open>
  \<open>kernel_memory\<close> states what the Mach calls for memory are documented to do; under it
  \<^verbatim>\<open>darwin_read_memory\<close> and \<^verbatim>\<open>darwin_write_memory\<close> fulfil \<open>memory_target\<close>, the second by changing
  the protection of pages it cannot write to.
\<close>

locale kernel_memory =
  fixes K :: "'k kernel"
    and mem :: "'k \<Rightarrow> nat \<Rightarrow> int \<Rightarrow> byte"
    and maps :: "'k \<Rightarrow> nat \<Rightarrow> int set"
    and writable :: "'k \<Rightarrow> nat \<Rightarrow> int set"
  assumes maps_space: "maps k task \<subseteq> {0..<4294967296}"
    and vm_read: "{a..<a + int n} \<subseteq> maps k task \<Longrightarrow>
      \<exists>k'. k_vm_read K task a n k = (Some (mem_bytes (mem k task) a n), k')
        \<and> mem k' = mem k \<and> maps k' = maps k"
    and vm_write: "{a..<a + int (length bs)} \<subseteq> maps k task \<Longrightarrow>
      \<exists>ok k'. k_vm_write K task a bs k = (ok, k') \<and> maps k' = maps k
        \<and> mem k' task = (if ok then write_bytes (mem k task) a bs else mem k task)"
    and vm_write_ok: "{a..<a + int (length bs)} \<subseteq> writable k task \<Longrightarrow> fst (k_vm_write K task a bs k)"
    and vm_protect: "{a..<a + int n} \<subseteq> maps k task \<Longrightarrow>
      \<exists>k'. k_vm_protect K task a n k = (True, k') \<and> {a..<a + int n} \<subseteq> writable k' task
        \<and> mem k' = mem k \<and> maps k' = maps k"

definition task_mem ::
  "('k \<Rightarrow> nat \<Rightarrow> int \<Rightarrow> byte) \<Rightarrow> ('k, 'z) membreak_state_scheme \<Rightarrow> int \<Rightarrow> byte" where
  "task_mem mem s = mem (kst s) (current_task s)"

definition task_maps ::
  "('k \<Rightarrow> nat \<Rightarrow> int set) \<Rightarrow> ('k, 'z) membreak_state_scheme \<Rightarrow> int set" where
  "task_maps maps s = (if current_task s = MACH_PORT_NULL then {} else maps (kst s) (current_task s))"

lemma vm_address_range:
  assumes "{a..<a + int n} \<subseteq> {0..<4294967296}" and "0 < n"
  shows "vm_address a = a"
proof -
  have "a \<in> {0..<4294967296}" using assms by auto
  then show ?thesis by (simp add: vm_address_def)
qed

lemma darwin_ops_memory [simp]:
  "read_memory (darwin_ops K) = darwin_read_memory K"
  "write_memory (darwin_ops K) = darwin_write_memory K"
  by (simp_all add: darwin_ops_def)

context kernel_memory
begin

lemma darwin_read:
  assumes "{a..<a + int n} \<subseteq> task_maps maps s"
  shows "\<exists>k. darwin_read_memory K a n s = (Ret (mem_bytes (task_mem mem s) a n), s\<lparr>kst := k\<rparr>)
    \<and> mem k = mem (kst s) \<and> maps k = maps (kst s)"
proof (cases "current_task s = MACH_PORT_NULL")
  case True
  with assms have "n = 0" by (simp add: task_maps_def)
  with True show ?thesis
    by (intro exI [of _ "kst s"]) (simp add: darwin_read_memory_def mem_bytes_def)
next
  case False
  have m: "{a..<a + int n} \<subseteq> maps (kst s) (current_task s)" using assms False by (simp add: task_maps_def)
  have va: "n = 0 \<or> vm_address a = a"
    using vm_address_range [OF order_trans [OF m maps_space]] by blast
  have "{vm_address a..<vm_address a + int n} \<subseteq> maps (kst s) (current_task s)"
    using m va by auto
  from vm_read [OF this] obtain k where
    k: "k_vm_read K (current_task s) (vm_address a) n (kst s) =
        (Some (mem_bytes (mem (kst s) (current_task s)) (vm_address a) n), k)"
      "mem k = mem (kst s)" "maps k = maps (kst s)" by blast
  have "mem_bytes (mem (kst s) (current_task s)) (vm_address a) n = mem_bytes (task_mem mem s) a n"
    using va by (auto simp: task_mem_def mem_bytes_def)
  with k False show ?thesis
    by (auto simp: darwin_read_memory_def prog_simps kcall_def)
qed

lemma darwin_write:
  assumes "{a..<a + int (length bs)} \<subseteq> task_maps maps s" and "bs \<noteq> []"
  shows "\<exists>k. darwin_write_memory K a bs s = (Ret 0, s\<lparr>kst := k\<rparr>)
    \<and> mem k (current_task s) = write_bytes (task_mem mem s) a bs \<and> maps k = maps (kst s)"
proof -
  let ?task = "current_task s"
  have nn: "?task \<noteq> MACH_PORT_NULL" using assms by (auto simp: task_maps_def split: if_splits)
  have m: "{a..<a + int (length bs)} \<subseteq> maps (kst s) ?task" using assms nn by (simp add: task_maps_def)
  have va: "vm_address a = a"
    using vm_address_range [of a "length bs"] m maps_space [of "kst s" ?task] assms(2) by blast
  obtain ok1 k1 where w1: "k_vm_write K ?task a bs (kst s) = (ok1, k1)" "maps k1 = maps (kst s)"
      "mem k1 ?task = (if ok1 then write_bytes (mem (kst s) ?task) a bs else mem (kst s) ?task)"
    using vm_write [OF m] by blast
  show ?thesis
  proof (cases ok1)
    case True
    then show ?thesis
      using w1 nn by (auto simp: darwin_write_memory_def prog_simps kcall_def va task_mem_def)
  next
    case False
    have m1: "{a..<a + int (length bs)} \<subseteq> maps k1 ?task" using m w1 by simp
    from vm_protect [OF m1] obtain k2 where
      p: "k_vm_protect K ?task a (length bs) k1 = (True, k2)"
        "{a..<a + int (length bs)} \<subseteq> writable k2 ?task" "mem k2 = mem k1" "maps k2 = maps k1"
      by blast
    from vm_write [of a bs k2 ?task] vm_write_ok [OF p(2)] m1 p(4) obtain k3 where
      "k_vm_write K ?task a bs k2 = (True, k3)" "maps k3 = maps k2"
        "mem k3 ?task = write_bytes (mem k2 ?task) a bs"
      by fastforce
    then show ?thesis
      using w1 p False nn by (auto simp: darwin_write_memory_def prog_simps kcall_def va task_mem_def)
  qed
qed

end

sublocale kernel_memory \<subseteq> memory_target "darwin_ops K" "task_mem mem" "task_maps maps"
proof unfold_locales
  fix a :: int and n and s :: "('k, 'z) membreak_state_scheme"
  assume "{a..<a + int n} \<subseteq> task_maps maps s"
  from darwin_read [OF this] show "\<exists>k. read_memory (darwin_ops K) a n s =
      (Ret (mem_bytes (task_mem mem s) a n), s\<lparr>kst := k\<rparr>)
      \<and> task_mem mem (s\<lparr>kst := k\<rparr>) = task_mem mem s \<and> task_maps maps (s\<lparr>kst := k\<rparr>) = task_maps maps s"
    by (auto simp: task_mem_def task_maps_def)
next
  fix a :: int and bs :: "byte list" and s :: "('k, 'z) membreak_state_scheme"
  assume "bs \<noteq> []" "{a..<a + int (length bs)} \<subseteq> task_maps maps s"
  from darwin_write [OF this(2,1)] show "\<exists>k. write_memory (darwin_ops K) a bs s = (Ret 0, s\<lparr>kst := k\<rparr>)
      \<and> task_mem mem (s\<lparr>kst := k\<rparr>) = write_bytes (task_mem mem s) a bs
      \<and> task_maps maps (s\<lparr>kst := k\<rparr>) = task_maps maps s"
    by (auto simp: task_mem_def task_maps_def)
next
  fix s :: "('k, 'z) membreak_state_scheme"
  show "task_maps maps s \<subseteq> {0..<4294967296}" using maps_space by (simp add: task_maps_def)
qed (simp_all add: task_mem_def task_maps_def)

end
