(* ===== verification/FlatKernel.thy ===== *)
theory FlatKernel
  imports DarwinMemory
begin

section \<open>A small kernel\<close>

text \<open>
  A concrete kernel to run the definitions on: one task with a flat memory in the lower half of the address
  space, some of it write protected, registers for every thread port, and a list of results for \<^verbatim>\<open>waitpid\<close>.
  It fulfils \<open>kernel_memory\<close>, so the contract can be met.
\<close>

record flat =
  fl_mem :: "int \<Rightarrow> byte"
  fl_protected :: "int \<Rightarrow> bool"
  fl_regs :: "nat \<Rightarrow> ppc_thread_state"
  fl_fregs :: "nat \<Rightarrow> ppc_float_state"
  fl_waits :: "wait_result list"
  fl_log :: "(ptrace_request \<times> int \<times> 32 word) list"

definition fl_range :: "int \<Rightarrow> nat \<Rightarrow> bool" where
  "fl_range a n \<longleftrightarrow> n = 0 \<or> 0 \<le> a \<and> a + int n \<le> 2147483648"

definition flat_kernel :: "flat kernel" where
  "flat_kernel = \<lparr>
     k_spawn = (\<lambda>prg args k. (100, k)),
     k_task_for_pid = (\<lambda>pid k. (Some 7, k)),
     k_task_threads = (\<lambda>task k. (Some [9], k)),
     k_ptrace = (\<lambda>req pid addr data k.
        if req = PT_READ_D \<or> req = PT_WRITE_D then
          if \<not> fl_range addr 4 then ((- 1, 14), k)
          else if req = PT_READ_D then ((of_be32 (mem_bytes (fl_mem k) addr 4), 0), k)
          else ((0, 0), k\<lparr>fl_mem := write_bytes (fl_mem k) addr (be32 data)\<rparr>)
        else ((0, 0), k\<lparr>fl_log := (req, pid, data) # fl_log k\<rparr>)),
     k_waitpid = (\<lambda>pid k. case fl_waits k of [] \<Rightarrow> (WaitFailed ECHILD, k)
        | w # ws \<Rightarrow> (w, k\<lparr>fl_waits := ws\<rparr>)),
     k_kill = (\<lambda>pid sig k. (pid = 100, k)),
     k_vm_read = (\<lambda>task a n k. (if fl_range a n then Some (mem_bytes (fl_mem k) a n) else None, k)),
     k_vm_write = (\<lambda>task a bs k.
        if fl_range a (length bs) \<and> list_all (\<lambda>i. \<not> fl_protected k (a + int i)) [0..<length bs]
        then (True, k\<lparr>fl_mem := write_bytes (fl_mem k) a bs\<rparr>) else (False, k)),
     k_vm_protect = (\<lambda>task a n k.
        if fl_range a n
        then (True, k\<lparr>fl_protected := (\<lambda>x. fl_protected k x \<and> \<not> (a \<le> x \<and> x < a + int n))\<rparr>)
        else (False, k)),
     k_get_state = (\<lambda>thread k. (Some (fl_regs k thread), k)),
     k_set_state = (\<lambda>thread st k. (True, k\<lparr>fl_regs := (fl_regs k)(thread := st)\<rparr>)),
     k_get_float = (\<lambda>thread k. (Some (fl_fregs k thread), k)),
     k_set_float = (\<lambda>thread st k. (True, k\<lparr>fl_fregs := (fl_fregs k)(thread := st)\<rparr>))\<rparr>"

definition flat_mem :: "flat \<Rightarrow> nat \<Rightarrow> int \<Rightarrow> byte" where
  "flat_mem k task = fl_mem k"

definition flat_maps :: "flat \<Rightarrow> nat \<Rightarrow> int set" where
  "flat_maps k task = {0..<2147483648}"

definition flat_writable :: "flat \<Rightarrow> nat \<Rightarrow> int set" where
  "flat_writable k task = {x. 0 \<le> x \<and> x < 2147483648 \<and> \<not> fl_protected k x}"

lemma fl_range_iff: "fl_range a n \<longleftrightarrow> {a..<a + int n} \<subseteq> {0..<2147483648}"
  by (cases "n = 0") (auto simp: fl_range_def)

interpretation flat: kernel_memory flat_kernel flat_mem flat_maps flat_writable
proof unfold_locales
  fix k task show "flat_maps k task \<subseteq> {0..<4294967296}" by (auto simp: flat_maps_def)
next
  fix a n k task assume "{a..<a + int n} \<subseteq> flat_maps k task"
  then show "\<exists>k'. k_vm_read flat_kernel task a n k = (Some (mem_bytes (flat_mem k task) a n), k')
      \<and> flat_mem k' = flat_mem k \<and> flat_maps k' = flat_maps k"
    by (simp only: flat_maps_def fl_range_iff [symmetric]) (simp add: flat_kernel_def flat_mem_def)
next
  fix a k task and bs :: "byte list" assume "{a..<a + int (length bs)} \<subseteq> flat_maps k task"
  show "\<exists>ok k'. k_vm_write flat_kernel task a bs k = (ok, k') \<and> flat_maps k' = flat_maps k
      \<and> flat_mem k' task = (if ok then write_bytes (flat_mem k task) a bs else flat_mem k task)"
    by (cases "k_vm_write flat_kernel task a bs k")
      (auto simp: flat_kernel_def flat_mem_def flat_maps_def fun_eq_iff split: if_splits)
next
  fix a k task and bs :: "byte list" assume w: "{a..<a + int (length bs)} \<subseteq> flat_writable k task"
  have "flat_writable k task \<subseteq> {0..<2147483648}" by (auto simp: flat_writable_def)
  with w have "fl_range a (length bs)" unfolding fl_range_iff by (rule order_trans)
  moreover have "list_all (\<lambda>i. \<not> fl_protected k (a + int i)) [0..<length bs]"
    unfolding list_all_iff
  proof
    fix i assume "i \<in> set [0..<length bs]"
    then have "a + int i \<in> {a..<a + int (length bs)}" by simp
    with w have "a + int i \<in> flat_writable k task" by blast
    then show "\<not> fl_protected k (a + int i)" by (simp add: flat_writable_def)
  qed
  ultimately show "fst (k_vm_write flat_kernel task a bs k)" by (simp add: flat_kernel_def)
next
  fix a n k task assume "{a..<a + int n} \<subseteq> flat_maps k task"
  then show "\<exists>k'. k_vm_protect flat_kernel task a n k = (True, k')
      \<and> {a..<a + int n} \<subseteq> flat_writable k' task \<and> flat_mem k' = flat_mem k \<and> flat_maps k' = flat_maps k"
    by (simp only: flat_maps_def fl_range_iff [symmetric])
      (auto simp: flat_kernel_def flat_mem_def flat_maps_def flat_writable_def fl_range_def fun_eq_iff)
qed

end
