(* ===== verification/Target.thy ===== *)
theory Target
  imports FlatKernel
begin

section \<open>Choosing a thread, waiting (src/target.c)\<close>

text \<open>
  The client's choice of threads is in globals of src/server.c that src/target.c reads; \<^verbatim>\<open>the_target\<close>
  is the argument \<open>T\<close> of the definitions.  \<open>chosen_thread\<close> says which thread a request is about.
\<close>

record 'k target_state = "'k membreak_state" +
  cont_thread :: int
  general_thread :: int
  step_thread :: int
  thread_from_wait :: int
  old_thread_from_wait :: int
  server_waiting :: bool

definition desired_inferior :: "bool \<Rightarrow> ('k, 'z) target_state_scheme \<Rightarrow> nat option outcome" where
  \<comment> \<open>\<^verbatim>\<open>found\<close>\<close>
  "desired_inferior use_general s =
     (if use_general then find_inferior_id (entries s) (all_threads s) (general_thread s)
      else
        bind_o
          (if step_thread s > 0 \<and> (cont_thread s = 0 \<or> cont_thread s = - 1)
           then find_inferior_id (entries s) (all_threads s) (step_thread s) else Ret None)
          (\<lambda>found.
           if found = None then find_inferior_id (entries s) (all_threads s) (cont_thread s)
           else Ret found))"

definition set_desired_inferior :: "bool \<Rightarrow> (('k, 'z) target_state_scheme, unit) prog" where
  "set_desired_inferior use_general =
     bind_p (gets_p (desired_inferior use_general)) (\<lambda>r.
     bind_p (outcome_p r) (\<lambda>found.
     modify_p (\<lambda>s. s\<lparr>current_inferior := (case found of None \<Rightarrow> head (all_threads s) | Some p \<Rightarrow> Some p)\<rparr>)))"

definition mywait ::
  "('k, 'z) target_state_scheme target_ops \<Rightarrow> bool \<Rightarrow> (('k, 'z) target_state_scheme, char \<times> byte) prog"
where
  \<comment> \<open>\<^verbatim>\<open>*statusp\<close> and the result\<close>
  "mywait T connected_wait =
     seq_p (when_p connected_wait (modify_p (\<lambda>s. s\<lparr>server_waiting := True\<rparr>)))
     (bind_p (t_wait T) (\<lambda>ret.
     seq_p (when_p connected_wait (modify_p (\<lambda>s. s\<lparr>server_waiting := False\<rparr>)))
       (return_p ret)))"

subsection \<open>Facts\<close>

definition first_with_id :: "heap \<Rightarrow> int \<Rightarrow> nat list \<Rightarrow> nat option" where
  "first_with_id h i ts = List.find (\<lambda>a. id_at h a = i) ts"

definition wished_thread :: "bool \<Rightarrow> ('k, 'z) target_state_scheme \<Rightarrow> nat list \<Rightarrow> nat option" where
  "wished_thread use_general s ts =
     (let pick = (\<lambda>i. first_with_id (entries s) i ts)
      in if use_general then pick (general_thread s)
         else if step_thread s > 0 \<and> cont_thread s \<in> {0, - 1} \<and> pick (step_thread s) \<noteq> None
           then pick (step_thread s)
         else pick (cont_thread s))"

definition chosen_thread :: "bool \<Rightarrow> ('k, 'z) target_state_scheme \<Rightarrow> nat list \<Rightarrow> nat option" where
  \<comment> \<open>the thread of a request, from the list of threads; the first one when none fits\<close>
  "chosen_thread use_general s ts =
     (case wished_thread use_general s ts of
        Some a \<Rightarrow> Some a
      | None \<Rightarrow> (case ts of [] \<Rightarrow> None | t # _ \<Rightarrow> Some t))"

lemma desired_inferior_eq:
  assumes "wf_list (entries s) (all_threads s) ts"
  shows "desired_inferior use_general s = Ret (wished_thread use_general s ts)"
proof -
  have f: "find_inferior_id (entries s) (all_threads s) i = Ret (first_with_id (entries s) i ts)" for i
    using find_inferior_id_refines [OF assms] by (simp add: first_with_id_def)
  show ?thesis by (auto simp: desired_inferior_def f wished_thread_def Let_def)
qed

lemma set_desired_inferior_eq:
  assumes "wf_list (entries s) (all_threads s) ts"
  shows "set_desired_inferior use_general s =
    (Ret (), s\<lparr>current_inferior := chosen_thread use_general s ts\<rparr>)"
  using wf_list_head [OF assms]
  by (simp add: set_desired_inferior_def desired_inferior_eq [OF assms] chosen_thread_def
      split: option.split)

lemma chosen_thread_in: "chosen_thread g s ts = Some a \<Longrightarrow> a \<in> set ts"
  by (auto simp: chosen_thread_def wished_thread_def first_with_id_def Let_def find_Some_iff
      split: if_splits list.splits option.splits)

lemma chosen_thread_some: "ts \<noteq> [] \<Longrightarrow> \<exists>a. chosen_thread g s ts = Some a"
  by (auto simp: chosen_thread_def neq_Nil_conv split: option.split)

end
