(* ===== verification/Packets.thy ===== *)
theory Packets
  imports Hex
begin

section \<open>Packets on the connection (src/remote-utils.c)\<close>

text \<open>
  The connection is what the operating system will deliver and accept: \<open>rx\<close> is the list of results
  of the coming reads (a read takes at most one chunk; after the last one the peer has closed),
  \<open>tx\<close> is what was sent, and \<open>tx_script\<close> says how many bytes the coming writes accept (all of them,
  once it is empty).  \<open>rc_buf\<close> is what is left in the static buffer of \<^verbatim>\<open>readchar\<close>.  The functions
  here work on the connection and on the caller's buffer; src/Remote ties them to the state.
  All loops end because every turn takes a character from what is pending.
\<close>

datatype rx_event = Rx_bytes string | Rx_error

record net =
  rc_buf :: string
  rx :: "rx_event list"
  tx :: string
  tx_script :: "nat list"

definition BUFSIZ :: nat where "BUFSIZ = 1024"

subsection \<open>System calls on the connection\<close>

definition sock_read :: "nat \<Rightarrow> net \<Rightarrow> int \<times> string \<times> net" where
  \<comment> \<open>\<^verbatim>\<open>read (remote_desc, buf, n)\<close>: the result and the bytes\<close>
  "sock_read n nt = (case rx nt of
      [] \<Rightarrow> (0, [], nt)
    | Rx_error # r \<Rightarrow> (- 1, [], nt\<lparr>rx := r\<rparr>)
    | Rx_bytes bs # r \<Rightarrow>
        (int (length (take n bs)), take n bs,
         nt\<lparr>rx := (if drop n bs = [] then r else Rx_bytes (drop n bs) # r)\<rparr>))"

definition sock_write :: "string \<Rightarrow> net \<Rightarrow> int \<times> net" where
  "sock_write data nt = (case tx_script nt of
      [] \<Rightarrow> (int (length data), nt\<lparr>tx := tx nt @ data\<rparr>)
    | n # ns \<Rightarrow> (int (length (take n data)), nt\<lparr>tx := tx nt @ take n data, tx_script := ns\<rparr>))"

definition readchar :: "net \<Rightarrow> int \<times> net" where
  "readchar nt = (case rc_buf nt of
      c # cs \<Rightarrow> (of_char c AND 127, nt\<lparr>rc_buf := cs\<rparr>)
    | [] \<Rightarrow>
        (let (bufcnt, data, nt') = sock_read BUFSIZ nt
         in case data of
              [] \<Rightarrow> (- 1, nt')
            | c # cs \<Rightarrow> (of_char c AND 127, nt'\<lparr>rc_buf := cs\<rparr>)))"

fun event_size :: "rx_event \<Rightarrow> nat" where
  "event_size (Rx_bytes bs) = Suc (length bs)"
| "event_size Rx_error = 1"

definition pending :: "net \<Rightarrow> nat" where
  "pending nt = length (rc_buf nt) + sum_list (map event_size (rx nt))"

lemma sock_read_pending:
  "sock_read n nt = (k, d, nt') \<Longrightarrow> d \<noteq> [] \<Longrightarrow> pending nt' + length d \<le> pending nt \<and> rc_buf nt' = rc_buf nt"
  by (auto simp: sock_read_def pending_def split: list.splits rx_event.splits)

lemma sock_read_positive: "sock_read n nt = (k, d, nt') \<Longrightarrow> k > 0 \<longleftrightarrow> d \<noteq> []"
  by (auto simp: sock_read_def split: list.splits rx_event.splits)

lemma sock_write_fields [simp]:
  "pending (snd (sock_write d nt)) = pending nt" "rx (snd (sock_write d nt)) = rx nt"
  "rc_buf (snd (sock_write d nt)) = rc_buf nt"
  by (auto simp: sock_write_def pending_def split: list.splits)

lemma readchar_pending:
  assumes "readchar nt = (c, nt')" and "0 \<le> c"
  shows "pending nt' < pending nt"
proof (cases "rc_buf nt")
  case Nil
  obtain k d nt1 where r: "sock_read BUFSIZ nt = (k, d, nt1)" by (cases "sock_read BUFSIZ nt")
  with Nil assms obtain c' cs where "d = c' # cs" "nt' = nt1\<lparr>rc_buf := cs\<rparr>"
    by (auto simp: readchar_def split: list.splits)
  with sock_read_pending [OF r] Nil show ?thesis by (simp add: pending_def)
qed (use assms in \<open>auto simp: readchar_def pending_def\<close>)

subsection \<open>Receiving a packet\<close>

function scan_start :: "net \<Rightarrow> bool \<times> net" where
  \<comment> \<open>the loop that looks for the dollar sign\<close>
  "scan_start nt =
     (let (c, nt') = readchar nt
      in if c = 36 then (True, nt') else if c < 0 then (False, nt') else scan_start nt')"
  by pat_completeness auto
termination by (relation "measure pending") (auto intro: readchar_pending [OF sym])

declare scan_start.simps [simp del]

datatype body = Body_eof | Body_overflow | Body_end nat byte

function read_body :: "string \<Rightarrow> nat \<Rightarrow> byte \<Rightarrow> net \<Rightarrow> body \<times> string \<times> net" where
  \<comment> \<open>the loop up to the hash sign; \<^verbatim>\<open>*bp++ = c\<close> has no bound\<close>
  "read_body buf pos csum nt =
     (let (c, nt') = readchar nt
      in if c < 0 then (Body_eof, buf, nt')
         else if c = 35 then (Body_end pos csum, buf, nt')
         else if length buf \<le> pos then (Body_overflow, buf, nt')
         else read_body (buf[pos := char_of_int c]) (Suc pos) (csum + word_of_int c) nt')"
  by pat_completeness auto
termination by (relation "measure (\<lambda>(_, _, _, nt). pending nt)") (auto intro: readchar_pending [OF sym])

declare read_body.simps [simp del]

lemma scan_start_pending: "scan_start nt = (True, nt') \<Longrightarrow> pending nt' < pending nt"
proof (induction nt rule: scan_start.induct)
  case (1 nt)
  obtain c nt1 where r: "readchar nt = (c, nt1)" by fastforce
  with 1 readchar_pending [OF r] show ?case
    by (subst (asm) (2) scan_start.simps) (fastforce split: if_splits)
qed

lemma read_body_pending:
  "read_body buf pos csum nt = (Body_end n s, buf', nt') \<Longrightarrow> pending nt' < pending nt"
proof (induction buf pos csum nt rule: read_body.induct)
  case (1 buf pos csum nt)
  obtain c nt1 where r: "readchar nt = (c, nt1)" by fastforce
  with 1 readchar_pending [OF r] show ?case
    by (subst (asm) (2) read_body.simps) (fastforce split: if_splits)
qed

lemma readchar_pending_le: "pending (snd (readchar nt)) \<le> pending nt"
proof (cases "0 \<le> fst (readchar nt)")
  case True
  then show ?thesis using readchar_pending [of nt "fst (readchar nt)" "snd (readchar nt)"] by simp
next
  case False
  then show ?thesis
    by (auto simp: readchar_def sock_read_def pending_def split: list.splits rx_event.splits prod.splits)
qed

lemma getpkt_turn_pending:
  assumes "scan_start nt = (True, nt1)" and "read_body buf 0 0 nt1 = (Body_end n s, buf1, nt2)"
    and "readchar nt2 = (d1, nt3)" and "readchar nt3 = (d2, nt4)"
  shows "pending nt4 < pending nt"
  using scan_start_pending [OF assms(1)] read_body_pending [OF assms(2)] readchar_pending_le [of nt2]
    readchar_pending_le [of nt3] assms(3,4) by simp

function getpkt_loop :: "string \<Rightarrow> net \<Rightarrow> int outcome \<times> string \<times> net" where
  "getpkt_loop buf nt =
     (case scan_start nt of
        (False, nt1) \<Rightarrow> (Ret (- 1), buf, nt1)
      | (True, nt1) \<Rightarrow>
          (case read_body buf 0 0 nt1 of
             (Body_eof, buf1, nt2) \<Rightarrow> (Ret (- 1), buf1, nt2)
           | (Body_overflow, buf1, nt2) \<Rightarrow> (Fault, buf1, nt2)
           | (Body_end n csum, buf1, nt2) \<Rightarrow>
               if length buf1 \<le> n then (Fault, buf1, nt2)
               else
                 (let buf2 = buf1[n := NUL];
                      (d1, nt3) = readchar nt2
                  in case fromhex d1 of
                       Ret c1 \<Rightarrow>
                         (let (d2, nt4) = readchar nt3
                          in case fromhex d2 of
                               Ret c2 \<Rightarrow>
                                 if uint csum = c1 * 16 + c2 then (Ret (int n), buf2, nt4)
                                 else getpkt_loop buf2 (snd (sock_write ''-'' nt4))
                             | e \<Rightarrow> (e, buf2, nt4))
                     | e \<Rightarrow> (e, buf2, nt3))))"
  by pat_completeness auto
termination
  by (relation "measure (\<lambda>(_, nt). pending nt)") (simp_all, metis getpkt_turn_pending)

declare getpkt_loop.simps [simp del]

definition getpkt :: "bool \<Rightarrow> string \<Rightarrow> net \<Rightarrow> int outcome \<times> string \<times> net" where
  "getpkt no_ack buf nt =
     (case getpkt_loop buf nt of
        (Ret n, buf', nt') \<Rightarrow>
          if n < 0 then (Ret n, buf', nt')
          else (Ret n, buf', if no_ack then nt' else snd (sock_write ''+'' nt'))
      | r \<Rightarrow> r)"

subsection \<open>Sending a packet\<close>

fun checksum :: "string \<Rightarrow> byte" where
  "checksum [] = 0"
| "checksum (c # s) = byte_of_char c + checksum s"

definition frame :: "string \<Rightarrow> string" where
  \<comment> \<open>what \<^verbatim>\<open>putpkt\<close> builds in \<^verbatim>\<open>buf2\<close>, without the NUL\<close>
  "frame s = ''$'' @ s @ ''#''
     @ [tohex (drop_bit 4 (uint (checksum s)) AND 15), tohex (uint (checksum s) AND 15)]"

definition SIGINT_num :: int where "SIGINT_num = 2"

lemma putpkt_turn_pending:
  assumes "sock_write buf2 nt = (n, nt1)" and "sock_read 1 nt1 = (cc, d, nt2)" and "d \<noteq> []"
  shows "pending nt2 < pending nt"
  using sock_write_fields(1) [of buf2 nt] sock_read_pending [OF assms(2,3)] assms(1,3) by (cases d) auto

function putpkt_loop ::
  "(int \<Rightarrow> ('s, unit) prog) \<Rightarrow> bool \<Rightarrow> string \<Rightarrow> net \<Rightarrow> ('s, int \<times> net) prog" where
  \<comment> \<open>sends until acknowledged.  The connection is threaded beside the state: sending a signal to the
    program does not touch it.\<close>
  "putpkt_loop send no_ack buf2 nt =
     (case sock_write buf2 nt of (n, nt1) \<Rightarrow>
        if n \<noteq> int (length buf2) then return_p (- 1, nt1)
        else if no_ack then return_p (1, nt1)
        else (case sock_read 1 nt1 of (cc, d, nt2) \<Rightarrow>
          if d = [] then return_p (- 1, nt2)
          else if hd d = CHR ''+'' then return_p (1, nt2)
          else if hd d = CHR 0x03
            then seq_p (send SIGINT_num) (putpkt_loop send no_ack buf2 nt2)
          else putpkt_loop send no_ack buf2 nt2))"
  by pat_completeness auto
termination
  by (relation "measure (\<lambda>(_, _, _, nt). pending nt)") (auto dest!: sym [of "(_, _)" "sock_write _ _"]
      sym [of "(_, _, _)" "sock_read _ _"] intro!: putpkt_turn_pending)

declare putpkt_loop.simps [simp del]

end
