(* ===== verification/Framing.thy ===== *)
theory Framing
  imports Packets
begin

section \<open>Framing: what goes out comes in\<close>

text \<open>
  The bytes that will be read, however the operating system cuts them into chunks, are the
  \<open>stream\<close> of a connection.  The lemmas give \<^verbatim>\<open>getpkt\<close> and \<^verbatim>\<open>putpkt\<close> as functions of the stream.
\<close>

fun flat_rx :: "rx_event list \<Rightarrow> string" where
  "flat_rx [] = []"
| "flat_rx (Rx_bytes bs # r) = (if bs = [] then [] else bs @ flat_rx r)"
| "flat_rx (Rx_error # r) = []"

definition stream :: "net \<Rightarrow> string" where
  "stream nt = rc_buf nt @ flat_rx (rx nt)"

definition same_out :: "net \<Rightarrow> net \<Rightarrow> bool" where
  "same_out nt nt' \<longleftrightarrow> tx nt' = tx nt \<and> tx_script nt' = tx_script nt"

definition c7 :: "char \<Rightarrow> char" where
  \<comment> \<open>a character without its top bit\<close>
  "c7 c = char_of (of_char c mod 128 :: nat)"

lemma same_out_refl [simp]: "same_out nt nt"
  by (simp add: same_out_def)

lemma same_out_trans: "same_out a b \<Longrightarrow> same_out b c \<Longrightarrow> same_out a c"
  by (simp add: same_out_def)

lemma of_char_and_127: "(of_char c AND 127 :: int) = of_char (c7 c)"
proof -
  have "(of_char c AND 127 :: int) = of_char c mod 128"
    using take_bit_eq_mask [of 7 "of_char c :: int"]
    by (simp add: mask_eq_exp_minus_1 take_bit_eq_mod)
  also have "\<dots> = int (of_char c mod 128)"
    by (simp only: zmod_int of_nat_of_char of_nat_numeral)
  also have "\<dots> = int (of_char (c7 c))"
    by (simp add: c7_def)
  finally show ?thesis by (simp only: of_nat_of_char)
qed

lemma c7_char: "char_of_int (of_char c AND 127) = c7 c"
  by (simp add: of_char_and_127 char_of_int_def)

lemma c7_ascii: "(of_char c :: nat) < 128 \<Longrightarrow> c7 c = c"
  by (simp add: c7_def)

lemma c7_literals [simp]: "c7 (CHR ''$'') = CHR ''$''" "c7 (CHR ''#'') = CHR ''#''"
  by (simp_all add: c7_ascii)

lemma of_char_c7_eq:
  "(of_char (c7 c) :: int) = of_char d \<longleftrightarrow> c7 c = d"
  by (metis of_char_eq_iff)

lemma flat_rx_read:
  assumes "flat_rx (rx nt) = c # cs" and "0 < n"
  shows "\<exists>d nt'. sock_read n nt = (int (Suc (length d)), c # d, nt') \<and> d @ flat_rx (rx nt') = cs
    \<and> same_out nt nt' \<and> rc_buf nt' = rc_buf nt \<and> length d < n"
proof (cases "rx nt")
  case (Cons e r)
  then obtain bs where e: "e = Rx_bytes bs" "bs \<noteq> []" "bs @ flat_rx r = c # cs"
    using assms(1) by (cases e) (auto split: if_splits)
  then obtain bs' where bs: "bs = c # bs'" by (cases bs) auto
  from assms(2) obtain m where n: "n = Suc m" by (cases n) auto
  have "take m bs' @ drop m bs' @ flat_rx r = cs"
    using e(3) bs by (simp flip: append_assoc)
  then show ?thesis
    using Cons e bs n by (auto simp: sock_read_def same_out_def)
qed (use assms in simp)

lemma flat_rx_read_end:
  assumes "flat_rx (rx nt) = []"
  shows "\<exists>k nt'. sock_read n nt = (k, [], nt') \<and> same_out nt nt'"
  using assms by (auto simp: sock_read_def same_out_def split: list.splits rx_event.splits if_splits)

lemma readchar_stream:
  assumes "stream nt = c # cs"
  shows "\<exists>nt'. readchar nt = (of_char (c7 c), nt') \<and> stream nt' = cs \<and> same_out nt nt'"
proof (cases "rc_buf nt")
  case Nil
  then have "flat_rx (rx nt) = c # cs" using assms by (simp add: stream_def)
  from flat_rx_read [OF this, of BUFSIZ] Nil show ?thesis
    by (auto simp: readchar_def stream_def of_char_and_127 same_out_def BUFSIZ_def)
qed (use assms in \<open>auto simp: readchar_def stream_def of_char_and_127 same_out_def\<close>)

lemma readchar_end:
  assumes "stream nt = []"
  shows "\<exists>nt'. readchar nt = (- 1, nt') \<and> same_out nt nt'"
  using assms flat_rx_read_end [of nt BUFSIZ]
  by (auto simp: readchar_def stream_def)

lemma sock_write_all:
  assumes "tx_script nt = []"
  shows "sock_write d nt = (int (length d), nt\<lparr>tx := tx nt @ d\<rparr>)"
  using assms by (simp add: sock_write_def)

lemma stream_tx [simp]: "stream (nt\<lparr>tx := t\<rparr>) = stream nt" "stream (nt\<lparr>tx_script := ws\<rparr>) = stream nt"
  by (simp_all add: stream_def)

lemma stream_sock_write [simp]: "stream (snd (sock_write d nt)) = stream nt"
  by (simp add: stream_def)

subsection \<open>Receiving\<close>

lemma of_char_int_nonneg [simp]: "0 \<le> (of_char c :: int)" "\<not> (of_char c :: int) < 0"
proof -
  have "(of_char c :: int) = int (of_char c)" by (simp only: of_nat_of_char)
  then show "0 \<le> (of_char c :: int)" "\<not> (of_char c :: int) < 0" by simp_all
qed

lemma of_char_dollar: "(of_char (c7 c) :: int) = 36 \<longleftrightarrow> c7 c = CHR ''$''"
  using of_char_c7_eq [of c "CHR ''$''"] by simp

lemma of_char_hash: "(of_char (c7 c) :: int) = 35 \<longleftrightarrow> c7 c = CHR ''#''"
  using of_char_c7_eq [of c "CHR ''#''"] by simp

lemma scan_start_stream:
  assumes "stream nt = junk @ CHR ''$'' # r" and "CHR ''$'' \<notin> c7 ` set junk"
  shows "\<exists>nt'. scan_start nt = (True, nt') \<and> stream nt' = r \<and> same_out nt nt'"
  using assms
proof (induction junk arbitrary: nt)
  case Nil
  then show ?case
    using readchar_stream [of nt "CHR ''$''" r] by (auto simp: scan_start.simps [of nt])
next
  case (Cons c junk)
  from readchar_stream [of nt c "junk @ CHR ''$'' # r"] Cons.prems obtain nt1 where
    r: "readchar nt = (of_char (c7 c), nt1)" "stream nt1 = junk @ CHR ''$'' # r" "same_out nt nt1" by auto
  from Cons.prems have "c7 c \<noteq> CHR ''$''" by auto
  with r have "scan_start nt = scan_start nt1"
    by (simp add: scan_start.simps [of nt] of_char_dollar)
  with Cons.IH [OF r(2)] Cons.prems r(3) show ?case using same_out_trans by fastforce
qed

lemma overwrite_step:
  assumes "pos < length buf"
  shows "overwrite (buf[pos := c]) (Suc pos) cs = overwrite buf pos (c # cs)"
  using assms by (simp add: overwrite_def take_Suc_conv_app_nth)

lemma byte_of_c7: "(word_of_int (of_char (c7 c)) :: byte) = byte_of_char (c7 c)"
proof -
  have "(of_char (c7 c) :: int) = int (of_char (c7 c))" "(of_char (c7 c) :: byte) = of_nat (of_char (c7 c))"
    by (rule of_nat_of_char [symmetric])+
  then show ?thesis by (simp only: byte_of_char_def of_int_of_nat_eq)
qed

lemma read_body_stream:
  assumes "stream nt = body @ CHR ''#'' # r" and "CHR ''#'' \<notin> c7 ` set body"
    and "pos + length body \<le> length buf"
  shows "\<exists>nt'. read_body buf pos cs nt = (Body_end (pos + length body) (cs + checksum (map c7 body)),
      overwrite buf pos (map c7 body), nt') \<and> stream nt' = r \<and> same_out nt nt'"
  using assms
proof (induction body arbitrary: nt buf pos cs)
  case Nil
  then show ?case
    using readchar_stream [of nt "CHR ''#''" r]
    by (auto simp: read_body.simps [of buf pos cs nt] overwrite_def)
next
  case (Cons c body)
  from readchar_stream [of nt c "body @ CHR ''#'' # r"] Cons.prems obtain nt1 where
    r: "readchar nt = (of_char (c7 c), nt1)" "stream nt1 = body @ CHR ''#'' # r" "same_out nt nt1" by auto
  from Cons.prems have ne: "c7 c \<noteq> CHR ''#''" and l: "pos < length buf" by auto
  have step: "read_body buf pos cs nt = read_body (buf[pos := c7 c]) (Suc pos) (cs + byte_of_char (c7 c)) nt1"
    using r(1) ne l by (simp add: read_body.simps [of buf pos] of_char_hash byte_of_c7 char_of_int_def)
  from Cons.IH [OF r(2), of "Suc pos" "buf[pos := c7 c]" "cs + byte_of_char (c7 c)"] Cons.prems(2,3)
  obtain nt' where
    "read_body (buf[pos := c7 c]) (Suc pos) (cs + byte_of_char (c7 c)) nt1 =
      (Body_end (Suc pos + length body) (cs + byte_of_char (c7 c) + checksum (map c7 body)),
       overwrite (buf[pos := c7 c]) (Suc pos) (map c7 body), nt')" "stream nt' = r" "same_out nt1 nt'"
    by auto
  with step r(3) l show ?case using same_out_trans by (auto simp: overwrite_step add.assoc)
qed

lemma read_body_overflow:
  assumes "stream nt = body @ r" and "CHR ''#'' \<notin> c7 ` set body" and "pos \<le> length buf"
    and "length buf < pos + length body"
  shows "\<exists>buf' nt'. read_body buf pos cs nt = (Body_overflow, buf', nt')"
  using assms
proof (induction body arbitrary: nt buf pos cs)
  case Nil then show ?case by simp
next
  case (Cons c body)
  from readchar_stream [of nt c "body @ r"] Cons.prems obtain nt1 where
    r: "readchar nt = (of_char (c7 c), nt1)" "stream nt1 = body @ r" by auto
  from Cons.prems have ne: "c7 c \<noteq> CHR ''#''" by auto
  show ?case
  proof (cases "length buf \<le> pos")
    case True
    with r ne show ?thesis by (simp add: read_body.simps [of buf pos] of_char_hash)
  next
    case False
    then have "read_body buf pos cs nt = read_body (buf[pos := c7 c]) (Suc pos) (cs + byte_of_char (c7 c)) nt1"
      using r(1) ne by (simp add: read_body.simps [of buf pos] of_char_hash byte_of_c7 char_of_int_def)
    with Cons.IH [OF r(2), of "Suc pos" "buf[pos := c7 c]"] Cons.prems False show ?thesis by simp
  qed
qed

lemma fromhex_c7_digit: "d < 16 \<Longrightarrow> fromhex (of_char (c7 (hex_digit d))) = Ret (int d)"
proof -
  assume d: "d < 16"
  have a: "of_char (hex_digit d) = (if d < 10 then 48 + d else 87 + d)" by (rule of_char_hex_digit [OF d])
  then have "c7 (hex_digit d) = hex_digit d" using d by (intro c7_ascii) auto
  moreover have "(of_char (hex_digit d) :: int) = int (of_char (hex_digit d))" by (simp only: of_nat_of_char)
  ultimately show ?thesis using d a by (simp add: fromhex_def)
qed

definition received :: "string \<Rightarrow> string \<Rightarrow> string" where
  \<comment> \<open>the caller's buffer with a packet in it\<close>
  "received buf body = overwrite buf 0 (map c7 body @ [NUL])"

lemma received_store:
  "length body < length buf \<Longrightarrow> (overwrite buf 0 (map c7 body))[length body := NUL] = received buf body"
  by (rule nth_equalityI) (auto simp: received_def nth_list_update nth_overwrite nth_append)

text \<open>One packet, whose checksum is right or wrong.\<close>

lemma getpkt_loop_packet:
  assumes "stream nt = junk @ CHR ''$'' # body @ CHR ''#'' # hex_digit d1 # hex_digit d2 # rest"
    and "CHR ''$'' \<notin> c7 ` set junk" and "CHR ''#'' \<notin> c7 ` set body" and "length body < length buf"
    and "d1 < 16" and "d2 < 16"
  shows "\<exists>nt'. stream nt' = rest \<and> same_out nt nt' \<and> getpkt_loop buf nt =
    (if unat (checksum (map c7 body)) = 16 * d1 + d2
     then (Ret (int (length body)), received buf body, nt')
     else getpkt_loop (received buf body) (snd (sock_write ''-'' nt')))"
proof -
  from scan_start_stream [OF assms(1,2)] obtain nt1 where
    1: "scan_start nt = (True, nt1)" "same_out nt nt1"
      "stream nt1 = body @ CHR ''#'' # hex_digit d1 # hex_digit d2 # rest"
    by auto
  from read_body_stream [OF 1(3) assms(3), of 0 buf 0] assms(4) obtain nt2 where
    2: "read_body buf 0 0 nt1 = (Body_end (length body) (checksum (map c7 body)),
        overwrite buf 0 (map c7 body), nt2)" "stream nt2 = hex_digit d1 # hex_digit d2 # rest"
      "same_out nt1 nt2"
    by auto
  from readchar_stream [OF 2(2)] obtain nt3 where
    3: "readchar nt2 = (of_char (c7 (hex_digit d1)), nt3)" "stream nt3 = hex_digit d2 # rest"
      "same_out nt2 nt3" by auto
  from readchar_stream [OF 3(2)] obtain nt4 where
    4: "readchar nt3 = (of_char (c7 (hex_digit d2)), nt4)" "stream nt4 = rest" "same_out nt3 nt4" by auto
  have "uint (checksum (map c7 body)) = int d1 * 16 + int d2 \<longleftrightarrow>
      unat (checksum (map c7 body)) = 16 * d1 + d2"
    by (simp only: uint_nat) linarith
  moreover have "same_out nt nt4" using 1(2) 2(3) 3(3) 4(3) same_out_trans by blast
  ultimately show ?thesis
    using 1(1) 2(1) 3(1) 4(1,2) assms(4-6)
    by (intro exI [of _ nt4]) (simp add: getpkt_loop.simps [of buf nt] fromhex_c7_digit received_store)
qed

lemma length_received [simp]: "length body < length buf \<Longrightarrow> length (received buf body) = length buf"
  by (simp add: received_def)

lemma frame_eq:
  "frame s = CHR ''$'' # s @ [CHR ''#'', hex_digit (unat (checksum s) div 16), hex_digit (unat (checksum s) mod 16)]"
proof -
  have b: "unat (checksum s) < 256" by (rule unat_byte_bound)
  have "drop_bit 4 (uint (checksum s)) = int (unat (checksum s) div 16)"
    by (simp add: drop_bit_eq_div zdiv_int)
  moreover have "int (unat (checksum s) div 16) AND 15 = int (unat (checksum s) div 16)"
    using b by (simp only: and_15) (simp add: take_bit_int_eq_self)
  ultimately have "drop_bit 4 (uint (checksum s)) AND 15 = int (unat (checksum s) div 16)" by simp
  moreover have "unat (checksum s) div 16 < 16" using b by linarith
  ultimately have "tohex (drop_bit 4 (uint (checksum s)) AND 15) = hex_digit (unat (checksum s) div 16)"
    by (simp only: tohex_hex_digit)
  moreover have "uint (checksum s) AND 15 = int (unat (checksum s) mod 16)"
    by (simp only: and_15 take_bit_eq_mod uint_nat) (simp add: zmod_int)
  then have "tohex (uint (checksum s) AND 15) = hex_digit (unat (checksum s) mod 16)"
    by (simp only: tohex_hex_digit)
  ultimately show ?thesis by (simp add: frame_def)
qed

definition payload :: "string \<Rightarrow> bool" where
  \<comment> \<open>text that can be sent: 7-bit, with no hash sign and no NUL\<close>
  "payload s \<longleftrightarrow> list_all (\<lambda>c. (of_char c :: nat) < 128 \<and> c \<noteq> CHR ''#'' \<and> c \<noteq> NUL) s"

lemma payload_c7: "payload s \<Longrightarrow> map c7 s = s"
  by (induction s) (auto simp: payload_def c7_ascii)

lemma payload_hash: "payload s \<Longrightarrow> CHR ''#'' \<notin> c7 ` set s"
  using payload_c7 [of s] by (auto simp: payload_def list_all_iff simp flip: set_map)

lemma payload_NUL: "payload s \<Longrightarrow> NUL \<notin> set s"
  by (auto simp: payload_def list_all_iff)

type_synonym sent = "string \<times> nat \<times> nat"

definition raw_frame :: "sent \<Rightarrow> string" where
  \<comment> \<open>a packet with any two digits for its checksum\<close>
  "raw_frame p = (case p of (body, d1, d2) \<Rightarrow> CHR ''$'' # body @ [CHR ''#'', hex_digit d1, hex_digit d2])"

definition corrupt :: "nat \<Rightarrow> sent \<Rightarrow> bool" where
  \<comment> \<open>a packet that fits the buffer and whose checksum is wrong\<close>
  "corrupt n p = (case p of (body, d1, d2) \<Rightarrow> CHR ''#'' \<notin> c7 ` set body \<and> length body < n \<and> d1 < 16 \<and> d2 < 16
     \<and> unat (checksum (map c7 body)) \<noteq> 16 * d1 + d2)"

lemma getpkt_loop_retries:
  assumes "stream nt = concat (map raw_frame ps) @ frame s @ rest" and "list_all (corrupt (length buf)) ps"
    and "payload s" and "length s < length buf" and "tx_script nt = []"
  shows "\<exists>buf' nt'. getpkt_loop buf nt = (Ret (int (length s)), buf', nt') \<and> stream nt' = rest
    \<and> tx nt' = tx nt @ replicate (length ps) (CHR ''-'') \<and> tx_script nt' = [] \<and> length buf' = length buf
    \<and> cstr buf' 0 = s"
  using assms
proof (induction ps arbitrary: buf nt)
  case Nil
  have cs: "unat (checksum s) div 16 < 16" using unat_byte_bound [of "checksum s"] by simp
  from getpkt_loop_packet [of nt "[]" s "unat (checksum s) div 16" "unat (checksum s) mod 16" rest buf] Nil cs
  obtain nt' where "stream nt' = rest" "same_out nt nt'"
      "getpkt_loop buf nt = (Ret (int (length s)), received buf s, nt')"
    by (auto simp: frame_eq payload_hash payload_c7)
  moreover have "cstr (received buf s) 0 = s"
    using Nil by (simp add: received_def payload_c7 cstr_overwrite payload_NUL)
  ultimately show ?case using Nil by (simp add: same_out_def)
next
  case (Cons p ps)
  obtain body d1 d2 where p: "p = (body, d1, d2)" by (cases p) auto
  have c: "CHR ''#'' \<notin> c7 ` set body" "length body < length buf" "d1 < 16" "d2 < 16"
      "unat (checksum (map c7 body)) \<noteq> 16 * d1 + d2"
    using Cons.prems(2) p by (simp_all add: corrupt_def)
  have st: "stream nt = [] @ CHR ''$'' # body @ CHR ''#'' # hex_digit d1 # hex_digit d2
      # concat (map raw_frame ps) @ frame s @ rest"
    using Cons.prems(1) p by (simp add: raw_frame_def [of "(body, d1, d2)"])
  from getpkt_loop_packet [OF st _ c(1-4)] c(5)
  obtain nt1 where nt1: "stream nt1 = concat (map raw_frame ps) @ frame s @ rest" "same_out nt nt1"
      "getpkt_loop buf nt = getpkt_loop (received buf body) (snd (sock_write ''-'' nt1))"
    by auto
  have l: "length (received buf body) = length buf" using Cons.prems p by (simp add: corrupt_def)
  have w: "sock_write ''-'' nt1 = (1, nt1\<lparr>tx := tx nt1 @ ''-''\<rparr>)"
    using nt1(2) Cons.prems by (simp add: sock_write_all same_out_def)
  from Cons.IH [of "nt1\<lparr>tx := tx nt1 @ ''-''\<rparr>" "received buf body"] Cons.prems nt1 l w
  show ?case by (auto simp: same_out_def)
qed

lemma getpkt_of_loop:
  assumes "getpkt_loop buf nt = (Ret n, buf', nt')" and "0 \<le> n" and "tx_script nt' = []"
  shows "getpkt no_ack buf nt =
    (Ret n, buf', if no_ack then nt' else nt'\<lparr>tx := tx nt' @ ''+''\<rparr>)"
  using assms by (simp add: getpkt_def sock_write_all)

lemma getpkt_retries:
  assumes "stream nt = concat (map raw_frame ps) @ frame s @ rest" and "list_all (corrupt (length buf)) ps"
    and "payload s" and "length s < length buf" and "tx_script nt = []"
  shows "\<exists>buf' nt'. getpkt no_ack buf nt = (Ret (int (length s)), buf', nt') \<and> stream nt' = rest
    \<and> tx nt' = tx nt @ replicate (length ps) (CHR ''-'') @ (if no_ack then [] else ''+'')
    \<and> length buf' = length buf \<and> cstr buf' 0 = s"
proof -
  from getpkt_loop_retries [OF assms] obtain buf' nt' where
    l: "getpkt_loop buf nt = (Ret (int (length s)), buf', nt')" "stream nt' = rest"
      "tx nt' = tx nt @ replicate (length ps) (CHR ''-'')" "tx_script nt' = []" "length buf' = length buf"
      "cstr buf' 0 = s"
    by blast
  with getpkt_of_loop [OF l(1) _ l(4), of no_ack] show ?thesis by auto
qed

lemma getpkt_overflow:
  assumes "stream nt = junk @ CHR ''$'' # body @ r" and "CHR ''$'' \<notin> c7 ` set junk"
    and "CHR ''#'' \<notin> c7 ` set body" and "length buf < length body"
  shows "fst (getpkt no_ack buf nt) = Fault"
proof -
  from scan_start_stream [OF assms(1,2)] obtain nt1 where
    1: "scan_start nt = (True, nt1)" "stream nt1 = body @ r" by auto
  from read_body_overflow [OF 1(2) assms(3), of 0 buf 0] assms(4) obtain buf' nt' where
    "read_body buf 0 0 nt1 = (Body_overflow, buf', nt')" by auto
  with 1(1) show ?thesis by (simp add: getpkt_def getpkt_loop.simps [of buf nt])
qed

subsection \<open>Chunks do not matter\<close>

definition same_net :: "net \<Rightarrow> net \<Rightarrow> bool" where
  "same_net a b \<longleftrightarrow> stream a = stream b \<and> tx a = tx b \<and> tx_script a = tx_script b"

definition same_sent :: "net \<Rightarrow> net \<Rightarrow> bool" where
  "same_sent a b \<longleftrightarrow> tx a = tx b \<and> tx_script a = tx_script b"

lemma readchar_same:
  assumes "same_net a b"
  obtains (eof) a' b' where "readchar a = (- 1, a')" "readchar b = (- 1, b')" "same_sent a' b'"
  | (char) c a' b' where "readchar a = (of_char c, a')" "readchar b = (of_char c, b')" "same_net a' b'"
proof (cases "stream a")
  case Nil
  with assms obtain a' b' where r: "readchar a = (- 1, a')" "same_out a a'" "readchar b = (- 1, b')" "same_out b b'"
    using readchar_end [of a] readchar_end [of b] by (auto simp: same_net_def)
  with assms have "same_sent a' b'" by (auto simp: same_net_def same_sent_def same_out_def)
  with r show ?thesis using eof by blast
next
  case (Cons c cs)
  with assms obtain a' b' where r: "readchar a = (of_char (c7 c), a')" "stream a' = cs" "same_out a a'"
      "readchar b = (of_char (c7 c), b')" "stream b' = cs" "same_out b b'"
    using readchar_stream [of a c cs] readchar_stream [of b c cs] by (auto simp: same_net_def)
  with assms have "same_net a' b'" by (auto simp: same_net_def same_out_def)
  with r show ?thesis using char by blast
qed

lemma scan_start_same:
  assumes "same_net a b"
  shows "\<exists>f a' b'. scan_start a = (f, a') \<and> scan_start b = (f, b') \<and> same_sent a' b' \<and> (f \<longrightarrow> same_net a' b')"
  using assms
proof (induction a arbitrary: b rule: scan_start.induct)
  case (1 a)
  from 1(2) show ?case
  proof (cases rule: readchar_same)
    case (eof a' b')
    then show ?thesis by (auto simp: scan_start.simps [of a] scan_start.simps [of b])
  next
    case (char c a' b')
    show ?thesis
    proof (cases "(of_char c :: int) = 36")
      case False
      with 1(1) [OF char(1) [symmetric] refl] char show ?thesis
        by (simp add: scan_start.simps [of a] scan_start.simps [of b])
    qed (use char in \<open>auto simp: scan_start.simps [of a] scan_start.simps [of b] same_net_def same_sent_def\<close>)
  qed
qed

lemma read_body_same:
  assumes "same_net a b"
  shows "\<exists>r buf' a' b'. read_body buf pos cs a = (r, buf', a') \<and> read_body buf pos cs b = (r, buf', b')
    \<and> same_sent a' b' \<and> ((\<exists>n s. r = Body_end n s) \<longrightarrow> same_net a' b')"
  using assms
proof (induction buf pos cs a arbitrary: b rule: read_body.induct)
  case (1 buf pos cs a)
  from 1(2) show ?case
  proof (cases rule: readchar_same)
    case (eof a' b')
    then show ?thesis by (auto simp: read_body.simps [of buf pos cs a] read_body.simps [of buf pos cs b])
  next
    case (char c a' b')
    show ?thesis
    proof (cases "(of_char c :: int) = 35 \<or> length buf \<le> pos")
      case False
      with 1(1) [OF char(1) [symmetric] refl] char show ?thesis
        by (simp add: read_body.simps [of buf pos cs a] read_body.simps [of buf pos cs b])
    qed (use char in \<open>auto simp: read_body.simps [of buf pos cs a] read_body.simps [of buf pos cs b]
        same_net_def same_sent_def\<close>)
  qed
qed

lemma same_net_write:
  "same_net a b \<Longrightarrow> same_net (snd (sock_write d a)) (snd (sock_write d b))"
  by (auto simp: same_net_def sock_write_def stream_def split: list.splits)

lemma same_net_sent: "same_net a b \<Longrightarrow> same_sent a b"
  by (simp add: same_net_def same_sent_def)

lemma getpkt_loop_same:
  assumes "same_net a b"
  shows "\<exists>r buf' a' b'. getpkt_loop buf a = (r, buf', a') \<and> getpkt_loop buf b = (r, buf', b')
    \<and> same_sent a' b' \<and> ((\<exists>n. r = Ret n \<and> 0 \<le> n) \<longrightarrow> same_net a' b')"
  using assms
proof (induction buf a arbitrary: b rule: getpkt_loop.induct)
  case (1 buf a)
  note unfolds = getpkt_loop.simps [of buf a] getpkt_loop.simps [of buf b]
  from scan_start_same [OF 1(2)] obtain f a1 b1 where
    s: "scan_start a = (f, a1)" "scan_start b = (f, b1)" "same_sent a1 b1" "f \<longrightarrow> same_net a1 b1" by blast
  show ?case
  proof (cases f)
    case False with s show ?thesis by (simp add: unfolds)
  next
    case True
    with s have "same_net a1 b1" by simp
    from read_body_same [OF this, of buf 0 0] obtain r buf1 a2 b2 where
      b: "read_body buf 0 0 a1 = (r, buf1, a2)" "read_body buf 0 0 b1 = (r, buf1, b2)"
        "same_sent a2 b2" "(\<exists>n s. r = Body_end n s) \<longrightarrow> same_net a2 b2" by blast
    show ?thesis
    proof (cases "\<exists>n cs. r = Body_end n cs \<and> n < length buf1")
      case False
      with s True b show ?thesis by (cases r) (auto simp: unfolds)
    next
      case t: True
      then obtain n cs where r: "r = Body_end n cs" "n < length buf1" by blast
      with b have "same_net a2 b2" by auto
      then show ?thesis
      proof (cases rule: readchar_same)
        case (eof a3 b3)
        with s b True r show ?thesis by (simp add: unfolds fromhex_def)
      next
        case c1: (char c a3 b3)
        show ?thesis
        proof (cases "fromhex (of_char c)")
          case d1: (Ret d1)
          from c1(3) show ?thesis
          proof (cases rule: readchar_same)
            case (eof a4 b4)
            with s b True r c1 d1 show ?thesis by (simp add: unfolds fromhex_def [of "- 1"])
          next
            case c2: (char c' a4 b4)
            show ?thesis
            proof (cases "fromhex (of_char c')")
              case d2: (Ret d2)
              show ?thesis
              proof (cases "uint cs = d1 * 16 + d2")
                case True
                with s b \<open>f\<close> r c1 d1 c2 d2 same_net_sent show ?thesis by (simp add: unfolds)
              next
                case False
                have "f = True" "\<not> length buf1 \<le> n" using \<open>f\<close> r(2) by simp_all
                note IH = 1(1) [OF s(1) [symmetric] this(1) b(1) [symmetric] r(1) refl this(2) refl refl
                    c1(1) [symmetric] d1 refl c2(1) [symmetric] d2 False same_net_write [OF c2(3)]]
                show ?thesis using IH s b \<open>f\<close> r c1 d1 c2 d2 False by (simp add: unfolds)
              qed
            qed (use s b True r c1 d1 c2 same_net_sent in \<open>simp_all add: unfolds\<close>)
          qed
        qed (use s b True r c1 same_net_sent in \<open>simp_all add: unfolds\<close>)
      qed
    qed
  qed
qed

lemma getpkt_same:
  assumes "same_net a b"
  shows "\<exists>r buf' a' b'. getpkt no_ack buf a = (r, buf', a') \<and> getpkt no_ack buf b = (r, buf', b')
    \<and> same_sent a' b' \<and> ((\<exists>n. r = Ret n \<and> 0 \<le> n) \<longrightarrow> same_net a' b')"
proof -
  from getpkt_loop_same [OF assms, of buf] obtain r buf' a' b' where
    l: "getpkt_loop buf a = (r, buf', a')" "getpkt_loop buf b = (r, buf', b')" "same_sent a' b'"
      "(\<exists>n. r = Ret n \<and> 0 \<le> n) \<longrightarrow> same_net a' b'" by blast
  show ?thesis
  proof (cases "\<exists>n. r = Ret n \<and> 0 \<le> n")
    case True
    with l have "same_net a' b'" by simp
    with True l same_net_write [OF this] same_net_sent [OF same_net_write [OF this]] same_net_sent
    show ?thesis by (auto simp: getpkt_def)
  next
    case False
    with l show ?thesis by (cases r) (auto simp: getpkt_def)
  qed
qed

subsection \<open>Sending\<close>

definition ctrl_c :: "string \<Rightarrow> string" where
  \<comment> \<open>the interrupts among the characters read while waiting for an acknowledgement\<close>
  "ctrl_c s = filter (\<lambda>c. c = CHR 0x03) s"

lemma sock_read_1:
  assumes "flat_rx (rx nt) = c # cs"
  shows "\<exists>nt'. sock_read 1 nt = (1, [c], nt') \<and> flat_rx (rx nt') = cs \<and> same_out nt nt' \<and> rc_buf nt' = rc_buf nt"
  using flat_rx_read [OF assms, of 1] by auto

lemma putpkt_no_ack:
  assumes "tx_script nt = []"
  shows "putpkt_loop send True buf2 nt = return_p (1, nt\<lparr>tx := tx nt @ buf2\<rparr>)"
  using assms by (simp add: putpkt_loop.simps sock_write_all)

lemma interrupts_seq:
  "seq_p (for_p f (ctrl_c [])) m = m"
  "seq_p (for_p f (ctrl_c (c # s))) m =
     (if c = CHR 0x03 then seq_p (f c) (seq_p (for_p f (ctrl_c s)) m) else seq_p (for_p f (ctrl_c s)) m)"
  by (rule ext, simp add: ctrl_c_def) (rule ext, simp add: ctrl_c_def seq_p_def)

lemma putpkt_acked:
  assumes "flat_rx (rx nt) = naks @ CHR ''+'' # rest" and "CHR ''+'' \<notin> set naks" and "tx_script nt = []"
  shows "\<exists>nt'. putpkt_loop send False buf2 nt =
      seq_p (for_p (\<lambda>_. send SIGINT_num) (ctrl_c naks)) (return_p (1, nt'))
    \<and> flat_rx (rx nt') = rest \<and> rc_buf nt' = rc_buf nt
    \<and> tx nt' = tx nt @ concat (replicate (Suc (length naks)) buf2)"
  using assms
proof (induction naks arbitrary: nt)
  case Nil
  then show ?case
    using sock_read_1 [of "nt\<lparr>tx := tx nt @ buf2\<rparr>" "CHR ''+''" rest]
    by (auto simp: putpkt_loop.simps [of send False buf2 nt] sock_write_all interrupts_seq same_out_def
        simp del: basic_prog_simps)
next
  case (Cons c naks)
  from sock_read_1 [of "nt\<lparr>tx := tx nt @ buf2\<rparr>" c "naks @ CHR ''+'' # rest"] Cons.prems obtain nt1 where
    1: "sock_read 1 (nt\<lparr>tx := tx nt @ buf2\<rparr>) = (1, [c], nt1)" "flat_rx (rx nt1) = naks @ CHR ''+'' # rest"
      "tx nt1 = tx nt @ buf2" "tx_script nt1 = []" "rc_buf nt1 = rc_buf nt"
    by (auto simp: same_out_def)
  have step: "putpkt_loop send False buf2 nt =
      (if c = CHR 0x03 then seq_p (send SIGINT_num) (putpkt_loop send False buf2 nt1)
       else putpkt_loop send False buf2 nt1)"
    using 1(1) Cons.prems
    by (auto simp: putpkt_loop.simps [of send False buf2 nt] sock_write_all simp del: basic_prog_simps)
  from Cons.IH [OF 1(2) _ 1(4)] Cons.prems 1(3,5) step show ?case
    by (fastforce simp: interrupts_seq simp del: basic_prog_simps)
qed

lemma putpkt_closed:
  assumes "flat_rx (rx nt) = naks" and "CHR ''+'' \<notin> set naks" and "tx_script nt = []"
  shows "\<exists>nt'. putpkt_loop send False buf2 nt =
      seq_p (for_p (\<lambda>_. send SIGINT_num) (ctrl_c naks)) (return_p (- 1, nt'))
    \<and> tx nt' = tx nt @ concat (replicate (Suc (length naks)) buf2)"
  using assms
proof (induction naks arbitrary: nt)
  case Nil
  then obtain k nt' where "sock_read 1 (nt\<lparr>tx := tx nt @ buf2\<rparr>) = (k, [], nt')"
      "same_out (nt\<lparr>tx := tx nt @ buf2\<rparr>) nt'"
    using flat_rx_read_end [of "nt\<lparr>tx := tx nt @ buf2\<rparr>" 1] by auto
  with Nil show ?case
    by (auto simp: putpkt_loop.simps [of send False buf2 nt] sock_write_all interrupts_seq same_out_def
        simp del: basic_prog_simps)
next
  case (Cons c naks)
  from sock_read_1 [of "nt\<lparr>tx := tx nt @ buf2\<rparr>" c naks] Cons.prems obtain nt1 where
    1: "sock_read 1 (nt\<lparr>tx := tx nt @ buf2\<rparr>) = (1, [c], nt1)" "flat_rx (rx nt1) = naks"
      "tx nt1 = tx nt @ buf2" "tx_script nt1 = []"
    by (auto simp: same_out_def)
  have step: "putpkt_loop send False buf2 nt =
      (if c = CHR 0x03 then seq_p (send SIGINT_num) (putpkt_loop send False buf2 nt1)
       else putpkt_loop send False buf2 nt1)"
    using 1(1) Cons.prems
    by (auto simp: putpkt_loop.simps [of send False buf2 nt] sock_write_all simp del: basic_prog_simps)
  from Cons.IH [OF 1(2) _ 1(4)] Cons.prems 1(3) step show ?case
    by (fastforce simp: interrupts_seq simp del: basic_prog_simps)
qed

end
