(* ===== verification/Signals.thy ===== *)
theory Signals
  imports Prelude
begin

section \<open>Signal numbers (src/signals.c, include/gdb/signals.h)\<close>

text \<open>
  The protocol numbers signals by \<^verbatim>\<open>enum target_signal\<close>, the host by the macros of its
  \<^verbatim>\<open><signal.h>\<close>.  An enum value is an \<open>int\<close>, since the code computes with it and casts any byte of
  a packet to it.  The host's macros are a parameter \<open>host_signals\<close>: \<open>None\<close> is a macro that is not
  defined, so that every \<^verbatim>\<open>#if defined\<close> of the two translation functions is a branch of the model.
  \<open>darwin_host\<close> is the instance for Mac OS X.
\<close>

subsection \<open>The enumeration\<close>

definition enum_target_signal :: "(string \<times> int option) list" where
  \<comment> \<open>the enumerators in order, with the values given to them explicitly\<close>
  "enum_target_signal = [
    (''TARGET_SIGNAL_0'', Some 0),
    (''TARGET_SIGNAL_FIRST'', Some 0),
    (''TARGET_SIGNAL_HUP'', Some 1),
    (''TARGET_SIGNAL_INT'', Some 2),
    (''TARGET_SIGNAL_QUIT'', Some 3),
    (''TARGET_SIGNAL_ILL'', Some 4),
    (''TARGET_SIGNAL_TRAP'', Some 5),
    (''TARGET_SIGNAL_ABRT'', Some 6),
    (''TARGET_SIGNAL_EMT'', Some 7),
    (''TARGET_SIGNAL_FPE'', Some 8),
    (''TARGET_SIGNAL_KILL'', Some 9),
    (''TARGET_SIGNAL_BUS'', Some 10),
    (''TARGET_SIGNAL_SEGV'', Some 11),
    (''TARGET_SIGNAL_SYS'', Some 12),
    (''TARGET_SIGNAL_PIPE'', Some 13),
    (''TARGET_SIGNAL_ALRM'', Some 14),
    (''TARGET_SIGNAL_TERM'', Some 15),
    (''TARGET_SIGNAL_URG'', Some 16),
    (''TARGET_SIGNAL_STOP'', Some 17),
    (''TARGET_SIGNAL_TSTP'', Some 18),
    (''TARGET_SIGNAL_CONT'', Some 19),
    (''TARGET_SIGNAL_CHLD'', Some 20),
    (''TARGET_SIGNAL_TTIN'', Some 21),
    (''TARGET_SIGNAL_TTOU'', Some 22),
    (''TARGET_SIGNAL_IO'', Some 23),
    (''TARGET_SIGNAL_XCPU'', Some 24),
    (''TARGET_SIGNAL_XFSZ'', Some 25),
    (''TARGET_SIGNAL_VTALRM'', Some 26),
    (''TARGET_SIGNAL_PROF'', Some 27),
    (''TARGET_SIGNAL_WINCH'', Some 28),
    (''TARGET_SIGNAL_LOST'', Some 29),
    (''TARGET_SIGNAL_USR1'', Some 30),
    (''TARGET_SIGNAL_USR2'', Some 31),
    (''TARGET_SIGNAL_PWR'', Some 32),
    (''TARGET_SIGNAL_POLL'', Some 33),
    (''TARGET_SIGNAL_WIND'', Some 34),
    (''TARGET_SIGNAL_PHONE'', Some 35),
    (''TARGET_SIGNAL_WAITING'', Some 36),
    (''TARGET_SIGNAL_LWP'', Some 37),
    (''TARGET_SIGNAL_DANGER'', Some 38),
    (''TARGET_SIGNAL_GRANT'', Some 39),
    (''TARGET_SIGNAL_RETRACT'', Some 40),
    (''TARGET_SIGNAL_MSG'', Some 41),
    (''TARGET_SIGNAL_SOUND'', Some 42),
    (''TARGET_SIGNAL_SAK'', Some 43),
    (''TARGET_SIGNAL_PRIO'', Some 44),
    (''TARGET_SIGNAL_REALTIME_33'', Some 45),
    (''TARGET_SIGNAL_REALTIME_34'', Some 46),
    (''TARGET_SIGNAL_REALTIME_35'', Some 47),
    (''TARGET_SIGNAL_REALTIME_36'', Some 48),
    (''TARGET_SIGNAL_REALTIME_37'', Some 49),
    (''TARGET_SIGNAL_REALTIME_38'', Some 50),
    (''TARGET_SIGNAL_REALTIME_39'', Some 51),
    (''TARGET_SIGNAL_REALTIME_40'', Some 52),
    (''TARGET_SIGNAL_REALTIME_41'', Some 53),
    (''TARGET_SIGNAL_REALTIME_42'', Some 54),
    (''TARGET_SIGNAL_REALTIME_43'', Some 55),
    (''TARGET_SIGNAL_REALTIME_44'', Some 56),
    (''TARGET_SIGNAL_REALTIME_45'', Some 57),
    (''TARGET_SIGNAL_REALTIME_46'', Some 58),
    (''TARGET_SIGNAL_REALTIME_47'', Some 59),
    (''TARGET_SIGNAL_REALTIME_48'', Some 60),
    (''TARGET_SIGNAL_REALTIME_49'', Some 61),
    (''TARGET_SIGNAL_REALTIME_50'', Some 62),
    (''TARGET_SIGNAL_REALTIME_51'', Some 63),
    (''TARGET_SIGNAL_REALTIME_52'', Some 64),
    (''TARGET_SIGNAL_REALTIME_53'', Some 65),
    (''TARGET_SIGNAL_REALTIME_54'', Some 66),
    (''TARGET_SIGNAL_REALTIME_55'', Some 67),
    (''TARGET_SIGNAL_REALTIME_56'', Some 68),
    (''TARGET_SIGNAL_REALTIME_57'', Some 69),
    (''TARGET_SIGNAL_REALTIME_58'', Some 70),
    (''TARGET_SIGNAL_REALTIME_59'', Some 71),
    (''TARGET_SIGNAL_REALTIME_60'', Some 72),
    (''TARGET_SIGNAL_REALTIME_61'', Some 73),
    (''TARGET_SIGNAL_REALTIME_62'', Some 74),
    (''TARGET_SIGNAL_REALTIME_63'', Some 75),
    (''TARGET_SIGNAL_CANCEL'', Some 76),
    (''TARGET_SIGNAL_REALTIME_32'', None),
    (''TARGET_SIGNAL_REALTIME_64'', None),
    (''TARGET_SIGNAL_REALTIME_65'', None),
    (''TARGET_SIGNAL_REALTIME_66'', None),
    (''TARGET_SIGNAL_REALTIME_67'', None),
    (''TARGET_SIGNAL_REALTIME_68'', None),
    (''TARGET_SIGNAL_REALTIME_69'', None),
    (''TARGET_SIGNAL_REALTIME_70'', None),
    (''TARGET_SIGNAL_REALTIME_71'', None),
    (''TARGET_SIGNAL_REALTIME_72'', None),
    (''TARGET_SIGNAL_REALTIME_73'', None),
    (''TARGET_SIGNAL_REALTIME_74'', None),
    (''TARGET_SIGNAL_REALTIME_75'', None),
    (''TARGET_SIGNAL_REALTIME_76'', None),
    (''TARGET_SIGNAL_REALTIME_77'', None),
    (''TARGET_SIGNAL_REALTIME_78'', None),
    (''TARGET_SIGNAL_REALTIME_79'', None),
    (''TARGET_SIGNAL_REALTIME_80'', None),
    (''TARGET_SIGNAL_REALTIME_81'', None),
    (''TARGET_SIGNAL_REALTIME_82'', None),
    (''TARGET_SIGNAL_REALTIME_83'', None),
    (''TARGET_SIGNAL_REALTIME_84'', None),
    (''TARGET_SIGNAL_REALTIME_85'', None),
    (''TARGET_SIGNAL_REALTIME_86'', None),
    (''TARGET_SIGNAL_REALTIME_87'', None),
    (''TARGET_SIGNAL_REALTIME_88'', None),
    (''TARGET_SIGNAL_REALTIME_89'', None),
    (''TARGET_SIGNAL_REALTIME_90'', None),
    (''TARGET_SIGNAL_REALTIME_91'', None),
    (''TARGET_SIGNAL_REALTIME_92'', None),
    (''TARGET_SIGNAL_REALTIME_93'', None),
    (''TARGET_SIGNAL_REALTIME_94'', None),
    (''TARGET_SIGNAL_REALTIME_95'', None),
    (''TARGET_SIGNAL_REALTIME_96'', None),
    (''TARGET_SIGNAL_REALTIME_97'', None),
    (''TARGET_SIGNAL_REALTIME_98'', None),
    (''TARGET_SIGNAL_REALTIME_99'', None),
    (''TARGET_SIGNAL_REALTIME_100'', None),
    (''TARGET_SIGNAL_REALTIME_101'', None),
    (''TARGET_SIGNAL_REALTIME_102'', None),
    (''TARGET_SIGNAL_REALTIME_103'', None),
    (''TARGET_SIGNAL_REALTIME_104'', None),
    (''TARGET_SIGNAL_REALTIME_105'', None),
    (''TARGET_SIGNAL_REALTIME_106'', None),
    (''TARGET_SIGNAL_REALTIME_107'', None),
    (''TARGET_SIGNAL_REALTIME_108'', None),
    (''TARGET_SIGNAL_REALTIME_109'', None),
    (''TARGET_SIGNAL_REALTIME_110'', None),
    (''TARGET_SIGNAL_REALTIME_111'', None),
    (''TARGET_SIGNAL_REALTIME_112'', None),
    (''TARGET_SIGNAL_REALTIME_113'', None),
    (''TARGET_SIGNAL_REALTIME_114'', None),
    (''TARGET_SIGNAL_REALTIME_115'', None),
    (''TARGET_SIGNAL_REALTIME_116'', None),
    (''TARGET_SIGNAL_REALTIME_117'', None),
    (''TARGET_SIGNAL_REALTIME_118'', None),
    (''TARGET_SIGNAL_REALTIME_119'', None),
    (''TARGET_SIGNAL_REALTIME_120'', None),
    (''TARGET_SIGNAL_REALTIME_121'', None),
    (''TARGET_SIGNAL_REALTIME_122'', None),
    (''TARGET_SIGNAL_REALTIME_123'', None),
    (''TARGET_SIGNAL_REALTIME_124'', None),
    (''TARGET_SIGNAL_REALTIME_125'', None),
    (''TARGET_SIGNAL_REALTIME_126'', None),
    (''TARGET_SIGNAL_REALTIME_127'', None),
    (''TARGET_SIGNAL_INFO'', None),
    (''TARGET_SIGNAL_UNKNOWN'', None),
    (''TARGET_SIGNAL_DEFAULT'', None),
    (''TARGET_EXC_BAD_ACCESS'', None),
    (''TARGET_EXC_BAD_INSTRUCTION'', None),
    (''TARGET_EXC_ARITHMETIC'', None),
    (''TARGET_EXC_EMULATION'', None),
    (''TARGET_EXC_SOFTWARE'', None),
    (''TARGET_EXC_BREAKPOINT'', None),
    (''TARGET_SIGNAL_LAST'', None)]"

fun enum_values :: "int \<Rightarrow> (string \<times> int option) list \<Rightarrow> (string \<times> int) list" where
  \<comment> \<open>C's numbering: an enumerator without a value follows its predecessor\<close>
  "enum_values prev [] = []"
| "enum_values prev ((n, v) # es) =
     (let k = (case v of Some i \<Rightarrow> i | None \<Rightarrow> prev + 1) in (n, k) # enum_values k es)"

abbreviation (input) TARGET_SIGNAL_FIRST :: int where "TARGET_SIGNAL_FIRST \<equiv> 0"
abbreviation (input) TARGET_SIGNAL_0 :: int where "TARGET_SIGNAL_0 \<equiv> 0"
abbreviation (input) TARGET_SIGNAL_HUP :: int where "TARGET_SIGNAL_HUP \<equiv> 1"
abbreviation (input) TARGET_SIGNAL_INT :: int where "TARGET_SIGNAL_INT \<equiv> 2"
abbreviation (input) TARGET_SIGNAL_QUIT :: int where "TARGET_SIGNAL_QUIT \<equiv> 3"
abbreviation (input) TARGET_SIGNAL_ILL :: int where "TARGET_SIGNAL_ILL \<equiv> 4"
abbreviation (input) TARGET_SIGNAL_TRAP :: int where "TARGET_SIGNAL_TRAP \<equiv> 5"
abbreviation (input) TARGET_SIGNAL_ABRT :: int where "TARGET_SIGNAL_ABRT \<equiv> 6"
abbreviation (input) TARGET_SIGNAL_EMT :: int where "TARGET_SIGNAL_EMT \<equiv> 7"
abbreviation (input) TARGET_SIGNAL_FPE :: int where "TARGET_SIGNAL_FPE \<equiv> 8"
abbreviation (input) TARGET_SIGNAL_KILL :: int where "TARGET_SIGNAL_KILL \<equiv> 9"
abbreviation (input) TARGET_SIGNAL_BUS :: int where "TARGET_SIGNAL_BUS \<equiv> 10"
abbreviation (input) TARGET_SIGNAL_SEGV :: int where "TARGET_SIGNAL_SEGV \<equiv> 11"
abbreviation (input) TARGET_SIGNAL_SYS :: int where "TARGET_SIGNAL_SYS \<equiv> 12"
abbreviation (input) TARGET_SIGNAL_PIPE :: int where "TARGET_SIGNAL_PIPE \<equiv> 13"
abbreviation (input) TARGET_SIGNAL_ALRM :: int where "TARGET_SIGNAL_ALRM \<equiv> 14"
abbreviation (input) TARGET_SIGNAL_TERM :: int where "TARGET_SIGNAL_TERM \<equiv> 15"
abbreviation (input) TARGET_SIGNAL_URG :: int where "TARGET_SIGNAL_URG \<equiv> 16"
abbreviation (input) TARGET_SIGNAL_STOP :: int where "TARGET_SIGNAL_STOP \<equiv> 17"
abbreviation (input) TARGET_SIGNAL_TSTP :: int where "TARGET_SIGNAL_TSTP \<equiv> 18"
abbreviation (input) TARGET_SIGNAL_CONT :: int where "TARGET_SIGNAL_CONT \<equiv> 19"
abbreviation (input) TARGET_SIGNAL_CHLD :: int where "TARGET_SIGNAL_CHLD \<equiv> 20"
abbreviation (input) TARGET_SIGNAL_TTIN :: int where "TARGET_SIGNAL_TTIN \<equiv> 21"
abbreviation (input) TARGET_SIGNAL_TTOU :: int where "TARGET_SIGNAL_TTOU \<equiv> 22"
abbreviation (input) TARGET_SIGNAL_IO :: int where "TARGET_SIGNAL_IO \<equiv> 23"
abbreviation (input) TARGET_SIGNAL_XCPU :: int where "TARGET_SIGNAL_XCPU \<equiv> 24"
abbreviation (input) TARGET_SIGNAL_XFSZ :: int where "TARGET_SIGNAL_XFSZ \<equiv> 25"
abbreviation (input) TARGET_SIGNAL_VTALRM :: int where "TARGET_SIGNAL_VTALRM \<equiv> 26"
abbreviation (input) TARGET_SIGNAL_PROF :: int where "TARGET_SIGNAL_PROF \<equiv> 27"
abbreviation (input) TARGET_SIGNAL_WINCH :: int where "TARGET_SIGNAL_WINCH \<equiv> 28"
abbreviation (input) TARGET_SIGNAL_LOST :: int where "TARGET_SIGNAL_LOST \<equiv> 29"
abbreviation (input) TARGET_SIGNAL_USR1 :: int where "TARGET_SIGNAL_USR1 \<equiv> 30"
abbreviation (input) TARGET_SIGNAL_USR2 :: int where "TARGET_SIGNAL_USR2 \<equiv> 31"
abbreviation (input) TARGET_SIGNAL_PWR :: int where "TARGET_SIGNAL_PWR \<equiv> 32"
abbreviation (input) TARGET_SIGNAL_POLL :: int where "TARGET_SIGNAL_POLL \<equiv> 33"
abbreviation (input) TARGET_SIGNAL_WIND :: int where "TARGET_SIGNAL_WIND \<equiv> 34"
abbreviation (input) TARGET_SIGNAL_PHONE :: int where "TARGET_SIGNAL_PHONE \<equiv> 35"
abbreviation (input) TARGET_SIGNAL_WAITING :: int where "TARGET_SIGNAL_WAITING \<equiv> 36"
abbreviation (input) TARGET_SIGNAL_LWP :: int where "TARGET_SIGNAL_LWP \<equiv> 37"
abbreviation (input) TARGET_SIGNAL_DANGER :: int where "TARGET_SIGNAL_DANGER \<equiv> 38"
abbreviation (input) TARGET_SIGNAL_GRANT :: int where "TARGET_SIGNAL_GRANT \<equiv> 39"
abbreviation (input) TARGET_SIGNAL_RETRACT :: int where "TARGET_SIGNAL_RETRACT \<equiv> 40"
abbreviation (input) TARGET_SIGNAL_MSG :: int where "TARGET_SIGNAL_MSG \<equiv> 41"
abbreviation (input) TARGET_SIGNAL_SOUND :: int where "TARGET_SIGNAL_SOUND \<equiv> 42"
abbreviation (input) TARGET_SIGNAL_SAK :: int where "TARGET_SIGNAL_SAK \<equiv> 43"
abbreviation (input) TARGET_SIGNAL_PRIO :: int where "TARGET_SIGNAL_PRIO \<equiv> 44"
abbreviation (input) TARGET_SIGNAL_CANCEL :: int where "TARGET_SIGNAL_CANCEL \<equiv> 76"
abbreviation (input) TARGET_SIGNAL_INFO :: int where "TARGET_SIGNAL_INFO \<equiv> 142"
abbreviation (input) TARGET_SIGNAL_UNKNOWN :: int where "TARGET_SIGNAL_UNKNOWN \<equiv> 143"
abbreviation (input) TARGET_SIGNAL_DEFAULT :: int where "TARGET_SIGNAL_DEFAULT \<equiv> 144"
abbreviation (input) TARGET_EXC_BAD_ACCESS :: int where "TARGET_EXC_BAD_ACCESS \<equiv> 145"
abbreviation (input) TARGET_EXC_BAD_INSTRUCTION :: int where "TARGET_EXC_BAD_INSTRUCTION \<equiv> 146"
abbreviation (input) TARGET_EXC_ARITHMETIC :: int where "TARGET_EXC_ARITHMETIC \<equiv> 147"
abbreviation (input) TARGET_EXC_EMULATION :: int where "TARGET_EXC_EMULATION \<equiv> 148"
abbreviation (input) TARGET_EXC_SOFTWARE :: int where "TARGET_EXC_SOFTWARE \<equiv> 149"
abbreviation (input) TARGET_EXC_BREAKPOINT :: int where "TARGET_EXC_BREAKPOINT \<equiv> 150"
abbreviation (input) TARGET_SIGNAL_LAST :: int where "TARGET_SIGNAL_LAST \<equiv> 151"
abbreviation (input) TARGET_SIGNAL_REALTIME_33 :: int where "TARGET_SIGNAL_REALTIME_33 \<equiv> 45"
abbreviation (input) TARGET_SIGNAL_REALTIME_63 :: int where "TARGET_SIGNAL_REALTIME_63 \<equiv> 75"
abbreviation (input) TARGET_SIGNAL_REALTIME_32 :: int where "TARGET_SIGNAL_REALTIME_32 \<equiv> 77"
abbreviation (input) TARGET_SIGNAL_REALTIME_64 :: int where "TARGET_SIGNAL_REALTIME_64 \<equiv> 78"
abbreviation (input) TARGET_SIGNAL_REALTIME_127 :: int where "TARGET_SIGNAL_REALTIME_127 \<equiv> 141"

subsection \<open>The table of names\<close>

definition signals :: "(string option \<times> string) list" where
  "signals = [
    (Some ''0'', ''Signal 0''),
    (Some ''SIGHUP'', ''Hangup''),
    (Some ''SIGINT'', ''Interrupt''),
    (Some ''SIGQUIT'', ''Quit''),
    (Some ''SIGILL'', ''Illegal instruction''),
    (Some ''SIGTRAP'', ''Trace/breakpoint trap''),
    (Some ''SIGABRT'', ''Aborted''),
    (Some ''SIGEMT'', ''Emulation trap''),
    (Some ''SIGFPE'', ''Arithmetic exception''),
    (Some ''SIGKILL'', ''Killed''),
    (Some ''SIGBUS'', ''Bus error''),
    (Some ''SIGSEGV'', ''Segmentation fault''),
    (Some ''SIGSYS'', ''Bad system call''),
    (Some ''SIGPIPE'', ''Broken pipe''),
    (Some ''SIGALRM'', ''Alarm clock''),
    (Some ''SIGTERM'', ''Terminated''),
    (Some ''SIGURG'', ''Urgent I/O condition''),
    (Some ''SIGSTOP'', ''Stopped (signal)''),
    (Some ''SIGTSTP'', ''Stopped (user)''),
    (Some ''SIGCONT'', ''Continued''),
    (Some ''SIGCHLD'', ''Child status changed''),
    (Some ''SIGTTIN'', ''Stopped (tty input)''),
    (Some ''SIGTTOU'', ''Stopped (tty output)''),
    (Some ''SIGIO'', ''I/O possible''),
    (Some ''SIGXCPU'', ''CPU time limit exceeded''),
    (Some ''SIGXFSZ'', ''File size limit exceeded''),
    (Some ''SIGVTALRM'', ''Virtual timer expired''),
    (Some ''SIGPROF'', ''Profiling timer expired''),
    (Some ''SIGWINCH'', ''Window size changed''),
    (Some ''SIGLOST'', ''Resource lost''),
    (Some ''SIGUSR1'', ''User defined signal 1''),
    (Some ''SIGUSR2'', ''User defined signal 2''),
    (Some ''SIGPWR'', ''Power fail/restart''),
    (Some ''SIGPOLL'', ''Pollable event occurred''),
    (Some ''SIGWIND'', ''SIGWIND''),
    (Some ''SIGPHONE'', ''SIGPHONE''),
    (Some ''SIGWAITING'', ''Process'' @ [CHR 0x27] @ ''s LWPs are blocked''),
    (Some ''SIGLWP'', ''Signal LWP''),
    (Some ''SIGDANGER'', ''Swap space dangerously low''),
    (Some ''SIGGRANT'', ''Monitor mode granted''),
    (Some ''SIGRETRACT'', ''Need to relinquish monitor mode''),
    (Some ''SIGMSG'', ''Monitor mode data available''),
    (Some ''SIGSOUND'', ''Sound completed''),
    (Some ''SIGSAK'', ''Secure attention''),
    (Some ''SIGPRIO'', ''SIGPRIO''),
    (Some ''SIG33'', ''Real-time event 33''),
    (Some ''SIG34'', ''Real-time event 34''),
    (Some ''SIG35'', ''Real-time event 35''),
    (Some ''SIG36'', ''Real-time event 36''),
    (Some ''SIG37'', ''Real-time event 37''),
    (Some ''SIG38'', ''Real-time event 38''),
    (Some ''SIG39'', ''Real-time event 39''),
    (Some ''SIG40'', ''Real-time event 40''),
    (Some ''SIG41'', ''Real-time event 41''),
    (Some ''SIG42'', ''Real-time event 42''),
    (Some ''SIG43'', ''Real-time event 43''),
    (Some ''SIG44'', ''Real-time event 44''),
    (Some ''SIG45'', ''Real-time event 45''),
    (Some ''SIG46'', ''Real-time event 46''),
    (Some ''SIG47'', ''Real-time event 47''),
    (Some ''SIG48'', ''Real-time event 48''),
    (Some ''SIG49'', ''Real-time event 49''),
    (Some ''SIG50'', ''Real-time event 50''),
    (Some ''SIG51'', ''Real-time event 51''),
    (Some ''SIG52'', ''Real-time event 52''),
    (Some ''SIG53'', ''Real-time event 53''),
    (Some ''SIG54'', ''Real-time event 54''),
    (Some ''SIG55'', ''Real-time event 55''),
    (Some ''SIG56'', ''Real-time event 56''),
    (Some ''SIG57'', ''Real-time event 57''),
    (Some ''SIG58'', ''Real-time event 58''),
    (Some ''SIG59'', ''Real-time event 59''),
    (Some ''SIG60'', ''Real-time event 60''),
    (Some ''SIG61'', ''Real-time event 61''),
    (Some ''SIG62'', ''Real-time event 62''),
    (Some ''SIG63'', ''Real-time event 63''),
    (Some ''SIGCANCEL'', ''LWP internal signal''),
    (Some ''SIG32'', ''Real-time event 32''),
    (Some ''SIG64'', ''Real-time event 64''),
    (Some ''SIG65'', ''Real-time event 65''),
    (Some ''SIG66'', ''Real-time event 66''),
    (Some ''SIG67'', ''Real-time event 67''),
    (Some ''SIG68'', ''Real-time event 68''),
    (Some ''SIG69'', ''Real-time event 69''),
    (Some ''SIG70'', ''Real-time event 70''),
    (Some ''SIG71'', ''Real-time event 71''),
    (Some ''SIG72'', ''Real-time event 72''),
    (Some ''SIG73'', ''Real-time event 73''),
    (Some ''SIG74'', ''Real-time event 74''),
    (Some ''SIG75'', ''Real-time event 75''),
    (Some ''SIG76'', ''Real-time event 76''),
    (Some ''SIG77'', ''Real-time event 77''),
    (Some ''SIG78'', ''Real-time event 78''),
    (Some ''SIG79'', ''Real-time event 79''),
    (Some ''SIG80'', ''Real-time event 80''),
    (Some ''SIG81'', ''Real-time event 81''),
    (Some ''SIG82'', ''Real-time event 82''),
    (Some ''SIG83'', ''Real-time event 83''),
    (Some ''SIG84'', ''Real-time event 84''),
    (Some ''SIG85'', ''Real-time event 85''),
    (Some ''SIG86'', ''Real-time event 86''),
    (Some ''SIG87'', ''Real-time event 87''),
    (Some ''SIG88'', ''Real-time event 88''),
    (Some ''SIG89'', ''Real-time event 89''),
    (Some ''SIG90'', ''Real-time event 90''),
    (Some ''SIG91'', ''Real-time event 91''),
    (Some ''SIG92'', ''Real-time event 92''),
    (Some ''SIG93'', ''Real-time event 93''),
    (Some ''SIG94'', ''Real-time event 94''),
    (Some ''SIG95'', ''Real-time event 95''),
    (Some ''SIG96'', ''Real-time event 96''),
    (Some ''SIG97'', ''Real-time event 97''),
    (Some ''SIG98'', ''Real-time event 98''),
    (Some ''SIG99'', ''Real-time event 99''),
    (Some ''SIG100'', ''Real-time event 100''),
    (Some ''SIG101'', ''Real-time event 101''),
    (Some ''SIG102'', ''Real-time event 102''),
    (Some ''SIG103'', ''Real-time event 103''),
    (Some ''SIG104'', ''Real-time event 104''),
    (Some ''SIG105'', ''Real-time event 105''),
    (Some ''SIG106'', ''Real-time event 106''),
    (Some ''SIG107'', ''Real-time event 107''),
    (Some ''SIG108'', ''Real-time event 108''),
    (Some ''SIG109'', ''Real-time event 109''),
    (Some ''SIG110'', ''Real-time event 110''),
    (Some ''SIG111'', ''Real-time event 111''),
    (Some ''SIG112'', ''Real-time event 112''),
    (Some ''SIG113'', ''Real-time event 113''),
    (Some ''SIG114'', ''Real-time event 114''),
    (Some ''SIG115'', ''Real-time event 115''),
    (Some ''SIG116'', ''Real-time event 116''),
    (Some ''SIG117'', ''Real-time event 117''),
    (Some ''SIG118'', ''Real-time event 118''),
    (Some ''SIG119'', ''Real-time event 119''),
    (Some ''SIG120'', ''Real-time event 120''),
    (Some ''SIG121'', ''Real-time event 121''),
    (Some ''SIG122'', ''Real-time event 122''),
    (Some ''SIG123'', ''Real-time event 123''),
    (Some ''SIG124'', ''Real-time event 124''),
    (Some ''SIG125'', ''Real-time event 125''),
    (Some ''SIG126'', ''Real-time event 126''),
    (Some ''SIG127'', ''Real-time event 127''),
    (Some ''SIGINFO'', ''Information request''),
    (None, ''Unknown signal''),
    (None, ''Internal error: printing TARGET_SIGNAL_DEFAULT''),
    (Some ''EXC_BAD_ACCESS'', ''Could not access memory''),
    (Some ''EXC_BAD_INSTRUCTION'', ''Illegal instruction/operand''),
    (Some ''EXC_ARITHMETIC'', ''Arithmetic exception''),
    (Some ''EXC_EMULATION'', ''Emulation instruction''),
    (Some ''EXC_SOFTWARE'', ''Software generated exception''),
    (Some ''EXC_BREAKPOINT'', ''Breakpoint''),
    (None, ''TARGET_SIGNAL_MAGIC'')]"

definition target_signal_to_string :: "int \<Rightarrow> string" where
  "target_signal_to_string sig =
     (if sig \<ge> TARGET_SIGNAL_FIRST \<and> sig \<le> TARGET_SIGNAL_LAST then snd (signals ! nat sig)
      else snd (signals ! nat TARGET_SIGNAL_UNKNOWN))"

definition target_signal_to_name :: "int \<Rightarrow> string" where
  "target_signal_to_name sig =
     (if sig \<ge> TARGET_SIGNAL_FIRST \<and> sig \<le> TARGET_SIGNAL_LAST
      then (case fst (signals ! nat sig) of Some n \<Rightarrow> n | None \<Rightarrow> ''?'')
      else ''?'')"

function from_name_loop :: "string \<Rightarrow> int \<Rightarrow> int" where
  "from_name_loop name sig =
     (if sig < TARGET_SIGNAL_LAST
      then (if fst (signals ! nat sig) = Some name then sig else from_name_loop name (sig + 1))
      else TARGET_SIGNAL_UNKNOWN)"
  by pat_completeness auto
termination
  by (relation "measure (\<lambda>(name, sig). nat (TARGET_SIGNAL_LAST - sig))") auto

declare from_name_loop.simps [simp del]

definition target_signal_from_name :: "string \<Rightarrow> int" where
  "target_signal_from_name name = from_name_loop name TARGET_SIGNAL_HUP"

definition target_signal_from_command :: "int \<Rightarrow> int outcome" where
  "target_signal_from_command num =
     (if num \<ge> 1 \<and> num \<le> 15 then Ret num
      else Err ''Only signals 1-15 are valid as numeric signals.'')"

subsection \<open>The host's macros\<close>

datatype (plugins only: size) host_macro =
    SIGHUP | SIGINT | SIGQUIT | SIGILL | SIGTRAP | SIGABRT | SIGEMT | SIGFPE | SIGKILL | SIGBUS
  | SIGSEGV | SIGSYS | SIGPIPE | SIGALRM | SIGTERM | SIGUSR1 | SIGUSR2 | SIGCLD | SIGCHLD
  | SIGPWR | SIGWINCH | SIGURG | SIGIO | SIGPOLL | SIGSTOP | SIGTSTP | SIGCONT | SIGTTIN
  | SIGTTOU | SIGVTALRM | SIGPROF | SIGXCPU | SIGXFSZ | SIGWIND | SIGPHONE | SIGLOST
  | SIGWAITING | SIGCANCEL | SIGLWP | SIGDANGER | SIGGRANT | SIGRETRACT | SIGMSG | SIGSOUND
  | SIGSAK | SIGPRIO | EXC_BAD_ACCESS | EXC_BAD_INSTRUCTION | EXC_ARITHMETIC | EXC_EMULATION
  | EXC_SOFTWARE | EXC_BREAKPOINT | SIGINFO

record host_signals =
  hs_macro :: "host_macro \<Rightarrow> int option"
  hs_NSIG :: "int option"
  hs_realtime :: "(int \<times> int) option"

definition is_exc :: "host_macro \<Rightarrow> bool" where
  "is_exc m \<longleftrightarrow> m \<in> {EXC_BAD_ACCESS, EXC_BAD_INSTRUCTION, EXC_ARITHMETIC, EXC_EMULATION,
      EXC_SOFTWARE, EXC_BREAKPOINT}"

definition host_value :: "host_signals \<Rightarrow> host_macro \<Rightarrow> int option" where
  \<comment> \<open>the number a macro stands for, where the \<^verbatim>\<open>#if\<close> that guards it holds\<close>
  "host_value H m =
     (if is_exc m
      then (case (hs_macro H m, hs_NSIG H) of (Some e, Some n) \<Rightarrow> Some (n + e) | _ \<Rightarrow> None)
      else hs_macro H m)"

subsection \<open>From the host\<close>

definition from_host_unix :: "(host_macro \<times> int) list" where
  \<comment> \<open>the tests of the Unix signals, up to \<open>SIGTERM\<close>\<close>
  "from_host_unix = [
    (SIGHUP, TARGET_SIGNAL_HUP),
    (SIGINT, TARGET_SIGNAL_INT),
    (SIGQUIT, TARGET_SIGNAL_QUIT),
    (SIGILL, TARGET_SIGNAL_ILL),
    (SIGTRAP, TARGET_SIGNAL_TRAP),
    (SIGABRT, TARGET_SIGNAL_ABRT),
    (SIGEMT, TARGET_SIGNAL_EMT),
    (SIGFPE, TARGET_SIGNAL_FPE),
    (SIGKILL, TARGET_SIGNAL_KILL),
    (SIGBUS, TARGET_SIGNAL_BUS),
    (SIGSEGV, TARGET_SIGNAL_SEGV),
    (SIGSYS, TARGET_SIGNAL_SYS),
    (SIGPIPE, TARGET_SIGNAL_PIPE),
    (SIGALRM, TARGET_SIGNAL_ALRM),
    (SIGTERM, TARGET_SIGNAL_TERM)]"

definition from_host_job :: "(host_macro \<times> int) list" where
  \<comment> \<open>the tests of the signals for users, children, terminals and jobs\<close>
  "from_host_job = [
    (SIGUSR1, TARGET_SIGNAL_USR1),
    (SIGUSR2, TARGET_SIGNAL_USR2),
    (SIGCLD, TARGET_SIGNAL_CHLD),
    (SIGCHLD, TARGET_SIGNAL_CHLD),
    (SIGPWR, TARGET_SIGNAL_PWR),
    (SIGWINCH, TARGET_SIGNAL_WINCH),
    (SIGURG, TARGET_SIGNAL_URG),
    (SIGIO, TARGET_SIGNAL_IO),
    (SIGPOLL, TARGET_SIGNAL_POLL),
    (SIGSTOP, TARGET_SIGNAL_STOP),
    (SIGTSTP, TARGET_SIGNAL_TSTP),
    (SIGCONT, TARGET_SIGNAL_CONT),
    (SIGTTIN, TARGET_SIGNAL_TTIN),
    (SIGTTOU, TARGET_SIGNAL_TTOU),
    (SIGVTALRM, TARGET_SIGNAL_VTALRM),
    (SIGPROF, TARGET_SIGNAL_PROF),
    (SIGXCPU, TARGET_SIGNAL_XCPU),
    (SIGXFSZ, TARGET_SIGNAL_XFSZ)]"

definition from_host_system :: "(host_macro \<times> int) list" where
  \<comment> \<open>the tests of the signals of single systems\<close>
  "from_host_system = [
    (SIGWIND, TARGET_SIGNAL_WIND),
    (SIGPHONE, TARGET_SIGNAL_PHONE),
    (SIGLOST, TARGET_SIGNAL_LOST),
    (SIGWAITING, TARGET_SIGNAL_WAITING),
    (SIGCANCEL, TARGET_SIGNAL_CANCEL),
    (SIGLWP, TARGET_SIGNAL_LWP),
    (SIGDANGER, TARGET_SIGNAL_DANGER),
    (SIGGRANT, TARGET_SIGNAL_GRANT),
    (SIGRETRACT, TARGET_SIGNAL_RETRACT),
    (SIGMSG, TARGET_SIGNAL_MSG),
    (SIGSOUND, TARGET_SIGNAL_SOUND),
    (SIGSAK, TARGET_SIGNAL_SAK),
    (SIGPRIO, TARGET_SIGNAL_PRIO)]"

definition from_host_mach :: "(host_macro \<times> int) list" where
  \<comment> \<open>the tests of the Mach exceptions, and of SIGINFO behind them\<close>
  "from_host_mach = [
    (EXC_BAD_ACCESS, TARGET_EXC_BAD_ACCESS),
    (EXC_BAD_INSTRUCTION, TARGET_EXC_BAD_INSTRUCTION),
    (EXC_ARITHMETIC, TARGET_EXC_ARITHMETIC),
    (EXC_EMULATION, TARGET_EXC_EMULATION),
    (EXC_SOFTWARE, TARGET_EXC_SOFTWARE),
    (EXC_BREAKPOINT, TARGET_EXC_BREAKPOINT),
    (SIGINFO, TARGET_SIGNAL_INFO)]"

fun first_host :: "host_signals \<Rightarrow> (host_macro \<times> int) list \<Rightarrow> int \<Rightarrow> int option" where
  \<comment> \<open>the \<^verbatim>\<open>if (hostsig == ...) return ...;\<close> statements one after the other\<close>
  "first_host H [] hostsig = None"
| "first_host H ((m, t) # rows) hostsig =
     (if host_value H m = Some hostsig then Some t else first_host H rows hostsig)"

definition from_host_realtime :: "host_signals \<Rightarrow> int \<Rightarrow> int outcome" where
  \<comment> \<open>the block under \<^verbatim>\<open>#if defined (REALTIME_LO)\<close> and the final return\<close>
  "from_host_realtime H hostsig =
     (case hs_realtime H of
        None \<Rightarrow> Ret TARGET_SIGNAL_UNKNOWN
      | Some (lo, hi) \<Rightarrow>
          if hostsig \<ge> lo \<and> hostsig < hi
          then (if 33 \<le> hostsig \<and> hostsig \<le> 63 then Ret (hostsig - 33 + TARGET_SIGNAL_REALTIME_33)
                else if hostsig = 32 then Ret TARGET_SIGNAL_REALTIME_32
                else if 64 \<le> hostsig \<and> hostsig \<le> 127
                  then Ret (hostsig - 64 + TARGET_SIGNAL_REALTIME_64)
                else Err ''GDB bug: target.c (target_signal_from_host): unrecognized real-time signal'')
          else Ret TARGET_SIGNAL_UNKNOWN)"

definition from_host_rows :: "(host_macro \<times> int) list" where
  "from_host_rows = from_host_unix @ from_host_job @ from_host_system @ from_host_mach"

definition target_signal_from_host :: "host_signals \<Rightarrow> int \<Rightarrow> int outcome" where
  "target_signal_from_host H hostsig =
     (if hostsig = 0 then Ret TARGET_SIGNAL_0
      else case first_host H from_host_rows hostsig of
             Some t \<Rightarrow> Ret t
           | None \<Rightarrow> from_host_realtime H hostsig)"

subsection \<open>To the host\<close>

definition to_host_unix :: "(int \<times> host_macro) list" where
  \<comment> \<open>the cases of the Unix signals; where both SIGCHLD and SIGCLD exist SIGCHLD is taken\<close>
  "to_host_unix = [
    (TARGET_SIGNAL_HUP, SIGHUP),
    (TARGET_SIGNAL_INT, SIGINT),
    (TARGET_SIGNAL_QUIT, SIGQUIT),
    (TARGET_SIGNAL_ILL, SIGILL),
    (TARGET_SIGNAL_TRAP, SIGTRAP),
    (TARGET_SIGNAL_ABRT, SIGABRT),
    (TARGET_SIGNAL_EMT, SIGEMT),
    (TARGET_SIGNAL_FPE, SIGFPE),
    (TARGET_SIGNAL_KILL, SIGKILL),
    (TARGET_SIGNAL_BUS, SIGBUS),
    (TARGET_SIGNAL_SEGV, SIGSEGV),
    (TARGET_SIGNAL_SYS, SIGSYS),
    (TARGET_SIGNAL_PIPE, SIGPIPE),
    (TARGET_SIGNAL_ALRM, SIGALRM),
    (TARGET_SIGNAL_TERM, SIGTERM),
    (TARGET_SIGNAL_USR1, SIGUSR1),
    (TARGET_SIGNAL_USR2, SIGUSR2),
    (TARGET_SIGNAL_CHLD, SIGCHLD),
    (TARGET_SIGNAL_CHLD, SIGCLD),
    (TARGET_SIGNAL_PWR, SIGPWR),
    (TARGET_SIGNAL_WINCH, SIGWINCH),
    (TARGET_SIGNAL_URG, SIGURG),
    (TARGET_SIGNAL_IO, SIGIO),
    (TARGET_SIGNAL_POLL, SIGPOLL),
    (TARGET_SIGNAL_STOP, SIGSTOP),
    (TARGET_SIGNAL_TSTP, SIGTSTP),
    (TARGET_SIGNAL_CONT, SIGCONT),
    (TARGET_SIGNAL_TTIN, SIGTTIN),
    (TARGET_SIGNAL_TTOU, SIGTTOU),
    (TARGET_SIGNAL_VTALRM, SIGVTALRM),
    (TARGET_SIGNAL_PROF, SIGPROF),
    (TARGET_SIGNAL_XCPU, SIGXCPU),
    (TARGET_SIGNAL_XFSZ, SIGXFSZ)]"

definition to_host_system :: "(int \<times> host_macro) list" where
  \<comment> \<open>the cases of the signals of single systems\<close>
  "to_host_system = [
    (TARGET_SIGNAL_WIND, SIGWIND),
    (TARGET_SIGNAL_PHONE, SIGPHONE),
    (TARGET_SIGNAL_LOST, SIGLOST),
    (TARGET_SIGNAL_WAITING, SIGWAITING),
    (TARGET_SIGNAL_CANCEL, SIGCANCEL),
    (TARGET_SIGNAL_LWP, SIGLWP),
    (TARGET_SIGNAL_DANGER, SIGDANGER),
    (TARGET_SIGNAL_GRANT, SIGGRANT),
    (TARGET_SIGNAL_RETRACT, SIGRETRACT),
    (TARGET_SIGNAL_MSG, SIGMSG),
    (TARGET_SIGNAL_SOUND, SIGSOUND),
    (TARGET_SIGNAL_SAK, SIGSAK),
    (TARGET_SIGNAL_PRIO, SIGPRIO)]"

definition to_host_mach :: "(int \<times> host_macro) list" where
  \<comment> \<open>the cases of the Mach exceptions and SIGINFO\<close>
  "to_host_mach = [
    (TARGET_EXC_BAD_ACCESS, EXC_BAD_ACCESS),
    (TARGET_EXC_BAD_INSTRUCTION, EXC_BAD_INSTRUCTION),
    (TARGET_EXC_ARITHMETIC, EXC_ARITHMETIC),
    (TARGET_EXC_EMULATION, EXC_EMULATION),
    (TARGET_EXC_SOFTWARE, EXC_SOFTWARE),
    (TARGET_EXC_BREAKPOINT, EXC_BREAKPOINT),
    (TARGET_SIGNAL_INFO, SIGINFO)]"

fun switch_host :: "host_signals \<Rightarrow> (int \<times> host_macro) list \<Rightarrow> int \<Rightarrow> int option" where
  \<comment> \<open>a \<^verbatim>\<open>case\<close> label exists only where its macro is defined\<close>
  "switch_host H [] oursig = None"
| "switch_host H ((t, m) # rows) oursig =
     (if t = oursig \<and> host_value H m \<noteq> None then host_value H m else switch_host H rows oursig)"

definition to_host_default :: "host_signals \<Rightarrow> int \<Rightarrow> int \<times> bool" where
  \<comment> \<open>the \<^verbatim>\<open>default:\<close> label\<close>
  "to_host_default H oursig =
     (case hs_realtime H of
        None \<Rightarrow> (0, False)
      | Some (lo, hi) \<Rightarrow>
          let retsig =
            (if oursig \<ge> TARGET_SIGNAL_REALTIME_33 \<and> oursig \<le> TARGET_SIGNAL_REALTIME_63
             then oursig - TARGET_SIGNAL_REALTIME_33 + 33
             else if oursig = TARGET_SIGNAL_REALTIME_32 then 32
             else if oursig \<ge> TARGET_SIGNAL_REALTIME_64 \<and> oursig \<le> TARGET_SIGNAL_REALTIME_127
             then oursig - TARGET_SIGNAL_REALTIME_64 + 64
             else 0)
          in if retsig \<ge> lo \<and> retsig < hi then (retsig, True) else (0, False))"

definition to_host_rows :: "(int \<times> host_macro) list" where
  "to_host_rows = to_host_unix @ to_host_system @ to_host_mach"

definition do_target_signal_to_host :: "host_signals \<Rightarrow> int \<Rightarrow> int \<times> bool" where
  \<comment> \<open>the host signal and \<^verbatim>\<open>*oursig_ok\<close>\<close>
  "do_target_signal_to_host H oursig =
     (if oursig = TARGET_SIGNAL_0 then (0, True)
      else case switch_host H to_host_rows oursig of
             Some h \<Rightarrow> (h, True)
           | None \<Rightarrow> to_host_default H oursig)"

definition target_signal_to_host_p :: "host_signals \<Rightarrow> int \<Rightarrow> bool" where
  "target_signal_to_host_p H oursig = snd (do_target_signal_to_host H oursig)"

definition target_signal_to_host :: "host_signals \<Rightarrow> int \<Rightarrow> int" where
  "target_signal_to_host H oursig =
     (let (targ_signo, oursig_ok) = do_target_signal_to_host H oursig
      in if \<not> oursig_ok then 0 else targ_signo)"

subsection \<open>Mac OS X\<close>

definition darwin_host :: host_signals where
  \<comment> \<open>the values of Darwin's \<^verbatim>\<open><sys/signal.h>\<close>, which has no real-time signals and no \<^verbatim>\<open>_NSIG\<close>\<close>
  "darwin_host = \<lparr>
     hs_macro = map_of [(SIGHUP, 1), (SIGINT, 2), (SIGQUIT, 3), (SIGILL, 4), (SIGTRAP, 5),
       (SIGABRT, 6), (SIGEMT, 7), (SIGFPE, 8), (SIGKILL, 9), (SIGBUS, 10), (SIGSEGV, 11),
       (SIGSYS, 12), (SIGPIPE, 13), (SIGALRM, 14), (SIGTERM, 15), (SIGURG, 16), (SIGSTOP, 17),
       (SIGTSTP, 18), (SIGCONT, 19), (SIGCHLD, 20), (SIGTTIN, 21), (SIGTTOU, 22), (SIGIO, 23),
       (SIGXCPU, 24), (SIGXFSZ, 25), (SIGVTALRM, 26), (SIGPROF, 27), (SIGWINCH, 28),
       (SIGINFO, 29), (SIGUSR1, 30), (SIGUSR2, 31)],
     hs_NSIG = None,
     hs_realtime = None\<rparr>"


subsection \<open>Facts about the tables\<close>

lemmas from_host_tables = from_host_rows_def from_host_unix_def from_host_job_def from_host_system_def
  from_host_mach_def
lemmas to_host_tables = to_host_rows_def to_host_unix_def to_host_system_def to_host_mach_def

lemma to_rows_in_from: "list_all (\<lambda>(t, m). (m, t) \<in> set from_host_rows) to_host_rows"
  by (simp add: to_host_tables) (simp add: from_host_tables)

lemma from_rows_in_to: "list_all (\<lambda>(m, t). (t, m) \<in> set to_host_rows) from_host_rows"
  by (simp add: from_host_tables) (simp add: to_host_tables)

lemma rows_agree: "(t, m) \<in> set to_host_rows \<longleftrightarrow> (m, t) \<in> set from_host_rows"
  using to_rows_in_from from_rows_in_to by (auto simp: list_all_iff)

definition realtime_target :: "int \<Rightarrow> bool" where
  "realtime_target t \<longleftrightarrow> TARGET_SIGNAL_REALTIME_33 \<le> t \<and> t \<le> TARGET_SIGNAL_REALTIME_63
     \<or> TARGET_SIGNAL_REALTIME_32 \<le> t \<and> t \<le> TARGET_SIGNAL_REALTIME_127"

lemma row_targets:
  assumes "(m, t) \<in> set from_host_rows"
  shows "\<not> realtime_target t" "t \<noteq> 0" "t \<noteq> TARGET_SIGNAL_UNKNOWN" "0 \<le> t" "t < TARGET_SIGNAL_LAST"
proof -
  have "list_all (\<lambda>(m, t). \<not> realtime_target t \<and> t \<noteq> 0 \<and> t \<noteq> TARGET_SIGNAL_UNKNOWN
      \<and> 0 \<le> t \<and> t < TARGET_SIGNAL_LAST) from_host_rows"
    by (simp add: from_host_tables realtime_target_def)
  with assms have "\<not> realtime_target t \<and> t \<noteq> 0 \<and> t \<noteq> TARGET_SIGNAL_UNKNOWN
      \<and> 0 \<le> t \<and> t < TARGET_SIGNAL_LAST" by (auto simp: list_all_iff)
  then show "\<not> realtime_target t" "t \<noteq> 0" "t \<noteq> TARGET_SIGNAL_UNKNOWN" "0 \<le> t" "t < TARGET_SIGNAL_LAST"
    by simp_all
qed

definition coherent_host :: "host_signals \<Rightarrow> bool" where
  \<comment> \<open>what the translation needs of the host: no macro is 0, macros share a number exactly where
    they name one signal, and the real-time signals lie in 32 to 127, apart from the macros\<close>
  "coherent_host H \<longleftrightarrow>
     list_all (\<lambda>(m, t). host_value H m \<noteq> Some 0 \<and>
       list_all (\<lambda>(m', t'). host_value H m = None \<or> host_value H m' = None
           \<or> (host_value H m = host_value H m' \<longleftrightarrow> t = t')) from_host_rows) from_host_rows \<and>
     (case hs_realtime H of None \<Rightarrow> True | Some (lo, hi) \<Rightarrow> 32 \<le> lo \<and> hi \<le> 128 \<and>
       list_all (\<lambda>(m, t). case host_value H m of None \<Rightarrow> True | Some v \<Rightarrow> v < lo \<or> hi \<le> v)
         from_host_rows)"

lemma coherent_hostD:
  assumes "coherent_host H" and "(m, t) \<in> set from_host_rows" and "host_value H m = Some v"
  shows "v \<noteq> 0"
    and "(m', t') \<in> set from_host_rows \<Longrightarrow> host_value H m' = Some v' \<Longrightarrow> v = v' \<longleftrightarrow> t = t'"
    and "hs_realtime H = Some (lo, hi) \<Longrightarrow> v < lo \<or> hi \<le> v"
  using assms by (fastforce simp: coherent_host_def list_all_iff)+

lemma first_host_Some:
  "first_host H rows h = Some t \<Longrightarrow> \<exists>m. (m, t) \<in> set rows \<and> host_value H m = Some h"
  by (induction H rows h rule: first_host.induct) (auto split: if_splits)

lemma first_host_None:
  "first_host H rows h = None \<longleftrightarrow> (\<forall>m t. (m, t) \<in> set rows \<longrightarrow> host_value H m \<noteq> Some h)"
  by (induction H rows h rule: first_host.induct) auto

lemma switch_host_Some:
  "switch_host H rows t = Some h \<Longrightarrow> \<exists>m. (t, m) \<in> set rows \<and> host_value H m = Some h"
  by (induction H rows t rule: switch_host.induct) (auto split: if_splits)

lemma switch_host_None:
  "switch_host H rows t = None \<longleftrightarrow> (\<forall>m. (t, m) \<in> set rows \<longrightarrow> host_value H m = None)"
  by (induction H rows t rule: switch_host.induct) auto

lemma first_iff_switch:
  assumes "coherent_host H"
  shows "first_host H from_host_rows h = Some t \<longleftrightarrow> switch_host H to_host_rows t = Some h"
proof
  assume "first_host H from_host_rows h = Some t"
  then obtain m where m: "(m, t) \<in> set from_host_rows" "host_value H m = Some h"
    by (auto dest: first_host_Some)
  then have "switch_host H to_host_rows t \<noteq> None"
    by (auto simp: switch_host_None rows_agree)
  then obtain h' where h': "switch_host H to_host_rows t = Some h'" by auto
  then obtain m' where "(m', t) \<in> set from_host_rows" "host_value H m' = Some h'"
    by (auto dest: switch_host_Some simp: rows_agree)
  with coherent_hostD(2) [OF assms m] h' show "switch_host H to_host_rows t = Some h" by auto
next
  assume "switch_host H to_host_rows t = Some h"
  then obtain m where m: "(m, t) \<in> set from_host_rows" "host_value H m = Some h"
    by (auto dest: switch_host_Some simp: rows_agree)
  then have "first_host H from_host_rows h \<noteq> None" by (auto simp: first_host_None)
  then obtain t' where t': "first_host H from_host_rows h = Some t'" by auto
  then obtain m' where "(m', t') \<in> set from_host_rows" "host_value H m' = Some h"
    by (auto dest: first_host_Some)
  with coherent_hostD(2) [OF assms m] t' show "first_host H from_host_rows h = Some t" by auto
qed

lemma realtime_iff:
  assumes "coherent_host H" and "t \<noteq> TARGET_SIGNAL_UNKNOWN"
  shows "from_host_realtime H h = Ret t \<longleftrightarrow> to_host_default H t = (h, True)"
proof (cases "hs_realtime H")
  case None
  with assms show ?thesis by (auto simp: from_host_realtime_def to_host_default_def)
next
  case (Some r)
  obtain lo hi where r: "r = (lo, hi)" by (cases r)
  with assms Some have "32 \<le> lo" "hi \<le> 128" by (auto simp: coherent_host_def)
  with Some r assms show ?thesis
    by (auto simp: from_host_realtime_def to_host_default_def Let_def)
qed

lemma realtime_no_row:
  assumes "coherent_host H"
  shows "to_host_default H t = (h, True) \<Longrightarrow> switch_host H to_host_rows t = None"
    and "to_host_default H t = (h, True) \<Longrightarrow> first_host H from_host_rows h = None"
    and "to_host_default H t = (h, True) \<Longrightarrow> t \<noteq> 0 \<and> h \<noteq> 0"
proof -
  assume d: "to_host_default H t = (h, True)"
  then obtain lo hi where r: "hs_realtime H = Some (lo, hi)" "lo \<le> h" "h < hi"
    by (auto simp: to_host_default_def Let_def split: option.splits if_splits)
  with assms have lo: "32 \<le> lo" by (auto simp: coherent_host_def)
  with d r have "realtime_target t"
    by (auto simp: to_host_default_def realtime_target_def Let_def split: if_splits)
  then show "switch_host H to_host_rows t = None"
    by (auto simp: switch_host_None rows_agree dest: row_targets(1))
  show "first_host H from_host_rows h = None"
    using coherent_hostD(3) [OF assms _ _ r(1)] r by (fastforce simp: first_host_None)
  show "t \<noteq> 0 \<and> h \<noteq> 0" using \<open>realtime_target t\<close> lo r by (auto simp: realtime_target_def)
qed

lemma host_value_darwin: "host_value darwin_host m = hs_macro darwin_host m"
  by (auto simp: host_value_def darwin_host_def is_exc_def)

subsection \<open>Properties\<close>

text \<open>C27: the two translations between the host's signal numbers and the protocol's are inverse: for
  every signal but \<^verbatim>\<open>TARGET_SIGNAL_UNKNOWN\<close>, a host signal is translated to it exactly when it is
  translated back to that host signal.  The host must be coherent: no macro is 0, two macros share a
  number only where they name one signal, real-time signals lie in 32 to 127 apart from the macros.\<close>

theorem signal_translation_inverse:
  assumes "coherent_host H" and "t \<noteq> TARGET_SIGNAL_UNKNOWN"
  shows "target_signal_from_host H h = Ret t \<longleftrightarrow> do_target_signal_to_host H t = (h, True)"
proof (cases "t = 0 \<or> h = 0")
  case True
  have "switch_host H to_host_rows 0 = None"
    by (auto simp: switch_host_None rows_agree dest: row_targets(2))
  moreover have "switch_host H to_host_rows t \<noteq> Some 0"
    using coherent_hostD(1) [OF assms(1)] by (metis switch_host_Some rows_agree)
  moreover have "first_host H from_host_rows h \<noteq> Some 0"
    using row_targets(2) by (metis first_host_Some)
  moreover have "from_host_realtime H h \<noteq> Ret 0"
    by (auto simp: from_host_realtime_def split: option.splits)
  ultimately show ?thesis
    using True realtime_no_row(3) [OF assms(1), of t 0]
    by (auto simp: target_signal_from_host_def do_target_signal_to_host_def split: option.splits)
next
  case False
  note iff = first_iff_switch [OF assms(1), of h t]
  note none = realtime_no_row(1,2) [OF assms(1), of t h]
  show ?thesis
  proof (cases "first_host H from_host_rows h")
    case None
    with iff have "switch_host H to_host_rows t \<noteq> Some h" by simp
    with None none False realtime_iff [OF assms, of h] show ?thesis
      by (auto simp: target_signal_from_host_def do_target_signal_to_host_def split: option.splits)
  next
    case (Some t')
    with iff none False show ?thesis
      by (auto simp: target_signal_from_host_def do_target_signal_to_host_def split: option.splits)
  qed
qed

definition defined_rows :: "host_signals \<Rightarrow> (int \<times> int) list" where
  "defined_rows H = concat (map (\<lambda>(m, t). case host_value H m of None \<Rightarrow> [] | Some v \<Rightarrow> [(v, t)])
     from_host_rows)"

lemma defined_rowsI:
  "(m, t) \<in> set from_host_rows \<Longrightarrow> host_value H m = Some v \<Longrightarrow> (v, t) \<in> set (defined_rows H)"
  by (force simp: defined_rows_def)

lemma coherent_hostI:
  assumes "hs_realtime H = None" and "distinct (map fst (defined_rows H))"
    and "distinct (map snd (defined_rows H))" and "0 \<notin> fst ` set (defined_rows H)"
  shows "coherent_host H"
proof -
  have "v = v' \<longleftrightarrow> t = t'" if "(v, t) \<in> set (defined_rows H)" "(v', t') \<in> set (defined_rows H)"
    for v v' t t'
  proof -
    have "inj_on fst (set (defined_rows H))" "inj_on snd (set (defined_rows H))"
      using assms(2,3) by (simp_all add: distinct_map)
    from inj_onD [OF this(1) _ that] inj_onD [OF this(2) _ that] show ?thesis by auto
  qed
  moreover have "v \<noteq> 0" if "(v, t) \<in> set (defined_rows H)" for v t
    using assms(4) that by force
  ultimately have "\<And>m t v. (m, t) \<in> set from_host_rows \<Longrightarrow> host_value H m = Some v \<Longrightarrow> v \<noteq> 0"
    and "\<And>m t v m' t' v'. (m, t) \<in> set from_host_rows \<Longrightarrow> host_value H m = Some v \<Longrightarrow>
      (m', t') \<in> set from_host_rows \<Longrightarrow> host_value H m' = Some v' \<Longrightarrow> v = v' \<longleftrightarrow> t = t'"
    using defined_rowsI [of _ _ H] by metis+
  note facts = this
  have A: "host_value H m \<noteq> Some 0" if "(m, t) \<in> set from_host_rows" for m t
    using facts(1) [OF that] by auto
  have B: "host_value H m = None \<or> host_value H m' = None \<or> (host_value H m = host_value H m' \<longleftrightarrow> t = t')"
    if "(m, t) \<in> set from_host_rows" "(m', t') \<in> set from_host_rows" for m t m' t'
  proof (cases "host_value H m")
    case (Some v)
    then show ?thesis
      using facts(2) [OF that(1) Some that(2)] by (cases "host_value H m'") simp_all
  qed simp
  show ?thesis
    by (simp add: coherent_host_def list_all_iff assms(1) Ball_def split_paired_All) (use A B in blast)
qed

lemma darwin_rows: "defined_rows darwin_host =
  [(1, 1), (2, 2), (3, 3), (4, 4), (5, 5), (6, 6), (7, 7), (8, 8), (9, 9), (10, 10), (11, 11),
   (12, 12), (13, 13), (14, 14), (15, 15), (30, 30), (31, 31), (20, 20), (28, 28), (16, 16),
   (23, 23), (17, 17), (18, 18), (19, 19), (21, 21), (22, 22), (26, 26), (27, 27), (24, 24),
   (25, 25), (29, 142)]"
  by (simp add: defined_rows_def host_value_darwin from_host_tables) (simp add: darwin_host_def)

lemma darwin_coherent: "coherent_host darwin_host"
  by (rule coherent_hostI) (simp_all add: darwin_rows, simp add: darwin_host_def)

theorem signal_translation_inverse_witness:
  "target_signal_from_host darwin_host 10 = Ret 10 \<longleftrightarrow>
     do_target_signal_to_host darwin_host 10 = (10, True)"
  by (rule signal_translation_inverse [OF darwin_coherent]) simp

end
