(* ===== verification/Remote.thy ===== *)
theory Remote
  imports Target Framing Signals
begin

section \<open>Packets and replies over the state (src/remote-utils.c)\<close>

text \<open>
  The part of src/remote-utils.c that works on the globals: packets into and out of \<^verbatim>\<open>own_buf\<close>,
  the acknowledgement mode, interrupts, stop replies.  \<^verbatim>\<open>own_buf\<close> is one list of its full size, so
  that a reply that does not fit is a \<open>Fault\<close> and a handler that reads behind the end of a short
  packet finds what was there before.
\<close>

datatype sigio = Sigio_default | Sigio_ignored | Sigio_handled

record 'k remote_state = "'k target_state" +
  net :: net
  own_buf :: string
  no_ack_mode :: bool
  no_ack_mode_pending :: bool
  remote_debug :: bool
  sigio_action :: sigio
  sigio_blocked :: bool

subsection \<open>The buffer\<close>

definition put_str :: "nat \<Rightarrow> string \<Rightarrow> (('k, 'z) remote_state_scheme, unit) prog" where
  \<comment> \<open>characters stored at an offset of \<^verbatim>\<open>own_buf\<close>\<close>
  "put_str off str = bind_p (gets_p (\<lambda>s. store (own_buf s) off str)) (\<lambda>r.
     bind_p (outcome_p r) (\<lambda>b. modify_p (\<lambda>s. s\<lparr>own_buf := b\<rparr>)))"

definition reply :: "string \<Rightarrow> (('k, 'z) remote_state_scheme, unit) prog" where
  \<comment> \<open>\<^verbatim>\<open>strcpy (own_buf, ...)\<close>, or \<^verbatim>\<open>sprintf\<close> to its start\<close>
  "reply str = put_str 0 (str @ [NUL])"

definition write_ok :: "(('k, 'z) remote_state_scheme, unit) prog" where
  "write_ok = reply ''OK''"

definition write_enn :: "(('k, 'z) remote_state_scheme, unit) prog" where
  "write_enn = reply ''E01''"

definition packet :: "(('k, 'z) remote_state_scheme, string) prog" where
  \<comment> \<open>the C string in \<^verbatim>\<open>own_buf\<close>\<close>
  "packet = gets_p (\<lambda>s. cstr (own_buf s) 0)"

subsection \<open>Packets\<close>

definition putpkt_string ::
  "('k, 'z) remote_state_scheme target_ops \<Rightarrow> string \<Rightarrow> (('k, 'z) remote_state_scheme, int) prog"
where
  \<comment> \<open>\<^verbatim>\<open>buf2\<close> has \<^verbatim>\<open>PBUFSIZ\<close> bytes, for the frame and a NUL\<close>
  "putpkt_string T str =
     bind_p (gets_p PBUFSIZ) (\<lambda>size.
     if length (frame str) + 1 > size then fault_p
     else
       bind_p (gets_p no_ack_mode) (\<lambda>no_ack.
       bind_p (gets_p net) (\<lambda>nt.
       bind_p (putpkt_loop (send_signal T) no_ack (frame str) nt) (\<lambda>(r, nt').
       seq_p (modify_p (\<lambda>s. s\<lparr>net := nt'\<rparr>)) (return_p r)))))"

definition putpkt ::
  "('k, 'z) remote_state_scheme target_ops \<Rightarrow> (('k, 'z) remote_state_scheme, int) prog" where
  "putpkt T = bind_p packet (putpkt_string T)"

definition getpkt_own :: "(('k, 'z) remote_state_scheme, int) prog" where
  \<comment> \<open>\<^verbatim>\<open>getpkt (own_buf)\<close>\<close>
  "getpkt_own = (\<lambda>s.
     let (r, buf, nt) = getpkt (no_ack_mode s) (own_buf s) (net s)
     in (r, s\<lparr>own_buf := buf, net := nt\<rparr>))"

definition input_interrupt ::
  "('k, 'z) remote_state_scheme target_ops \<Rightarrow> (('k, 'z) remote_state_scheme, unit) prog" where
  \<comment> \<open>the handler of \<^verbatim>\<open>SIGIO\<close>; \<^verbatim>\<open>select\<close> reports data when there is an event to read\<close>
  "input_interrupt T =
     bind_p (gets_p net) (\<lambda>nt.
     if rx nt = [] then return_p ()
     else
       (let (cc, d, nt') = sock_read 1 nt
        in seq_p (modify_p (\<lambda>s. s\<lparr>net := nt'\<rparr>))
             (if cc \<noteq> 1 \<or> hd d \<noteq> CHR 0x03 then return_p () else send_signal T SIGINT_num)))"

definition block_async_io :: "(('k, 'z) remote_state_scheme, unit) prog" where
  "block_async_io = modify_p (\<lambda>s. s\<lparr>sigio_blocked := True\<rparr>)"

definition unblock_async_io :: "(('k, 'z) remote_state_scheme, unit) prog" where
  "unblock_async_io = modify_p (\<lambda>s. s\<lparr>sigio_blocked := False\<rparr>)"

definition enable_async_io :: "(('k, 'z) remote_state_scheme, unit) prog" where
  "enable_async_io = modify_p (\<lambda>s. s\<lparr>sigio_action := Sigio_handled\<rparr>)"

definition disable_async_io :: "(('k, 'z) remote_state_scheme, unit) prog" where
  "disable_async_io = modify_p (\<lambda>s. s\<lparr>sigio_action := Sigio_ignored\<rparr>)"

definition new_thread_notify :: "int \<Rightarrow> (('k, 'z) remote_state_scheme, unit) prog" where
  \<comment> \<open>returns at once, whatever \<^verbatim>\<open>server_waiting\<close> is\<close>
  "new_thread_notify i = return_p ()"

definition dead_thread_notify :: "int \<Rightarrow> (('k, 'z) remote_state_scheme, unit) prog" where
  "dead_thread_notify i = return_p ()"

record network =
  \<comment> \<open>what the operating system does when a connection is opened\<close>
  n_open :: "string \<Rightarrow> net option" \<comment> \<open>\<^verbatim>\<open>open\<close> of a serial device\<close>
  n_socket :: bool \<comment> \<open>whether \<^verbatim>\<open>socket\<close> succeeds\<close>
  n_bind :: "16 word \<Rightarrow> bool" \<comment> \<open>\<^verbatim>\<open>bind\<close> to the port and \<^verbatim>\<open>listen\<close>\<close>
  n_accept :: "16 word \<Rightarrow> net option" \<comment> \<open>\<^verbatim>\<open>accept\<close>: the connection of the client\<close>

definition open_serial :: "network \<Rightarrow> string \<Rightarrow> (('k, 'z) remote_state_scheme, net) prog" where
  "open_serial N name = (case n_open N name of
      None \<Rightarrow> error_p ''Could not open remote device''
    | Some conn \<Rightarrow> return_p conn)"

definition open_tcp :: "network \<Rightarrow> string \<Rightarrow> (('k, 'z) remote_state_scheme, net) prog" where
  \<comment> \<open>from the colon on; the first acknowledgement is written whatever becomes of it\<close>
  "open_tcp N port_str =
     (let port = word_of_int (atoi (drop 1 port_str)) in
      if \<not> n_socket N then error_p ''Can't open socket''
      else if \<not> n_bind N port then error_p ''Can't bind address''
      else (case n_accept N port of
          None \<Rightarrow> error_p ''Accept failed''
        | Some conn \<Rightarrow> return_p (snd (sock_write ''+'' conn))))"

definition remote_open :: "network \<Rightarrow> string \<Rightarrow> (('k, 'z) remote_state_scheme, unit) prog" where
  \<comment> \<open>the settings of the serial line and of the sockets are left out\<close>
  "remote_open N name =
     (let port_str = dropWhile (\<lambda>c. c \<noteq> CHR '':'') name in
      bind_p (if port_str = [] then open_serial N name else open_tcp N port_str) (\<lambda>conn.
      seq_p (modify_p (\<lambda>s. s\<lparr>net := conn\<rparr>)) disable_async_io))"

definition remote_close :: "(('k, 'z) remote_state_scheme, unit) prog" where
  "remote_close = modify_p (\<lambda>s. s\<lparr>no_ack_mode := False, no_ack_mode_pending := False\<rparr>)"

subsection \<open>Stop replies\<close>

definition nibble :: "int \<Rightarrow> string" where
  "nibble n = [tohex n]"

definition reg_prefix :: "int \<Rightarrow> string" where
  \<comment> \<open>the register number as \<^verbatim>\<open>outreg\<close> prints it, with its colon\<close>
  "reg_prefix regno =
     (if drop_bit 12 regno \<noteq> 0 then nibble (drop_bit 12 regno AND 15) else [])
     @ (if drop_bit 8 regno \<noteq> 0 then nibble (drop_bit 8 regno AND 15) else [])
     @ nibble (drop_bit 4 regno AND 15) @ nibble (regno AND 15) @ '':''"

definition outreg ::
  "('k, 'z) remote_state_scheme target_ops \<Rightarrow> int \<Rightarrow> nat \<Rightarrow> (('k, 'z) remote_state_scheme, nat) prog"
where
  \<comment> \<open>writes at an offset of \<^verbatim>\<open>own_buf\<close> and returns the offset behind\<close>
  "outreg T regno pos =
     seq_p (put_str pos (reg_prefix regno))
     (let pos1 = pos + length (reg_prefix regno) in
      bind_p (collect_register_as_string (Some (fetch_registers T)) regno) (\<lambda>str.
      seq_p (put_str pos1 str)
      (bind_p (register_size regno) (\<lambda>sz.
      seq_p (put_str (pos1 + 2 * sz) '';'') (return_p (pos1 + 2 * sz + 1))))))"

primrec outregs ::
  "('k, 'z) remote_state_scheme target_ops \<Rightarrow> string list \<Rightarrow> nat \<Rightarrow>
     (('k, 'z) remote_state_scheme, nat) prog" where
  "outregs T [] pos = return_p pos"
| "outregs T (r # rs) pos =
     bind_p (find_regno r) (\<lambda>n. bind_p (outreg T n pos) (outregs T rs))"

definition current_thread_id :: "(('k, 'z) remote_state_scheme, int) prog" where
  \<comment> \<open>\<^verbatim>\<open>((struct inferior_list_entry *) current_inferior)->id\<close>\<close>
  "current_thread_id = deref_p (\<lambda>s. case current_inferior s of None \<Rightarrow> None
     | Some a \<Rightarrow> (case entries s a of None \<Rightarrow> None | Some e \<Rightarrow> Some (ent_id e)))"

definition thread_part :: "nat \<Rightarrow> (('k, 'z) remote_state_scheme, nat) prog" where
  "thread_part pos =
     bind_p (gets_p using_threads) (\<lambda>threads.
     if \<not> threads then return_p pos
     else
       bind_p current_thread_id (\<lambda>tid.
       seq_p (modify_p (\<lambda>s. s\<lparr>thread_from_wait := tid, general_thread := tid\<rparr>))
       (let str = ''thread:'' @ fmt_x tid @ '';'' in
        seq_p (put_str pos (str @ [NUL]))
        (seq_p (modify_p (\<lambda>s. s\<lparr>old_thread_from_wait := tid\<rparr>))
          (return_p (pos + length str))))))"

definition prepare_resume_reply ::
  "host_signals \<Rightarrow> ('k, 'z) remote_state_scheme target_ops \<Rightarrow> char \<Rightarrow> byte \<Rightarrow>
     (('k, 'z) remote_state_scheme, unit) prog" where
  "prepare_resume_reply H T st signo =
     seq_p (put_str 0 [st])
     (bind_p (outcome_p (target_signal_from_host H (uint signo))) (\<lambda>sig.
      seq_p (put_str 1 (nibble (drop_bit 4 (sig AND 240)) @ nibble (sig AND 15)))
      (bind_p
        (if st = CHR ''T''
         then bind_p (gets_p gdbserver_expedite_regs) (\<lambda>regs.
              bind_p (outregs T regs 3) thread_part)
         else return_p 3)
        (\<lambda>pos. put_str pos [NUL]))))"

subsection \<open>Symbols\<close>

definition look_up_one_symbol ::
  "('k, 'z) remote_state_scheme target_ops \<Rightarrow> string \<Rightarrow>
     (('k, 'z) remote_state_scheme, int \<times> int option) prog" where
  \<comment> \<open>the result and, where it is 1, the address; the packet is built and read in a local buffer of
    266 characters\<close>
  "look_up_one_symbol T name =
     (let request = ''qSymbol:'' @ fst (hexify (map byte_of_char name) (length name)) in
      if length request > 266 then fault_p
      else
        bind_p (putpkt_string T (cstr request 0)) (\<lambda>r.
        if r < 0 then return_p (- 1, None)
        else
          bind_p (\<lambda>s. let (r, buf, nt) = getpkt (no_ack_mode s) (overwrite (replicate 266 NUL) 0 request) (net s)
                      in (bind_o r (\<lambda>n. Ret (n, buf)), s\<lparr>net := nt\<rparr>)) (\<lambda>(len, buf).
          if len < 0 then return_p (- 1, None)
          else if \<not> starts_with ''qSymbol:'' (cstr buf 0) then return_p (- 1, None)
          else
            (let p = drop 8 (cstr buf 0);
                 q = dropWhile (\<lambda>c. c \<noteq> CHR '':'') p
             in if length p = length q \<or> q = [] then return_p (0, None)
                else
                  bind_p (outcome_p (decode_address p (length p - length q))) (\<lambda>addr.
                  return_p (1, Some addr))))))"

end
