(* ===== verification/Server.thy ===== *)
theory Server
  imports Remote
begin

section \<open>The server: packet handlers (src/server.c)\<close>

text \<open>
  Every handler of src/server.c over the global state.  \<open>T\<close> is the target's table of operations,
  \<open>H\<close> the host's signal numbers, \<open>K\<close> the kernel (for the one \<^verbatim>\<open>waitpid\<close> of src/server.c).  Handlers
  read their packet from \<^verbatim>\<open>own_buf\<close> and leave the reply there.  \<^verbatim>\<open>status\<close>, \<^verbatim>\<open>sig\<close> and \<^verbatim>\<open>mem_buf\<close>
  are locals of \<^verbatim>\<open>main\<close> that are passed by address, so they are part of the state and survive a
  \<^verbatim>\<open>longjmp\<close>.  Logging is left out.
\<close>

record 'k server_state = "'k remote_state" +
  mem_buf :: "byte list"
  status :: char
  sig :: byte
  extended_protocol :: bool
  signal_pid :: int
  attached :: bool
  verbosity :: int
  thread_ptr :: "nat option"    \<comment> \<open>the static variable of \<^verbatim>\<open>handle_query\<close>\<close>

subsection \<open>Queries\<close>

definition entry_at :: "nat option \<Rightarrow> (('k, 'z) server_state_scheme, inferior_list_entry) prog" where
  "entry_at p = deref_p (\<lambda>s. case p of None \<Rightarrow> None | Some a \<Rightarrow> entries s a)"

definition empty_reply :: "(('k, 'z) server_state_scheme, unit) prog" where
  \<comment> \<open>\<^verbatim>\<open>own_buf[0] = 0\<close>\<close>
  "empty_reply = put_str 0 [NUL]"

definition thread_info_reply :: "(('k, 'z) server_state_scheme, unit) prog" where
  \<comment> \<open>prints the thread at \<^verbatim>\<open>thread_ptr\<close> and advances\<close>
  "thread_info_reply =
     bind_p (gets_p thread_ptr) (\<lambda>p.
     bind_p (entry_at p) (\<lambda>e.
     seq_p (reply (''m'' @ fmt_x (ent_id e)))
       (modify_p (\<lambda>s. s\<lparr>thread_ptr := next_ptr e\<rparr>))))"

definition read_auxv_reply ::
  "(int \<Rightarrow> nat \<Rightarrow> (('k, 'z) server_state_scheme, int \<times> byte list) prog) \<Rightarrow> string \<Rightarrow>
     (('k, 'z) server_state_scheme, unit) prog" where
  "read_auxv_reply auxv arg =
     bind_p (gets_p PBUFSIZ) (\<lambda>size.
     bind_p (outcome_p (decode_m_packet arg)) (\<lambda>(ofs, len).
     (let room = (size - 1) div 2 in
      bind_p (auxv ofs (if len > room then room else len)) (\<lambda>(n, bytes).
      case store (replicate room 0) 0 bytes of
        Ret data \<Rightarrow>
          if n = 0 then write_ok
          else if n < 0 then write_enn
          else if int room < n then fault_p
          else put_str 0 (convert_int_to_ascii data (nat n))
      | _ \<Rightarrow> fault_p))))"

definition handle_query ::
  "('k, 'z) server_state_scheme target_ops \<Rightarrow> (('k, 'z) server_state_scheme, unit) prog" where
  "handle_query T =
     bind_p packet (\<lambda>p.
     if p = ''qC'' then
       bind_p (gets_p all_threads) (\<lambda>l.
       case head l of
         None \<Rightarrow> empty_reply
       | Some a \<Rightarrow> bind_p (entry_at (Some a)) (\<lambda>e. reply (''QC'' @ fmt_x (ent_id e))))
     else if starts_with ''qSupported'' p then
       bind_p (gets_p PBUFSIZ) (\<lambda>size. reply (''PacketSize='' @ fmt_x (int size - 1)))
     else if p = ''qAttached'' then reply ''0''
     else if p = ''qSymbol::'' then
       seq_p (case look_up_symbols T of None \<Rightarrow> return_p () | Some look_up \<Rightarrow> look_up)
         (reply ''OK'')
     else if p = ''qfThreadInfo'' then
       seq_p (modify_p (\<lambda>s. s\<lparr>thread_ptr := head (all_threads s)\<rparr>)) thread_info_reply
     else if p = ''qsThreadInfo'' then
       bind_p (gets_p thread_ptr) (\<lambda>t. if t \<noteq> None then thread_info_reply else reply ''l'')
     else
       (case read_auxv T of
          Some auxv \<Rightarrow>
            if starts_with ''qPart:auxv:read::'' p then read_auxv_reply auxv (drop 17 p)
            else empty_reply
        | None \<Rightarrow> empty_reply))"

definition handle_set :: "(('k, 'z) server_state_scheme, unit) prog" where
  "handle_set =
     bind_p packet (\<lambda>p.
     if p = ''QStartNoAckMode'' then
       seq_p write_ok (modify_p (\<lambda>s. s\<lparr>no_ack_mode := True\<rparr>))
     else if starts_with ''QPassSignals:'' p then write_ok
     else if starts_with ''QNonStop:'' p then empty_reply
     else empty_reply)"

subsection \<open>Resuming\<close>

definition wait_and_reply ::
  "host_signals \<Rightarrow> ('k, 'z) server_state_scheme target_ops \<Rightarrow>
     (('k, 'z) server_state_scheme, unit) prog" where
  \<comment> \<open>\<^verbatim>\<open>*sig_out = mywait (status, 1); prepare_resume_reply (buf, *status, *sig_out)\<close>\<close>
  "wait_and_reply H T =
     bind_p (mywait T True) (\<lambda>(st, sg).
     seq_p (modify_p (\<lambda>s. s\<lparr>status := st, sig := sg\<rparr>))
       (prepare_resume_reply H T st sg))"

definition vcont_count :: "string \<Rightarrow> nat" where
  \<comment> \<open>the first loop of \<^verbatim>\<open>handle_v_cont\<close>, on the string from its first semicolon\<close>
  "vcont_count str = Suc (length (filter (\<lambda>c. c = CHR '';'') (drop 1 str)))"

definition vcont_signal ::
  "host_signals \<Rightarrow> string \<Rightarrow> thread_resume \<Rightarrow> (string \<times> thread_resume) option" where
  \<comment> \<open>the action letter at \<^verbatim>\<open>p\<close> and its signal: where \<^verbatim>\<open>p\<close> is then and the slot, or \<^verbatim>\<open>goto err\<close>\<close>
  "vcont_signal H p r =
     (if chr_at p 0 \<in> {CHR ''s'', CHR ''S'', CHR ''c'', CHR ''C''}
      then
        (let r1 = r\<lparr>tr_step := chr_at p 0 \<in> {CHR ''s'', CHR ''S''}\<rparr>
         in if chr_at p 0 \<in> {CHR ''S'', CHR ''C''}
            then
              (let (sg, q) = strtol 16 (drop 1 p)
               in if length p = length q then None
                  else if \<not> target_signal_to_host_p H sg then None
                  else Some (q, r1\<lparr>tr_sig := target_signal_to_host H sg\<rparr>))
            else Some (drop 1 p, r1\<lparr>tr_sig := 0\<rparr>))
      else None)"

lemma strtol_length: "length (snd (strtol b str)) \<le> length str"
  using strtol_suffix [of str b] by (metis le_add2 length_append)

lemma vcont_signal_length: "vcont_signal H p r = Some (q, r') \<Longrightarrow> length q < length p"
  using strtol_length [of 16 "drop 1 p"]
  by (cases p) (auto simp: vcont_signal_def NUL_def Let_def split: if_splits prod.splits)

type_synonym vcont_result = "(nat \<times> thread_resume list \<times> thread_resume) option"

function vcont_loop ::
  "host_signals \<Rightarrow> string \<Rightarrow> nat \<Rightarrow> thread_resume list \<Rightarrow> thread_resume \<Rightarrow> vcont_result outcome"
where
  \<comment> \<open>the loop over the actions; \<open>None\<close> is \<^verbatim>\<open>goto err\<close>\<close>
  "vcont_loop H [] i info dflt = Ret (Some (i, info, dflt))"
| "vcont_loop H (c # p) i info dflt =
     (if length info \<le> i then Fault
      else case vcont_signal H p ((info ! i)\<lparr>leave_stopped := False\<rparr>) of
          None \<Rightarrow> Ret None
        | Some (q, r) \<Rightarrow>
            if chr_at q 0 = NUL then
              vcont_loop H q i (info[i := r\<lparr>tr_thread := - 1\<rparr>]) (r\<lparr>tr_thread := - 1\<rparr>)
            else if chr_at q 0 = CHR '':'' then
              (let (t, q2) = strtol 16 (drop 1 q)
               in if length q = length q2 then Ret None
                  else if chr_at q2 0 \<noteq> CHR '';'' \<and> chr_at q2 0 \<noteq> NUL then Ret None
                  else vcont_loop H q2 (Suc i) (info[i := r\<lparr>tr_thread := t\<rparr>]) dflt)
            else vcont_loop H q i (info[i := r]) dflt)"
  by pat_completeness auto
termination
  using strtol_length
  by (relation "measure (\<lambda>(_, p, _). length p)")
    (auto dest!: vcont_signal_length, (metis diff_le_self le_less_trans length_drop less_SucI snd_conv
      le_imp_less_Suc order_trans)+)

declare vcont_loop.simps [simp del]

definition blank_resume :: thread_resume where
  \<comment> \<open>a slot of \<^verbatim>\<open>resume_info\<close> before it is written; none is read before\<close>
  "blank_resume = \<lparr>tr_thread = 0, leave_stopped = False, tr_step = False, tr_sig = 0\<rparr>"

definition vcont_default :: thread_resume where
  "vcont_default = \<lparr>tr_thread = - 1, leave_stopped = True, tr_step = False, tr_sig = 0\<rparr>"

definition vcont_parse :: "host_signals \<Rightarrow> string \<Rightarrow> thread_resume list option outcome" where
  \<comment> \<open>\<^verbatim>\<open>resume_info\<close> for the string at \<^verbatim>\<open>own_buf[5]\<close>, up to the call of \<^verbatim>\<open>resume\<close>\<close>
  "vcont_parse H str =
     (let n = vcont_count str
      in bind_o (vcont_loop H str 0 (replicate (n + 1) blank_resume) vcont_default) (\<lambda>r.
           case r of
             None \<Rightarrow> Ret None
           | Some (i, info, dflt) \<Rightarrow>
               if length info \<le> i then Fault else Ret (Some (info[i := dflt]))))"

definition handle_v_cont ::
  "host_signals \<Rightarrow> ('k, 'z) server_state_scheme target_ops \<Rightarrow>
     (('k, 'z) server_state_scheme, unit) prog" where
  "handle_v_cont H T =
     bind_p (gets_p (\<lambda>s. cstr (own_buf s) 5)) (\<lambda>str.
     bind_p (outcome_p (vcont_parse H str)) (\<lambda>r.
     case r of
       None \<Rightarrow> reply []
     | Some info \<Rightarrow>
         seq_p (modify_p (\<lambda>s. s\<lparr>cont_thread :=
           (if vcont_count str = 1 \<and> tr_thread (info ! 0) \<noteq> - 1 then tr_thread (info ! 0) else - 1)\<rparr>))
         (seq_p (set_desired_inferior False)
         (seq_p (t_resume T info)
           (wait_and_reply H T)))))"

definition handle_v_requests ::
  "host_signals \<Rightarrow> ('k, 'z) server_state_scheme target_ops \<Rightarrow>
     (('k, 'z) server_state_scheme, unit) prog" where
  "handle_v_requests H T =
     bind_p packet (\<lambda>p.
     if starts_with ''vCont;'' p then handle_v_cont H T
     else if starts_with ''vCont?'' p then reply ''vCont;c;C;s;S''
     else empty_reply)"

definition myresume ::
  "('k, 'z) server_state_scheme target_ops \<Rightarrow> bool \<Rightarrow> int \<Rightarrow>
     (('k, 'z) server_state_scheme, unit) prog" where
  "myresume T step sg =
     bind_p (gets_p cont_thread) (\<lambda>cont.
     bind_p
       (if step \<or> sg \<noteq> 0 \<or> cont > 0
        then bind_p current_thread_id (\<lambda>tid. return_p
          [\<lparr>tr_thread = tid, leave_stopped = False, tr_step = step, tr_sig = sg\<rparr>])
        else return_p []) (\<lambda>first.
     t_resume T (first @
       [\<lparr>tr_thread = - 1, leave_stopped = cont > 0, tr_step = False, tr_sig = 0\<rparr>])))"

definition parse_signal_byte :: "host_signals \<Rightarrow> string \<Rightarrow> byte outcome" where
  "parse_signal_byte H p =
     (case convert_ascii_to_int p 1 of
        (bs, Ret _) \<Rightarrow>
          Ret (if target_signal_to_host_p H (uint (hd bs))
               then word_of_int (target_signal_to_host H (uint (hd bs))) else 0)
      | (_, r) \<Rightarrow> bind_o r (\<lambda>_. Ret 0))"

definition resume_and_wait ::
  "host_signals \<Rightarrow> ('k, 'z) server_state_scheme target_ops \<Rightarrow> bool \<Rightarrow> int \<Rightarrow>
     (('k, 'z) server_state_scheme, unit) prog" where
  \<comment> \<open>the common end of \<^verbatim>\<open>handle_C_continue_signal\<close>, \<^verbatim>\<open>handle_S_step_signal\<close>, \<^verbatim>\<open>handle_c_continue\<close>
    and \<^verbatim>\<open>handle_s_step\<close>\<close>
  "resume_and_wait H T step sg =
     seq_p (set_desired_inferior False) (seq_p (myresume T step sg) (wait_and_reply H T))"

definition handle_CS_signal ::
  "host_signals \<Rightarrow> ('k, 'z) server_state_scheme target_ops \<Rightarrow> bool \<Rightarrow>
     (('k, 'z) server_state_scheme, unit) prog" where
  \<comment> \<open>\<^verbatim>\<open>handle_C_continue_signal\<close> and \<^verbatim>\<open>handle_S_step_signal\<close>\<close>
  "handle_CS_signal H T step =
     bind_p packet (\<lambda>p. bind_p (outcome_p (parse_signal_byte H (drop 1 p)))
       (\<lambda>sg. resume_and_wait H T step (uint sg)))"

end
