(* ===== verification/Dispatch.thy ===== *)
theory Dispatch
  imports Server
begin

section \<open>The server: dispatch, start-up and the packet loop (src/server.c)\<close>

text \<open>
  The handlers for registers, memory, threads and breakpoints, the dispatch on the first character
  of a packet, the start of the inferior, and \<^verbatim>\<open>main\<close>.  An \<open>Err\<close> that reaches the packet loop is the
  \<^verbatim>\<open>longjmp\<close> to its \<^verbatim>\<open>setjmp\<close>: the loop goes on with the next packet, without a reply.
\<close>

subsection \<open>Threads and registers\<close>

definition handle_d_toggle_debug :: "(('k, 'z) server_state_scheme, unit) prog" where
  "handle_d_toggle_debug = modify_p (\<lambda>s. s\<lparr>remote_debug := \<not> remote_debug s\<rparr>)"

partial_function (option) detach_wait :: "'k kernel \<Rightarrow> int \<Rightarrow> 'k \<Rightarrow> (unit \<times> 'k) option" where
  \<comment> \<open>waits until the process has ended or is no child; a status that no call has filled in counts
    as neither\<close>
  "detach_wait K pid k =
     (case k_waitpid K pid k of
        (WaitDone w, k') \<Rightarrow>
          (case w of
             WExited _ \<Rightarrow> Some ((), k')
           | WSignaled _ \<Rightarrow> Some ((), k')
           | _ \<Rightarrow> detach_wait K pid k')
      | (WaitFailed e, k') \<Rightarrow> if e = ECHILD then Some ((), k') else detach_wait K pid k')"

definition handle_D_detach ::
  "'k kernel \<Rightarrow> ('k, 'z) server_state_scheme target_ops \<Rightarrow> (('k, 'z) server_state_scheme, unit) prog"
where
  "handle_D_detach K T =
     seq_p (t_detach T)
     (seq_p write_ok
     (bind_p (putpkt T) (\<lambda>_.
      seq_p remote_close
      (bind_p (gets_p attached) (\<lambda>att.
       bind_p (gets_p signal_pid) (\<lambda>pid.
       seq_p (when_p (\<not> att) (kcall_loop (detach_wait K pid)))
         (exit_p 0)))))))"

definition handle_question ::
  "host_signals \<Rightarrow> ('k, 'z) server_state_scheme target_ops \<Rightarrow>
     (('k, 'z) server_state_scheme, unit) prog" where
  "handle_question H T =
     bind_p (gets_p status) (\<lambda>st. bind_p (gets_p sig) (prepare_resume_reply H T st))"

definition handle_H_set_thread :: "(('k, 'z) server_state_scheme, unit) prog" where
  "handle_H_set_thread =
     bind_p packet (\<lambda>p.
     (let n = fst (strtol 16 (drop 2 p)) in
      if chr_at p 1 = CHR ''g'' then
        seq_p (modify_p (\<lambda>s. s\<lparr>general_thread := n\<rparr>)) (seq_p write_ok (set_desired_inferior True))
      else if chr_at p 1 = CHR ''c'' then seq_p (modify_p (\<lambda>s. s\<lparr>cont_thread := n\<rparr>)) write_ok
      else if chr_at p 1 = CHR ''s'' then seq_p (modify_p (\<lambda>s. s\<lparr>step_thread := n\<rparr>)) write_ok
      else empty_reply))"

definition handle_g_read_regs ::
  "('k, 'z) server_state_scheme target_ops \<Rightarrow> (('k, 'z) server_state_scheme, unit) prog" where
  "handle_g_read_regs T =
     seq_p (set_desired_inferior True)
     (bind_p (registers_to_string (Some (fetch_registers T))) (put_str 0))"

definition handle_G_write_regs ::
  "('k, 'z) server_state_scheme target_ops \<Rightarrow> (('k, 'z) server_state_scheme, unit) prog" where
  "handle_G_write_regs T =
     bind_p packet (\<lambda>p.
     seq_p (set_desired_inferior True)
     (seq_p (registers_from_string (Some (fetch_registers T)) (drop 1 p)) write_ok))"

definition handle_p_read_reg ::
  "('k, 'z) server_state_scheme target_ops \<Rightarrow> (('k, 'z) server_state_scheme, unit) prog" where
  "handle_p_read_reg T =
     bind_p packet (\<lambda>p.
     (let regno = fst (strtol 16 (drop 1 p)) in
      seq_p (set_desired_inferior True)
      (if regno \<ge> 0 \<and> find_register_by_number regno \<noteq> None
       then bind_p (collect_register_as_string (Some (fetch_registers T)) regno) (put_str 0)
       else write_enn)))"

definition handle_P_write_reg :: "(('k, 'z) server_state_scheme, unit) prog" where
  "handle_P_write_reg =
     bind_p packet (\<lambda>p.
     (let (regno, rest) = strtol 16 (drop 1 p);
          regbytes = (if chr_at rest 0 = CHR ''='' then drop 1 rest else rest) in
      seq_p (set_desired_inferior True)
      (if regno \<ge> 0 \<and> find_register_by_number regno \<noteq> None
       then
         bind_p (register_size regno) (\<lambda>regsize.
         (let (bs, r) = convert_ascii_to_int regbytes regsize in
          if length bs > 16 then fault_p
          else bind_p (outcome_p r) (\<lambda>_. seq_p (supply_register regno bs) write_ok)))
       else write_enn)))"

definition handle_T_thread_alive ::
  "('k, 'z) server_state_scheme target_ops \<Rightarrow> (('k, 'z) server_state_scheme, unit) prog" where
  "handle_T_thread_alive T =
     bind_p packet (\<lambda>p.
     bind_p (thread_alive T (fst (strtol 16 (drop 1 p)))) (\<lambda>alive.
     if alive then write_ok else write_enn))"

subsection \<open>Memory and breakpoints\<close>

definition set_mem_buf :: "byte list \<Rightarrow> (('k, 'z) server_state_scheme, unit) prog" where
  \<comment> \<open>bytes stored from the start of \<^verbatim>\<open>mem_buf\<close>\<close>
  "set_mem_buf bs = bind_p (gets_p (\<lambda>s. store (mem_buf s) 0 bs)) (\<lambda>r.
     bind_p (outcome_p r) (\<lambda>m. modify_p (\<lambda>s. s\<lparr>mem_buf := m\<rparr>)))"

definition handle_m_read_mem ::
  "('k, 'z) server_state_scheme target_ops \<Rightarrow> (('k, 'z) server_state_scheme, unit) prog" where
  "handle_m_read_mem T =
     bind_p packet (\<lambda>p.
     bind_p (outcome_p (decode_m_packet (drop 1 p))) (\<lambda>(addr, len).
     bind_p (read_inferior_memory T addr len) (\<lambda>bytes.
     seq_p (set_mem_buf bytes)
       (put_str 0 (convert_int_to_ascii bytes len)))))"

definition handle_M_write_mem ::
  "('k, 'z) server_state_scheme target_ops \<Rightarrow> (('k, 'z) server_state_scheme, unit) prog" where
  "handle_M_write_mem T =
     bind_p packet (\<lambda>p.
     bind_p (outcome_p (decode_M_packet (drop 1 p))) (\<lambda>(addr, len, bytes, r).
     seq_p (set_mem_buf bytes)
     (seq_p (outcome_p r)
     (bind_p (write_inferior_memory T addr bytes) (\<lambda>e.
      if e = 0 then write_ok else write_enn)))))"

definition handle_Z_insert_bp ::
  "('k, 'z) server_state_scheme target_ops \<Rightarrow> (('k, 'z) server_state_scheme, unit) prog" where
  \<comment> \<open>the address is read from \<^verbatim>\<open>buf[3]\<close>, wherever the packet ends\<close>
  "handle_Z_insert_bp T =
     bind_p packet (\<lambda>p.
     bind_p (gets_p (\<lambda>s. cstr (own_buf s) 3)) (\<lambda>arg.
     if chr_at p 1 = CHR ''0''
     then seq_p (set_breakpoint_at T (fst (strtoul 16 arg)) None) write_ok
     else empty_reply))"

definition handle_z_remove_bp ::
  "('k, 'z) server_state_scheme target_ops \<Rightarrow> (('k, 'z) server_state_scheme, unit) prog" where
  "handle_z_remove_bp T =
     bind_p packet (\<lambda>p.
     bind_p (gets_p (\<lambda>s. cstr (own_buf s) 3)) (\<lambda>arg.
     if chr_at p 1 = CHR ''0''
     then seq_p (delete_breakpoint_at T (fst (strtoul 16 arg))) write_ok
     else empty_reply))"

subsection \<open>Starting and ending the inferior\<close>

definition start_inferior ::
  "('k, 'z) server_state_scheme target_ops \<Rightarrow> string list \<Rightarrow>
     (('k, 'z) server_state_scheme, unit) prog" where
  \<comment> \<open>with \<^verbatim>\<open>argv\<close> behind the first two arguments; the result goes to \<^verbatim>\<open>status\<close> and \<^verbatim>\<open>sig\<close>\<close>
  "start_inferior T argv =
     (case argv of
        [] \<Rightarrow> fault_p
      | program # _ \<Rightarrow>
          bind_p (create_inferior T program argv) (\<lambda>pid.
          seq_p (modify_p (\<lambda>s. s\<lparr>signal_pid := pid\<rparr>))
          (bind_p (mywait T False) (\<lambda>(st, sg).
           modify_p (\<lambda>s. s\<lparr>status := st, sig := sg\<rparr>)))))"

definition attach_inferior ::
  "('k, 'z) server_state_scheme target_ops \<Rightarrow> int \<Rightarrow> (('k, 'z) server_state_scheme, int) prog" where
  "attach_inferior T pid =
     bind_p (t_attach T pid) (\<lambda>r.
     if r \<noteq> 0 then return_p (- 1)
     else
       seq_p (modify_p (\<lambda>s. s\<lparr>signal_pid := pid\<rparr>))
       (bind_p (mywait T False) (\<lambda>(st, sg).
        seq_p (modify_p (\<lambda>s. s\<lparr>status := st, sig := sg\<rparr>)) (return_p 0))))"

definition handle_k_kill ::
  "('k, 'z) server_state_scheme target_ops \<Rightarrow> string list \<Rightarrow>
     (('k, 'z) server_state_scheme, bool) prog" where
  \<comment> \<open>whether the inferior was restarted\<close>
  "handle_k_kill T argv =
     seq_p (t_kill T)
     (bind_p (gets_p extended_protocol) (\<lambda>ext.
      if ext then seq_p write_ok (seq_p (start_inferior T (drop 2 argv)) (return_p True))
      else exit_p 0))"

definition handle_R_restart ::
  "('k, 'z) server_state_scheme target_ops \<Rightarrow> string list \<Rightarrow>
     (('k, 'z) server_state_scheme, bool) prog" where
  "handle_R_restart T argv =
     bind_p (gets_p extended_protocol) (\<lambda>ext.
     if ext
     then seq_p (t_kill T) (seq_p write_ok (seq_p (start_inferior T (drop 2 argv)) (return_p True)))
     else seq_p empty_reply (return_p False))"

definition handle_terminated_inferior ::
  "('k, 'z) server_state_scheme target_ops \<Rightarrow> string list \<Rightarrow>
     (('k, 'z) server_state_scheme, bool) prog" where
  "handle_terminated_inferior T argv =
     bind_p (gets_p status) (\<lambda>st.
     if st \<noteq> CHR ''W'' \<and> st \<noteq> CHR ''X'' then return_p False
     else
       bind_p (gets_p extended_protocol) (\<lambda>ext.
       if ext
       then seq_p (t_kill T) (seq_p write_ok (seq_p (start_inferior T (drop 2 argv)) (return_p True)))
       else exit_p 0))"

subsection \<open>Dispatch\<close>

definition handle_packet ::
  "'k kernel \<Rightarrow> host_signals \<Rightarrow> ('k, 'z) server_state_scheme target_ops \<Rightarrow> string list \<Rightarrow>
     (('k, 'z) server_state_scheme, bool) prog" where
  "handle_packet K H T argv =
     bind_p packet (\<lambda>p.
     (let c = chr_at p 0; done = (\<lambda>m. seq_p m (return_p False)) in
      if c = CHR ''q'' then done (handle_query T)
      else if c = CHR ''Q'' then done handle_set
      else if c = CHR ''d'' then done handle_d_toggle_debug
      else if c = CHR ''D'' then done (handle_D_detach K T)
      else if c = CHR ''!'' then done write_ok
      else if c = CHR ''?'' then done (handle_question H T)
      else if c = CHR ''H'' then done handle_H_set_thread
      else if c = CHR ''g'' then done (handle_g_read_regs T)
      else if c = CHR ''G'' then done (handle_G_write_regs T)
      else if c = CHR ''p'' then done (handle_p_read_reg T)
      else if c = CHR ''P'' then done handle_P_write_reg
      else if c = CHR ''m'' then done (handle_m_read_mem T)
      else if c = CHR ''M'' then done (handle_M_write_mem T)
      else if c = CHR ''C'' then done (handle_CS_signal H T False)
      else if c = CHR ''S'' then done (handle_CS_signal H T True)
      else if c = CHR ''c'' then done (resume_and_wait H T False 0)
      else if c = CHR ''s'' then done (resume_and_wait H T True 0)
      else if c = CHR ''k'' then handle_k_kill T argv
      else if c = CHR ''T'' then done (handle_T_thread_alive T)
      else if c = CHR ''R'' then handle_R_restart T argv
      else if c = CHR ''v'' then done (handle_v_requests H T)
      else if c = CHR ''Z'' then done (handle_Z_insert_bp T)
      else if c = CHR ''z'' then done (handle_z_remove_bp T)
      else done empty_reply))"

subsection \<open>The packet loop\<close>

definition loop_turn ::
  "'k kernel \<Rightarrow> host_signals \<Rightarrow> ('k, 'z) server_state_scheme target_ops \<Rightarrow> string list \<Rightarrow>
     (('k, 'z) server_state_scheme, bool) prog" where
  \<comment> \<open>one turn of \<^verbatim>\<open>packet_loop\<close>: whether it goes on\<close>
  "loop_turn K H T argv =
     bind_p getpkt_own (\<lambda>n.
     if n \<le> 0 then return_p False
     else
       bind_p (handle_packet K H T argv) (\<lambda>restarted.
       bind_p (putpkt T) (\<lambda>_.
       if restarted then return_p True
       else bind_p (handle_terminated_inferior T argv) (\<lambda>_. return_p True))))"

partial_function (option) packet_loop_from ::
  "'k kernel \<Rightarrow> host_signals \<Rightarrow> ('k, 'z) server_state_scheme target_ops \<Rightarrow> string list \<Rightarrow>
     ('k, 'z) server_state_scheme \<Rightarrow> (unit outcome \<times> ('k, 'z) server_state_scheme) option" where
  \<comment> \<open>an error is caught by the \<^verbatim>\<open>setjmp\<close> in front of the loop\<close>
  "packet_loop_from K H T argv s =
     (case loop_turn K H T argv s of
        (Ret goes_on, s') \<Rightarrow> if goes_on then packet_loop_from K H T argv s' else Some (Ret (), s')
      | (Err _, s') \<Rightarrow> packet_loop_from K H T argv s'
      | (Quit n, s') \<Rightarrow> Some (Quit n, s')
      | (Fault, s') \<Rightarrow> Some (Fault, s')
      | (Hang, s') \<Rightarrow> Some (Hang, s'))"

definition packet_loop ::
  "'k kernel \<Rightarrow> host_signals \<Rightarrow> ('k, 'z) server_state_scheme target_ops \<Rightarrow> string list \<Rightarrow>
     (('k, 'z) server_state_scheme, unit) prog" where
  "packet_loop K H T argv = (\<lambda>s. case packet_loop_from K H T argv s of
      None \<Rightarrow> (Hang, s) | Some r \<Rightarrow> r)"

subsection \<open>Start-up\<close>

definition word_at :: "byte list \<Rightarrow> nat \<Rightarrow> nat outcome" where
  \<comment> \<open>an \<^verbatim>\<open>unsigned int\<close> at an offset of a buffer\<close>
  "word_at bs off = (if off + 4 \<le> length bs then Ret (nat_be (take 4 (drop off bs))) else Fault)"

definition MH_MAGIC :: nat where "MH_MAGIC = 4277009102"
definition LC_UNIXTHREAD :: nat where "LC_UNIXTHREAD = 5"

fun scan_commands :: "byte list \<Rightarrow> nat \<Rightarrow> nat \<Rightarrow> int outcome" where
  \<comment> \<open>the loop over the load commands, from the offset of \<^verbatim>\<open>p\<close>\<close>
  "scan_commands cmds p 0 = Ret 0"
| "scan_commands cmds p (Suc n) =
     bind_o (word_at cmds p) (\<lambda>cmd.
       if cmd = LC_UNIXTHREAD then bind_o (word_at cmds (p + 8 + 4 * 2)) (\<lambda>w. Ret (int w))
       else bind_o (word_at cmds (p + 4)) (\<lambda>cmdsize. scan_commands cmds (p + cmdsize) n))"

definition macho_get_entry_point :: "byte list option \<Rightarrow> int outcome" where
  \<comment> \<open>from the contents of the file, or \<open>None\<close> where it cannot be opened\<close>
  "macho_get_entry_point file = (case file of
      None \<Rightarrow> Ret 0
    | Some bytes \<Rightarrow>
        if length bytes < 28 then Ret 0
        else if nat_be (take 4 bytes) \<noteq> MH_MAGIC then Ret 0
        else
          (let ncmds = nat_be (take 4 (drop 16 bytes));
               sizeofcmds = nat_be (take 4 (drop 20 bytes));
               cmds = take sizeofcmds (drop 28 bytes)
           in if length cmds \<noteq> sizeofcmds then Ret 0 else scan_commands cmds 0 ncmds))"

definition parse_args :: "string list \<Rightarrow> int \<times> int" where
  \<comment> \<open>the result and \<^verbatim>\<open>*out_pid\<close>\<close>
  "parse_args argv =
     (if length argv < 3 then (- 1, 0)
      else if argv ! 2 \<noteq> ''--attach'' then (0, 0)
      else if length argv \<noteq> 4 \<or> argv ! 3 = [] then (- 1, 0)
      else
        (let (pid, rest) = strtoul 10 (argv ! 3)
         in if pid = 0 \<or> rest \<noteq> [] then (- 1, 0) else (1, signed_take_bit 31 pid)))"

fun strip_options :: "string list \<Rightarrow> string list \<times> bool" where
  \<comment> \<open>the loop of \<^verbatim>\<open>strip_global_options\<close> behind the first argument: what is kept, and whether the
    option was there\<close>
  "strip_options [] = ([], False)"
| "strip_options (a # as) =
     (if a = ''--remote-debug'' then (fst (strip_options as), True)
      else (a # fst (strip_options as), snd (strip_options as)))"

definition strip_global_options ::
  "string list \<Rightarrow> (('k, 'z) server_state_scheme, string list) prog" where
  "strip_global_options argv =
     (let (rest, found) = strip_options (drop 1 argv) in
      seq_p (when_p found (modify_p (\<lambda>s. s\<lparr>remote_debug := True\<rparr>)))
        (return_p (take 1 argv @ rest)))"

definition run_to_entry_point ::
  "('k, 'z) server_state_scheme target_ops \<Rightarrow> byte list option \<Rightarrow>
     (('k, 'z) server_state_scheme, unit) prog" where
  "run_to_entry_point T file =
     bind_p (outcome_p (macho_get_entry_point file)) (\<lambda>ep.
     if ep = 0 then return_p ()
     else
       seq_p (set_breakpoint_at T ep None)
       (seq_p (myresume T False 0)
       (bind_p (mywait T False) (\<lambda>(st, sg).
        seq_p (modify_p (\<lambda>s. s\<lparr>status := st, sig := sg\<rparr>))
          (delete_breakpoint_at T ep)))))"

definition prepare_inferior ::
  "('k, 'z) server_state_scheme target_ops \<Rightarrow> (string \<Rightarrow> byte list option) \<Rightarrow> string list \<Rightarrow> int \<Rightarrow>
     (('k, 'z) server_state_scheme, unit) prog" where
  "prepare_inferior T files argv pid =
     bind_p (gets_p attached) (\<lambda>att.
     if \<not> att then
       seq_p (start_inferior T (drop 2 argv))
         (run_to_entry_point T (files (argv ! 2)))
     else
       bind_p (attach_inferior T pid) (\<lambda>r.
       if r < 0 then error_p ''Attaching not supported on this target'' else return_p ()))"

definition atoi_log :: "string option \<Rightarrow> int option" where
  \<comment> \<open>\<^verbatim>\<open>atoi (getenv (LOG))\<close>\<close>
  "atoi_log env = map_option atoi env"

definition init_logging :: "string option \<Rightarrow> (('k, 'z) server_state_scheme, unit) prog" where
  "init_logging env = (case atoi_log env of
      None \<Rightarrow> return_p () | Some v \<Rightarrow> modify_p (\<lambda>s. s\<lparr>verbosity := v\<rparr>))"

definition catch_exit :: "('s, 'a) prog \<Rightarrow> ('s, 'a) prog" where
  \<comment> \<open>the \<^verbatim>\<open>setjmp\<close> of \<^verbatim>\<open>main\<close>: an error before the packet loop ends the program\<close>
  "catch_exit m = (\<lambda>s. case m s of (Err _, s') \<Rightarrow> (Quit 1, s') | r \<Rightarrow> r)"

definition server_start ::
  "('k, 'z) server_state_scheme target_ops \<Rightarrow> (string \<Rightarrow> byte list option) \<Rightarrow> string option \<Rightarrow>
     string list \<Rightarrow> (('k, 'z) server_state_scheme, string list) prog" where
  \<comment> \<open>\<^verbatim>\<open>main\<close> up to \<^verbatim>\<open>remote_open\<close>; the fresh \<^verbatim>\<open>own_buf\<close> holds NULs here\<close>
  "server_start T files env args =
     seq_p (init_logging env)
     (bind_p (strip_global_options args) (\<lambda>argv.
      bind_p
        (case parse_args argv of (mode, pid) \<Rightarrow>
          if mode = - 1 then error_p ''Usage''
          else seq_p (modify_p (\<lambda>s. s\<lparr>attached := (mode = 1)\<rparr>)) (return_p pid)) (\<lambda>pid.
      seq_p initialize_low
      (seq_p (modify_p (\<lambda>s. s\<lparr>own_buf := replicate (PBUFSIZ s) NUL, mem_buf := replicate 2000 0\<rparr>))
      (seq_p (prepare_inferior T files argv pid)
        (return_p argv))))))"

definition main ::
  "'k kernel \<Rightarrow> host_signals \<Rightarrow> ('k, 'z) server_state_scheme target_ops \<Rightarrow>
     (string \<Rightarrow> byte list option) \<Rightarrow> string option \<Rightarrow> network \<Rightarrow> string list \<Rightarrow>
     (('k, 'z) server_state_scheme, unit) prog" where
  "main K H T files env N args =
     bind_p (catch_exit (bind_p (server_start T files env args) (\<lambda>argv.
       seq_p (remote_open N (argv ! 1)) (return_p argv)))) (\<lambda>argv.
     (seq_p (packet_loop K H T argv)
       remote_close))"

end
