(* ===== verification/WireProps.thy ===== *)
theory WireProps
  imports Framing
begin

section \<open>Properties of the wire format\<close>

text \<open>
  Properties of the codec and of packets (src/remote-utils.c), each with a concrete run as witness.
\<close>

definition empty_net :: net where
  "empty_net = \<lparr>rc_buf = [], rx = [], tx = [], tx_script = []\<rparr>"

definition net_of :: "rx_event list \<Rightarrow> net" where
  \<comment> \<open>a connection on which these reads are coming\<close>
  "net_of evs = empty_net\<lparr>rx := evs\<rparr>"

lemma net_of_fields [simp]:
  "rc_buf (net_of evs) = []" "rx (net_of evs) = evs" "tx (net_of evs) = []" "tx_script (net_of evs) = []"
  by (simp_all add: net_of_def empty_net_def)

lemma stream_net_of [simp]: "stream (net_of evs) = flat_rx evs"
  by (simp add: stream_def)

lemma hex_digit_eval:
  "hex_digit 0 = CHR ''0''" "hex_digit 6 = CHR ''6''" "hex_digit 7 = CHR ''7''"
  by code_simp+

lemma checksum_g: "unat (checksum ''g'') = 103"
  by (simp add: byte_of_char_def)

lemma frame_g: "frame ''g'' = ''$g#67''"
  by (simp only: frame_eq checksum_g) (simp add: hex_digit_eval)

lemma c7_g: "c7 (CHR ''g'') = CHR ''g''"
  by (simp add: c7_ascii)

subsection \<open>Codec\<close>

text \<open>the argument of an \<^verbatim>\<open>M\<close> packet, address, length and the hexadecimal text of that many
  bytes, is decoded to the address, the length and the bytes.\<close>

theorem M_packet_decoded:
  assumes "a < 2 ^ 63" and "length bs < 2 ^ 32"
  shows "decode_M_packet (hex_digits a @ '','' @ hex_digits (length bs) @ '':'' @ hex_bytes bs) =
    Ret (int a, length bs, bs, Ret ())"
  using decode_M_packet_hex [OF assms, of "hex_bytes bs"] convert_ascii_to_int_hex [of bs "[]"] by simp

theorem M_packet_decoded_witness:
  "decode_M_packet (hex_digits 4096 @ '','' @ hex_digits (length [1 :: byte, 255]) @ '':''
      @ hex_bytes [1, 255]) = Ret (int 4096, length [1 :: byte, 255], [1, 255], Ret ())"
  by (rule M_packet_decoded) simp_all

subsection \<open>Packets\<close>

lemma damaged_g:
  "stream (net_of [Rx_bytes ''$g#6'', Rx_bytes ''6$g'', Rx_bytes ''#67'']) =
     concat (map raw_frame [(''g'', 6, 6)]) @ frame ''g'' @ []"
  "list_all (corrupt (length (replicate 8 NUL))) [(''g'', 6, 6)]" "payload ''g''"
  "length ''g'' < length (replicate 8 NUL)"
  "tx_script (net_of [Rx_bytes ''$g#6'', Rx_bytes ''6$g'', Rx_bytes ''#67'']) = []"
  by (simp_all add: raw_frame_def frame_g hex_digit_eval corrupt_def c7_g checksum_g payload_def NUL_def
      del: checksum.simps)

text \<open>C8: with acknowledgements, \<^verbatim>\<open>getpkt\<close> answers every packet whose checksum is wrong with one minus sign and
  goes on; of the first good packet it returns the length, leaves the text in the buffer, sends one plus
  sign, and has consumed exactly the packets up to there.\<close>

theorem getpkt_asks_again:
  assumes "stream nt = concat (map raw_frame ps) @ frame s @ rest" and "list_all (corrupt (length buf)) ps"
    and "payload s" and "length s < length buf" and "tx_script nt = []"
  shows "\<exists>buf' nt'. getpkt False buf nt = (Ret (int (length s)), buf', nt') \<and> stream nt' = rest
    \<and> tx nt' = tx nt @ replicate (length ps) (CHR ''-'') @ ''+'' \<and> length buf' = length buf \<and> cstr buf' 0 = s"
  using getpkt_retries [OF assms, of False] by simp

theorem getpkt_asks_again_witness:
  "\<exists>buf' nt'. getpkt False (replicate 8 NUL) (net_of [Rx_bytes ''$g#6'', Rx_bytes ''6$g'', Rx_bytes ''#67'']) =
      (Ret 1, buf', nt') \<and> tx nt' = ''-+'' \<and> cstr buf' 0 = ''g''"
  using getpkt_asks_again [OF damaged_g] by auto

text \<open>C39: The minus sign does not know of the mode: without acknowledgements too \<^verbatim>\<open>getpkt\<close> sends one for every
  packet whose checksum is wrong, where only the plus sign is left out; the flag is said to suppress both.\<close>

theorem no_ack_mode_asks_again:
  assumes "stream nt = concat (map raw_frame ps) @ frame s @ rest" and "list_all (corrupt (length buf)) ps"
    and "payload s" and "length s < length buf" and "tx_script nt = []"
  shows "\<exists>buf' nt'. getpkt True buf nt = (Ret (int (length s)), buf', nt') \<and> stream nt' = rest
    \<and> tx nt' = tx nt @ replicate (length ps) (CHR ''-'') \<and> length buf' = length buf \<and> cstr buf' 0 = s"
  using getpkt_retries [OF assms, of True] by simp

theorem no_ack_mode_asks_again_witness:
  "\<exists>buf' nt'. getpkt True (replicate 8 NUL) (net_of [Rx_bytes ''$g#6'', Rx_bytes ''6$g'', Rx_bytes ''#67'']) =
      (Ret 1, buf', nt') \<and> tx nt' = ''-'' \<and> cstr buf' 0 = ''g''"
  using no_ack_mode_asks_again [OF damaged_g] by auto

text \<open>C13: how the operating system cuts the input into chunks makes no difference to \<^verbatim>\<open>getpkt\<close>: on
  connections with the same bytes to come it has the same result, leaves the same buffer and sends
  the same, and after a packet the same bytes are still to come.\<close>

theorem getpkt_ignores_chunks:
  assumes "same_net a b"
  shows "\<exists>r buf' a' b'. getpkt no_ack buf a = (r, buf', a') \<and> getpkt no_ack buf b = (r, buf', b')
    \<and> same_sent a' b' \<and> ((\<exists>n. r = Ret n \<and> 0 \<le> n) \<longrightarrow> same_net a' b')"
  using assms by (rule getpkt_same)

theorem getpkt_ignores_chunks_witness:
  "\<exists>r buf' a' b'. getpkt True (replicate 8 NUL) (net_of [Rx_bytes ''$g#67'']) = (r, buf', a')
    \<and> getpkt True (replicate 8 NUL) (net_of [Rx_bytes ''$g'', Rx_bytes ''#67'']) = (r, buf', b')"
  using getpkt_ignores_chunks [of "net_of [Rx_bytes ''$g#67'']" "net_of [Rx_bytes ''$g'', Rx_bytes ''#67'']"]
  by (simp add: same_net_def) blast

text \<open>C30: \<^verbatim>\<open>getpkt\<close> does not look at the size of the buffer: a packet body longer than it is written
  past its end.\<close>

theorem getpkt_has_no_bound:
  assumes "stream nt = junk @ CHR ''$'' # body @ r" and "CHR ''$'' \<notin> c7 ` set junk"
    and "CHR ''#'' \<notin> c7 ` set body" and "length buf < length body"
  shows "fst (getpkt no_ack buf nt) = Fault"
  using assms by (rule getpkt_overflow)

theorem getpkt_has_no_bound_witness:
  "fst (getpkt False [NUL, NUL] (net_of [Rx_bytes ''$ggg''])) = Fault"
  using getpkt_has_no_bound [of "net_of [Rx_bytes ''$ggg'']" "[]" "''ggg''" "[]" "[NUL, NUL]"]
  by (simp add: c7_g)

text \<open>C18: \<^verbatim>\<open>putpkt\<close> sends the frame again for every character it reads that is not a plus sign, sends
  the program one interrupt for every Control-C among them, and stops at the plus sign with nothing
  read behind it.\<close>

theorem putpkt_until_acknowledged:
  assumes "flat_rx (rx nt) = naks @ CHR ''+'' # rest" and "CHR ''+'' \<notin> set naks" and "tx_script nt = []"
  shows "\<exists>nt'. putpkt_loop send False buf2 nt =
      seq_p (for_p (\<lambda>_. send SIGINT_num) (ctrl_c naks)) (return_p (1, nt'))
    \<and> flat_rx (rx nt') = rest \<and> rc_buf nt' = rc_buf nt
    \<and> tx nt' = tx nt @ concat (replicate (Suc (length naks)) buf2)"
  using assms by (rule putpkt_acked)

theorem putpkt_until_acknowledged_witness:
  "\<exists>nt'. putpkt_loop (\<lambda>n. modify_p (\<lambda>s. s @ [n])) False ''$g#67'' (net_of [Rx_bytes ''-+'']) [] =
      (Ret (1, nt'), []) \<and> tx nt' = ''$g#67$g#67''"
  using putpkt_until_acknowledged [of "net_of [Rx_bytes ''-+'']" "''-''" "[]"
      "\<lambda>n. modify_p (\<lambda>s. s @ [n])" "''$g#67''"]
  by (auto simp: ctrl_c_def bind_p_def)

text \<open>C17: what \<^verbatim>\<open>putpkt\<close> sends is a packet \<^verbatim>\<open>getpkt\<close> accepts: a receiver that reads the characters sent
  has the text in its buffer.\<close>

theorem putpkt_getpkt:
  assumes "putpkt_loop send True (frame s) nt = return_p (r, nt')" and "tx_script nt = []"
    and "stream peer = drop (length (tx nt)) (tx nt')" and "tx_script peer = []"
    and "payload s" and "length s < length buf"
  shows "r = 1 \<and> (\<exists>buf' peer'. getpkt no_ack buf peer = (Ret (int (length s)), buf', peer')
    \<and> cstr buf' 0 = s \<and> stream peer' = [])"
proof -
  from fun_cong [OF trans [OF assms(1) [symmetric] putpkt_no_ack [OF assms(2)]], of undefined] have "r = 1" "stream peer = frame s" using assms(3) by auto
  with getpkt_retries [of peer "[]" s "[]" buf no_ack] assms(4-6) show ?thesis by auto
qed

theorem putpkt_getpkt_witness:
  "\<exists>buf' peer'. getpkt False (replicate 8 NUL) (net_of [Rx_bytes ''$g#67'']) = (Ret 1, buf', peer')
    \<and> cstr buf' 0 = ''g''"
proof -
  have "payload ''g''" by (simp add: payload_def NUL_def)
  moreover have "putpkt_loop (\<lambda>_. return_p ()) True (frame ''g'') empty_net =
      return_p (1, empty_net\<lparr>tx := ''$g#67''\<rparr>)"
    using putpkt_no_ack [of empty_net "\<lambda>_. return_p ()" "frame ''g''"] by (simp add: empty_net_def frame_g)
  ultimately show ?thesis
    using putpkt_getpkt [of "\<lambda>_. return_p ()" "''g''" empty_net 1 "empty_net\<lparr>tx := ''$g#67''\<rparr>"
      "net_of [Rx_bytes ''$g#67'']" "replicate 8 NUL" False]
    by (auto simp: empty_net_def)
qed

end
