(* ===== verification/MemProps.thy ===== *)
theory MemProps
  imports FlatKernel
begin

section \<open>Properties of memory and breakpoints\<close>

text \<open>
  The lemmas of the locale \<open>memory_target\<close>, on the Darwin target over any kernel that does what is
  documented of its memory calls (\<open>kernel_memory\<close>).  \<open>client_view\<close> is the memory the client sees,
  \<open>mapped_mem\<close> the addresses of the program, \<open>breakpoints_ok\<close> the invariant of the breakpoints.
  The witnesses run on the small kernel of theory \<open>FlatKernel\<close>.
\<close>

subsection \<open>Overlapping breakpoints\<close>

context memory_target
begin

lemma set_breakpoint_at_run:
  assumes "breakpoint_data s = Some d" and "length d = breakpoint_len s" and "0 < breakpoint_len s"
    and "breakpoint_len s \<le> 8" and "{a..<a + int (breakpoint_len s)} \<subseteq> mapped s"
  shows "\<exists>t. set_breakpoint_at T a h s = (Ret (), t) \<and> view t = write_bytes (view s) a d
    \<and> mapped t = mapped s \<and> breakpoint_data t = breakpoint_data s \<and> breakpoint_len t = breakpoint_len s
    \<and> breakpoints t = \<lparr>bp_addr = bp_brk s, bp_pc = a, old_data = overwrite (replicate 8 0) 0
        (mem_bytes (view s) a (breakpoint_len s)), reinserting = False, breakpoint_to_reinsert = None,
        handler = h\<rparr> # breakpoints s"
proof -
  let ?s1 = "s\<lparr>bp_brk := Suc (bp_brk s)\<rparr>" and ?len = "breakpoint_len s"
  have "{a..<a + int ?len} \<subseteq> mapped ?s1" using assms frame_law by simp
  from read_law [OF this] obtain k where
    k: "read_memory T a ?len ?s1 = (Ret (mem_bytes (view s) a ?len), ?s1\<lparr>kst := k\<rparr>)"
      "view (?s1\<lparr>kst := k\<rparr>) = view s" "mapped (?s1\<lparr>kst := k\<rparr>) = mapped s"
    using frame_law by auto
  let ?s2 = "?s1\<lparr>kst := k\<rparr>"
  obtain k' where k': "write_trap T a ?s2 = (Ret (), ?s2\<lparr>kst := k'\<rparr>)"
      "view (?s2\<lparr>kst := k'\<rparr>) = write_bytes (view s) a d" "mapped (?s2\<lparr>kst := k'\<rparr>) = mapped s"
    using trap_written [of ?s2 d a] assms k by auto
  let ?b = "\<lparr>bp_addr = bp_brk s, bp_pc = a, old_data = overwrite (replicate 8 0) 0
    (mem_bytes (view s) a ?len), reinserting = False, breakpoint_to_reinsert = None, handler = h\<rparr>"
  let ?t = "?s2\<lparr>kst := k'\<rparr>\<lparr>breakpoints := ?b # breakpoints s\<rparr>"
  have "set_breakpoint_at T a h s = (Ret (), ?t)"
    using assms(4) by (simp add: set_breakpoint_at_def assms(1) prog_simps k(1) store_def
        MAX_BREAKPOINT_LEN_def k'(1))
  moreover have "view ?t = write_bytes (view s) a d" "mapped ?t = mapped s"
    using k'(2,3) frame_law(1,2) [where s = "?s2\<lparr>kst := k'\<rparr>" and b = "?b # breakpoints s"] by simp_all
  ultimately show ?thesis by (intro exI [of _ ?t]) simp
qed

lemma overlap_same: "0 < n \<Longrightarrow> overlap a (a + int n) a (a + int n) = Some (0, 0, int n)"
  by (simp add: overlap_def Let_def)

lemma slice_whole: "int n = int (length xs) \<Longrightarrow> slice 0 (int n) xs = Ret xs"
  by (simp add: slice_def)

lemma slice_overwritten:
  "length xs = n \<Longrightarrow> n \<le> length ys \<Longrightarrow> slice 0 (int n) (overwrite ys 0 xs) = Ret xs"
  by (auto simp: slice_def overwrite_def)

lemma duplicate_shows_trap:
  assumes d: "breakpoint_data s = Some d" "length d = breakpoint_len s" "0 < breakpoint_len s"
      "breakpoint_len s \<le> 8"
    and m: "in_mem (mapped s) a (breakpoint_len s)" and bps: "breakpoints s = []"
    and bs: "length bs = breakpoint_len s"
  shows "\<exists>t1 t2 t3 t4. set_breakpoint_at T a None s = (Ret (), t1)
    \<and> set_breakpoint_at T a None t1 = (Ret (), t2) \<and> write_inferior_memory T a bs t2 = (Ret 0, t3)
    \<and> read_inferior_memory T a (breakpoint_len s) t3 = (Ret d, t4)"
proof -
  let ?n = "breakpoint_len s"
  have im: "{a..<a + int ?n} \<subseteq> mapped s" "0 \<le> a" "a + int ?n \<le> 4294967296"
    using m by (auto simp: in_mem_def)
  have wr: "wrap64 (a + int ?n) = a + int ?n" using im by (simp add: wrap64_space)
  from set_breakpoint_at_run [OF d im(1), of None] obtain t1 where
    t1: "set_breakpoint_at T a None s = (Ret (), t1)" "mapped t1 = mapped s"
      "breakpoint_data t1 = Some d" "breakpoint_len t1 = ?n"
      "\<exists>b. breakpoints t1 = [b] \<and> bp_pc b = a \<and> \<not> reinserting b \<and> length (old_data b) = 8"
    using d bps by auto
  from set_breakpoint_at_run [of t1 d a None] t1 d im(1) obtain t2 where
    t2: "set_breakpoint_at T a None t1 = (Ret (), t2)" "mapped t2 = mapped s"
      "breakpoint_data t2 = Some d" "breakpoint_len t2 = ?n"
      "\<exists>b c. breakpoints t2 = [c, b] \<and> bp_pc b = a \<and> \<not> reinserting b \<and> length (old_data b) = 8
        \<and> bp_pc c = a \<and> \<not> reinserting c \<and> length (old_data c) = 8"
    by auto
  then obtain b c where bc: "breakpoints t2 = [c, b]" "bp_pc b = a" "\<not> reinserting b"
      "length (old_data b) = 8" "bp_pc c = a" "\<not> reinserting c" "length (old_data c) = 8"
    by blast
  let ?c = "c\<lparr>old_data := overwrite (old_data c) 0 bs\<rparr>"
  let ?b = "b\<lparr>old_data := overwrite (old_data b) 0 d\<rparr>"
  let ?t2 = "t2\<lparr>breakpoints := [?c, ?b]\<rparr>"
  have loop: "check_mem_write_loop (Some d) ?n a (a + int ?n) bs [c, b] = Ret (d, [?c, ?b])"
    using bc d bs
    by (simp add: wr overlap_same slice_whole memcpy_to_def store_def overwrite_0_full)
  have "{a..<a + int (length d)} \<subseteq> mapped ?t2" "d \<noteq> []" using im t2(2) d frame_law by auto
  from write_law [OF this(2,1)] obtain k where
    k: "write_memory T a d ?t2 = (Ret 0, ?t2\<lparr>kst := k\<rparr>)"
      "view (?t2\<lparr>kst := k\<rparr>) = write_bytes (view ?t2) a d" "mapped (?t2\<lparr>kst := k\<rparr>) = mapped ?t2"
    by blast
  let ?t3 = "?t2\<lparr>kst := k\<rparr>"
  have w: "write_inferior_memory T a bs t2 = (Ret 0, ?t3)"
    using t2(3,4) bc(1) bs
    by (simp add: write_inferior_memory_def check_mem_write_def prog_simps loop wr k(1)
        del: check_mem_write_loop.simps)
  have "{a..<a + int ?n} \<subseteq> mapped ?t3" using im k(3) t2(2) frame_law by simp
  from read_law [OF this] obtain k' where
    k': "read_memory T a ?n ?t3 = (Ret (mem_bytes (view ?t3) a ?n), ?t3\<lparr>kst := k'\<rparr>)" by blast
  have "mem_bytes (view ?t3) a ?n = d"
    using k(2) mem_bytes_write_bytes [of "view ?t2" a d] d(2) by simp
  moreover have "check_mem_read_loop ?n a (a + int ?n) d [?c, ?b] = Ret d"
    using bc d bs
    by (simp add: wr overlap_same slice_overwritten memcpy_to_def store_def overwrite_0_full)
  ultimately have "read_inferior_memory T a ?n ?t3 = (Ret d, ?t3\<lparr>kst := k'\<rparr>)"
    using t2(4) d(2) k' by (simp add: read_inferior_memory_def check_mem_read_def prog_simps wr
        del: check_mem_read_loop.simps)
  with t1(1) t2(1) w show ?thesis by blast
qed

lemma set_delete:
  assumes ok: "bp_ok view mapped s" and cl: "clear_of (breakpoint_len s) (breakpoints s) a"
    and m: "{a..<a + int (breakpoint_len s)} \<subseteq> mapped s"
  shows "\<exists>t u. set_breakpoint_at T a h s = (Ret (), t) \<and> delete_breakpoint_at T a t = (Ret (), u)
    \<and> keeps_memory view mapped s u \<and> breakpoints u = breakpoints s \<and> view u = view s"
proof -
  from set_breakpoint_at_keeps [OF ok cl m, of h] obtain t b where
    t: "set_breakpoint_at T a h s = (Ret (), t)" "keeps_memory view mapped s t"
      "breakpoints t = b # breakpoints s" "bp_pc b = a"
    by blast
  have "bp_ok view mapped t" using t(2) by (simp add: keeps_memory_def)
  from delete_breakpoint_at_keeps [OF this, of a] obtain u where
    u: "delete_breakpoint_at T a t = (Ret (), u)" "keeps_memory view mapped t u"
      "breakpoints u = filter (\<lambda>c. bp_pc c \<noteq> a) (breakpoints t)"
    by blast
  obtain d where "bps_ok (breakpoint_len s) d (bp_brk s) (view s) (mapped s) (breakpoints s)"
    using ok by (rule bp_okE)
  with cl have "\<forall>c \<in> set (breakpoints s). bp_pc c \<noteq> a"
    by (auto simp: clear_of_def list_all_iff bps_ok_def)
  then have "filter (\<lambda>c. bp_pc c \<noteq> a) (breakpoints t) = breakpoints s"
    using t(3,4) by (simp add: filter_id_conv)
  with u(3) have same: "breakpoints u = breakpoints s" by simp
  have keeps: "keeps_memory view mapped s u" using keeps_memory_trans [OF t(2) u(2)] .
  with same t(1) u(1) bp_ok_view_determined [OF ok keeps same] show ?thesis by blast
qed

lemma reinsert_twice:
  assumes "distinct (map bp_addr bps)" and "orig \<in> set bps" and "\<not> reinserting orig"
  shows "map ((\<lambda>c. if bp_addr c = bp_addr orig then c\<lparr>reinserting := False\<rparr> else c) \<circ>
      (\<lambda>c. if bp_addr c = bp_addr orig then c\<lparr>reinserting := True\<rparr> else c)) bps = bps"
proof (rule map_idI)
  fix c assume c: "c \<in> set bps"
  show "((\<lambda>c. if bp_addr c = bp_addr orig then c\<lparr>reinserting := False\<rparr> else c) \<circ>
      (\<lambda>c. if bp_addr c = bp_addr orig then c\<lparr>reinserting := True\<rparr> else c)) c = c"
  proof (cases "bp_addr c = bp_addr orig")
    case True
    with assms(1,2) c have "c = orig" by (auto simp: distinct_map dest: inj_onD)
    with assms(3) show ?thesis by simp
  qed simp
qed

lemma uninsert_reinsert:
  assumes ok: "bp_ok view mapped s" and b: "find_breakpoint_at a (breakpoints s) = Some b"
    and r: "\<not> reinserting b"
  shows "\<exists>t u. uninsert_breakpoint T a s = (Ret (), t)
    \<and> mem_bytes (view t) a (breakpoint_len s) = mem_bytes (shadow view s) a (breakpoint_len s)
    \<and> reinsert_breakpoint T a t = (Ret (), u) \<and> breakpoints u = breakpoints s \<and> view u = view s
    \<and> keeps_memory view mapped s u"
proof -
  let ?f = "\<lambda>c. if bp_addr c = bp_addr b then c\<lparr>reinserting := True\<rparr> else c"
  let ?g = "\<lambda>c. if bp_addr c = bp_addr b then c\<lparr>reinserting := False\<rparr> else c"
  let ?b = "b\<lparr>reinserting := True\<rparr>"
  obtain d where d: "bps_ok (breakpoint_len s) d (bp_brk s) (view s) (mapped s) (breakpoints s)"
    using ok by (rule bp_okE)
  have bin: "b \<in> set (breakpoints s)" "bp_pc b = a" using find_breakpoint_at_Some [OF b] by auto
  from uninsert_keeps [OF ok b] obtain t where
    t: "uninsert_breakpoint T a s = (Ret (), t)" "keeps_memory view mapped s t"
      "breakpoints t = map ?f (breakpoints s)"
    by blast
  have okt: "bp_ok view mapped t" using t(2) by (simp add: keeps_memory_def)
  have bt: "?b \<in> set (breakpoints t)" using bin(1) t(3) by (auto simp: image_iff intro!: bexI [of _ b])
  have fp: "\<And>c. bp_pc (?f c) = bp_pc c" by simp
  have "find_breakpoint_at a (map ?f bs) = map_option ?f (find_breakpoint_at a bs)" for bs
    by (induction bs) (simp_all add: find_breakpoint_at_def)
  with b t(3) have ft: "find_breakpoint_at a (breakpoints t) = Some ?b" by simp
  from reinsert_keeps [OF okt ft] obtain u where
    u: "reinsert_breakpoint T a t = (Ret (), u)" "keeps_memory view mapped t u"
      "breakpoints u = map ?g (breakpoints t)"
    by auto
  have same: "breakpoints u = breakpoints s"
    using u(3) t(3) reinsert_twice [OF bps_okD(5) [OF d] bin(1) r] by (simp add: comp_def)
  have keeps: "keeps_memory view mapped s u" using keeps_memory_trans [OF t(2) u(2)] .
  have len: "breakpoint_len t = breakpoint_len s" and sh: "shadow view t = shadow view s"
    using t(2) mem_frame_fields(2) by (auto simp: keeps_memory_def)
  obtain d' where d': "bps_ok (breakpoint_len t) d' (bp_brk t) (view t) (mapped t) (breakpoints t)"
    using okt by (rule bp_okE)
  have "mem_bytes (view t) a (breakpoint_len s) = mem_bytes (shadow view t) a (breakpoint_len s)"
  proof (rule mem_bytes_cong)
    fix i assume "i < breakpoint_len s"
    then have c: "covers (breakpoint_len t) ?b (a + int i)" using bin(2) len by (simp add: covers_def)
    show "view t (a + int i) = shadow view t (a + int i)"
      using bps_ok_byte [OF d' bt c] shadow_byte(1) [OF d' bt c] by (simp add: shadow_def)
  qed
  with t(1) u(1) same keeps sh bp_ok_view_determined [OF ok keeps same] show ?thesis by metis
qed

lemma step_over:
  assumes ok: "bp_ok view mapped s" and o: "find_breakpoint_at stop_pc (breakpoints s) = Some orig"
    and r: "\<not> reinserting orig" and cl: "clear_of (breakpoint_len s) (breakpoints s) stop_at"
    and m: "{stop_at..<stop_at + int (breakpoint_len s)} \<subseteq> mapped s"
  shows "\<exists>t u. reinsert_breakpoint_by_bp T stop_pc stop_at s = (Ret (), t)
    \<and> check_breakpoints T stop_at t = (Ret True, u) \<and> keeps_memory view mapped s t
    \<and> keeps_memory view mapped s u \<and> breakpoints u = breakpoints s \<and> view u = view s"
proof -
  let ?f = "\<lambda>c. if bp_addr c = bp_addr orig then c\<lparr>reinserting := True\<rparr> else c"
  let ?orig = "orig\<lparr>reinserting := True\<rparr>"
  obtain d where d: "bps_ok (breakpoint_len s) d (bp_brk s) (view s) (mapped s) (breakpoints s)"
    using ok by (rule bp_okE)
  have oin: "orig \<in> set (breakpoints s)" using find_breakpoint_at_Some [OF o] by simp
  have addrs: "\<forall>c \<in> set (breakpoints s). bp_addr c \<noteq> bp_brk s" using bps_ok_mem(1) [OF d] by fastforce
  from reinsert_by_bp_keeps [OF ok o cl m] obtain t b where
    t: "reinsert_breakpoint_by_bp T stop_pc stop_at s = (Ret (), t)" "keeps_memory view mapped s t"
      "bp_pc b = stop_at" "bp_addr b = bp_brk s" "\<not> reinserting b"
      "handler b = Some Reinsert_breakpoint_handler" "breakpoint_to_reinsert b = Some (bp_addr orig)"
      "breakpoints t = b # map ?f (breakpoints s)"
    by blast
  have okt: "bp_ok view mapped t" using t(2) by (simp add: keeps_memory_def)
  have "find_breakpoint_at stop_at (breakpoints t) = Some b" using t(3,8) by (simp add: find_breakpoint_at_def)
  moreover have "?orig \<in> set (breakpoints t)"
    using oin t(8) by (auto simp: image_iff intro!: bexI [of _ orig])
  moreover have "bp_addr orig \<noteq> bp_addr b" using addrs oin t(4) by auto
  ultimately obtain u where
    u: "check_breakpoints T stop_at t = (Ret True, u)" "keeps_memory view mapped t u"
      "breakpoints u = map (\<lambda>c. if bp_addr c = bp_addr orig then c\<lparr>reinserting := False\<rparr> else c)
        (filter (\<lambda>c. bp_addr c \<noteq> bp_addr b) (breakpoints t))"
    using hit_reinserts [OF okt, of stop_at b ?orig] t(5,6,7) by auto
  have "filter (\<lambda>c. bp_addr c \<noteq> bp_addr b) (breakpoints t) = map ?f (breakpoints s)"
  proof -
    have "\<forall>c \<in> set (map ?f (breakpoints s)). bp_addr c \<noteq> bp_brk s" using addrs by auto
    then show ?thesis using t(4,8) by (simp only: filter_id_conv filter.simps if_False simp_thms)
  qed
  then have same: "breakpoints u = breakpoints s"
    using u(3) reinsert_twice [OF bps_okD(5) [OF d] oin r] by (simp add: comp_def)
  have keeps: "keeps_memory view mapped s u" using keeps_memory_trans [OF t(2) u(2)] .
  with t(1,2) u(1) same bp_ok_view_determined [OF ok keeps same] show ?thesis by blast
qed

end

subsection \<open>The states of the properties\<close>

definition client_view ::
  "('k \<Rightarrow> nat \<Rightarrow> int \<Rightarrow> byte) \<Rightarrow> ('k, 'z) membreak_state_scheme \<Rightarrow> int \<Rightarrow> byte" where
  "client_view mem s = shadow (task_mem mem) s"

definition mapped_mem ::
  "('k \<Rightarrow> nat \<Rightarrow> int set) \<Rightarrow> ('k, 'z) membreak_state_scheme \<Rightarrow> int \<Rightarrow> nat \<Rightarrow> bool" where
  "mapped_mem maps s a n \<longleftrightarrow> in_mem (task_maps maps s) a n"

definition breakpoints_ok ::
  "('k \<Rightarrow> nat \<Rightarrow> int \<Rightarrow> byte) \<Rightarrow> ('k \<Rightarrow> nat \<Rightarrow> int set) \<Rightarrow> ('k, 'z) membreak_state_scheme \<Rightarrow> bool" where
  "breakpoints_ok mem maps s \<longleftrightarrow> bp_ok (task_mem mem) (task_maps maps) s"

definition undisturbed ::
  "('k \<Rightarrow> nat \<Rightarrow> int \<Rightarrow> byte) \<Rightarrow> ('k \<Rightarrow> nat \<Rightarrow> int set) \<Rightarrow> ('k, 'z) membreak_state_scheme \<Rightarrow>
     ('k, 'z) membreak_state_scheme \<Rightarrow> bool" where
  \<comment> \<open>the client sees the same memory, the invariant holds again, and nothing but the kernel and the
    breakpoints has changed\<close>
  "undisturbed mem maps s t \<longleftrightarrow> keeps_memory (task_mem mem) (task_maps maps) s t"

lemmas mem_state_defs = client_view_def mapped_mem_def breakpoints_ok_def undisturbed_def

definition demo_state :: "flat membreak_state" where
  \<comment> \<open>one process with one thread, its memory zero, no breakpoint\<close>
  "demo_state = \<lparr>
     kst = \<lparr>fl_mem = \<lambda>_. 0, fl_protected = \<lambda>a. a < 8192,
       fl_regs = \<lambda>_. \<lparr>srr0 = 4096, srr1 = 0, gprs = \<lambda>i. of_nat i, cr = 0, xer = 0, lr = 0, ctr = 0,
         mq = 0, vrsave = 0\<rparr>,
       fl_fregs = \<lambda>_. \<lparr>fpregs = \<lambda>_. 0, fpscr_pad = 0, fpscr = 0\<rparr>, fl_waits = [], fl_log = []\<rparr>,
     reg_defs = regs_ppc, register_bytes = 412, gdbserver_expedite_regs = expedite_regs_ppc,
     entries = [0 \<mapsto> \<lparr>ent_id = 100, next_ptr = None\<rparr>, 1 \<mapsto> \<lparr>ent_id = 100, next_ptr = None\<rparr>],
     threads = [1 \<mapsto> \<lparr>target_data = Some 0, regcache_data =
       Some \<lparr>registers_valid = False, registers = replicate 412 0\<rparr>\<rparr>],
     heap_brk = 2, all_threads = \<lparr>head = Some 1, tail = Some 1\<rparr>, current_inferior = Some 1,
     procs = [0 \<mapsto> \<lparr>p_pid = 100, p_task = 7, p_thread = 9, p_stopped = True, p_status = 0\<rparr>],
     all_processes = \<lparr>head = Some 0, tail = Some 0\<rparr>, current_task = 7, current_thread = 9,
     using_threads = True, debug_threads = False,
     breakpoint_data = Some (be32 ppc_breakpoint), breakpoint_len = 4, breakpoints = [], bp_brk = 0\<rparr>"

lemma demo_ok: "breakpoints_ok flat_mem flat_maps demo_state"
  by (simp add: breakpoints_ok_def bp_ok_def bps_ok_def demo_state_def)

lemma demo_mapped: "0 \<le> a \<Longrightarrow> a + int n \<le> 2147483648 \<Longrightarrow> mapped_mem flat_maps demo_state a n"
  by (auto simp: mapped_mem_def in_mem_def task_maps_def flat_maps_def demo_state_def MACH_PORT_NULL_def)

lemma demo_fields:
  "breakpoint_len demo_state = 4" "breakpoints demo_state = []"
  "breakpoint_data demo_state = Some (be32 ppc_breakpoint)"
  by (simp_all add: demo_state_def)

lemma demo_client_view: "client_view flat_mem demo_state = (\<lambda>_. 0)"
  by (simp add: client_view_def shadow_def demo_fields task_mem_def flat_mem_def) (simp add: demo_state_def)

definition demo_trapped :: "flat membreak_state" where
  \<comment> \<open>the same with a breakpoint at 4096\<close>
  "demo_trapped = demo_state\<lparr>
     kst := (kst demo_state)\<lparr>fl_mem := write_bytes (\<lambda>_. 0) 4096 (be32 ppc_breakpoint)\<rparr>,
     bp_brk := 1,
     breakpoints := [\<lparr>bp_addr = 0, bp_pc = 4096, old_data = replicate 8 0, reinserting = False,
       breakpoint_to_reinsert = None, handler = None\<rparr>]\<rparr>"

lemma demo_trapped_fields:
  "breakpoint_len demo_trapped = 4" "breakpoint_data demo_trapped = Some (be32 ppc_breakpoint)"
  "map bp_pc (breakpoints demo_trapped) = [4096]" "bp_brk demo_trapped = 1"
  "find_breakpoint_at 4096 (breakpoints demo_trapped) = Some (hd (breakpoints demo_trapped))"
  "reinserting (hd (breakpoints demo_trapped)) = False"
  by (simp_all add: demo_trapped_def demo_fields find_breakpoint_at_def)

lemma demo_trapped_ok: "breakpoints_ok flat_mem flat_maps demo_trapped"
proof -
  have "mem_bytes (write_bytes (\<lambda>_. 0) 4096 (be32 ppc_breakpoint)) 4096 4 = be32 ppc_breakpoint"
    using mem_bytes_write_bytes [of "\<lambda>_. 0" 4096 "be32 ppc_breakpoint"] by simp
  then show ?thesis
    by (simp add: breakpoints_ok_def bp_ok_def bps_ok_def demo_trapped_def demo_fields task_mem_def
        flat_mem_def task_maps_def flat_maps_def bp_range_def) (simp add: demo_state_def MACH_PORT_NULL_def)
qed

lemma demo_trapped_mapped:
  "0 \<le> a \<Longrightarrow> a + int n \<le> 2147483648 \<Longrightarrow> mapped_mem flat_maps demo_trapped a n"
  by (auto simp: mapped_mem_def in_mem_def task_maps_def flat_maps_def demo_trapped_def demo_state_def
      MACH_PORT_NULL_def)

context kernel_memory
begin

lemma darwin_contract: "memory_target (darwin_ops K) (task_mem mem) (task_maps maps)"
  by unfold_locales

end

subsection \<open>The properties\<close>

text \<open>
  C6: Reading memory through \<open>read_inferior_memory\<close> never shows the client a breakpoint: whatever
  breakpoints are inserted, in the range or across its ends, the bytes returned are those of the
  program as the client sees it, the read succeeds, and it changes neither that memory nor the
  breakpoints.
\<close>

theorem client_reads_own_bytes:
  assumes "kernel_memory K mem maps writable" and "breakpoints_ok mem maps s"
    and "mapped_mem maps s a n"
  shows "\<exists>t. read_inferior_memory (darwin_ops K) a n s = (Ret (mem_bytes (client_view mem s) a n), t)
    \<and> undisturbed mem maps s t \<and> breakpoints t = breakpoints s"
  using memory_target.read_shadow [OF kernel_memory.darwin_contract [OF assms(1)]] assms(2,3) unfolding mem_state_defs by blast

theorem client_reads_own_bytes_witness:
  "\<exists>t. read_inferior_memory (darwin_ops flat_kernel) 4094 6 demo_trapped =
     (Ret (mem_bytes (client_view flat_mem demo_trapped) 4094 6), t)"
  using client_reads_own_bytes [OF flat.kernel_memory_axioms demo_trapped_ok, of 4094 6]
  by (auto simp: demo_trapped_mapped)

text \<open>
  C7: Writing memory through \<open>write_inferior_memory\<close> is a write to the memory as the client sees
  it, also where it runs into breakpoints: the new bytes are seen there afterwards and every other
  byte is as before, the traps stay inserted, and the invariant of the breakpoints holds again.
\<close>

theorem client_write_is_a_write:
  assumes "kernel_memory K mem maps writable" and "breakpoints_ok mem maps s"
    and "mapped_mem maps s a (length bs)" and "bs \<noteq> []"
  shows "\<exists>t. write_inferior_memory (darwin_ops K) a bs s = (Ret 0, t) \<and> breakpoints_ok mem maps t
    \<and> client_view mem t = write_bytes (client_view mem s) a bs \<and> mem_frame s t
    \<and> map bp_pc (breakpoints t) = map bp_pc (breakpoints s)"
  using memory_target.write_shadow [OF kernel_memory.darwin_contract [OF assms(1)]] assms(2,3,4) unfolding mem_state_defs by blast

theorem client_write_is_a_write_witness:
  "\<exists>t. write_inferior_memory (darwin_ops flat_kernel) 4094 [1, 2, 3, 4, 5] demo_trapped = (Ret 0, t)
     \<and> client_view flat_mem t = write_bytes (client_view flat_mem demo_trapped) 4094 [1, 2, 3, 4, 5]"
  using client_write_is_a_write [OF flat.kernel_memory_axioms demo_trapped_ok, of 4094 "[1, 2, 3, 4, 5]"]
  by (auto simp: demo_trapped_mapped)

text \<open>
  C19: Inserting a breakpoint that overlaps none of the others succeeds, writes the trap and adds
  it in front of the list, keeps the invariant and changes nothing of what the client sees.
\<close>

theorem inserted_breakpoint_is_invisible:
  assumes "kernel_memory K mem maps writable" and "breakpoints_ok mem maps s"
    and "clear_of (breakpoint_len s) (breakpoints s) a" and "mapped_mem maps s a (breakpoint_len s)"
  shows "\<exists>t b. set_breakpoint_at (darwin_ops K) a h s = (Ret (), t) \<and> undisturbed mem maps s t
    \<and> breakpoints t = b # breakpoints s \<and> bp_pc b = a \<and> \<not> reinserting b \<and> handler b = h
    \<and> breakpoint_data t = Some (mem_bytes (task_mem mem t) a (breakpoint_len t))"
proof -
  from memory_target.set_breakpoint_at_keeps [OF kernel_memory.darwin_contract [OF assms(1)]] assms(2,3,4) obtain t b where
    t: "set_breakpoint_at (darwin_ops K) a h s = (Ret (), t)"
      "keeps_memory (task_mem mem) (task_maps maps) s t" "breakpoints t = b # breakpoints s" "bp_pc b = a"
      "\<not> reinserting b" "handler b = h"
    unfolding mem_state_defs in_mem_def by blast
  then have "bp_ok (task_mem mem) (task_maps maps) t" by (simp add: keeps_memory_def)
  then obtain d where "breakpoint_data t = Some d"
    "bps_ok (breakpoint_len t) d (bp_brk t) (task_mem mem t) (task_maps maps t) (breakpoints t)"
    by (rule bp_okE)
  with bps_ok_mem(4) [of "breakpoint_len t" d "bp_brk t" "task_mem mem t" "task_maps maps t" _ b] t
  show ?thesis unfolding undisturbed_def by auto
qed

theorem inserted_breakpoint_is_invisible_witness:
  "\<exists>t b. set_breakpoint_at (darwin_ops flat_kernel) 4100 None demo_trapped = (Ret (), t)
     \<and> undisturbed flat_mem flat_maps demo_trapped t \<and> bp_pc b = 4100 \<and> b \<in> set (breakpoints t)"
proof -
  have "clear_of (breakpoint_len demo_trapped) (breakpoints demo_trapped) 4100"
    by (simp add: clear_of_def demo_trapped_def demo_fields)
  with inserted_breakpoint_is_invisible [OF flat.kernel_memory_axioms demo_trapped_ok, of 4100 None]
  show ?thesis by (fastforce simp: demo_trapped_mapped demo_trapped_fields)
qed

text \<open>
  C20: Deleting the breakpoint of an address succeeds, whether there is one or not; afterwards none
  is left there, the others are unchanged, the invariant holds and the client sees the same memory.
\<close>

theorem deleted_breakpoint_is_gone:
  assumes "kernel_memory K mem maps writable" and "breakpoints_ok mem maps s"
  shows "\<exists>t. delete_breakpoint_at (darwin_ops K) a s = (Ret (), t) \<and> undisturbed mem maps s t
    \<and> breakpoints t = filter (\<lambda>b. bp_pc b \<noteq> a) (breakpoints s)"
  using memory_target.delete_breakpoint_at_keeps [OF kernel_memory.darwin_contract [OF assms(1)]] assms(2) unfolding mem_state_defs by blast

theorem deleted_breakpoint_is_gone_witness:
  "\<exists>t. delete_breakpoint_at (darwin_ops flat_kernel) 4096 demo_trapped = (Ret (), t)
     \<and> undisturbed flat_mem flat_maps demo_trapped t \<and> breakpoints t = []"
  using deleted_breakpoint_is_gone [OF flat.kernel_memory_axioms demo_trapped_ok, of 4096]
  by (auto simp: demo_trapped_def)

text \<open>
  Inserting a breakpoint and deleting it again leaves the breakpoints and every byte of the
  program's memory as they were.
\<close>

theorem set_delete_roundtrip:
  assumes "kernel_memory K mem maps writable" and "breakpoints_ok mem maps s"
    and "clear_of (breakpoint_len s) (breakpoints s) a" and "mapped_mem maps s a (breakpoint_len s)"
  shows "\<exists>t u. set_breakpoint_at (darwin_ops K) a h s = (Ret (), t)
    \<and> delete_breakpoint_at (darwin_ops K) a t = (Ret (), u) \<and> undisturbed mem maps s u
    \<and> breakpoints u = breakpoints s \<and> task_mem mem u = task_mem mem s"
  using memory_target.set_delete [OF kernel_memory.darwin_contract [OF assms(1)]] assms(2,3,4) unfolding mem_state_defs in_mem_def by blast

theorem set_delete_roundtrip_witness:
  "\<exists>t u. set_breakpoint_at (darwin_ops flat_kernel) 8190 None demo_trapped = (Ret (), t)
    \<and> delete_breakpoint_at (darwin_ops flat_kernel) 8190 t = (Ret (), u)
    \<and> task_mem flat_mem u = task_mem flat_mem demo_trapped"
proof -
  have "clear_of (breakpoint_len demo_trapped) (breakpoints demo_trapped) 8190"
    by (simp add: clear_of_def demo_trapped_def demo_fields)
  with set_delete_roundtrip [OF flat.kernel_memory_axioms demo_trapped_ok, of 8190 None]
  show ?thesis by (auto simp: demo_trapped_mapped demo_trapped_fields)
qed

text \<open>
  C21: Lifting a breakpoint with \<open>uninsert_breakpoint\<close> puts the program's own instruction back into
  memory, so that the stopped thread can execute it; \<open>reinsert_breakpoint\<close> then restores the
  breakpoints and every byte of memory as they were before.
\<close>

theorem uninsert_then_reinsert:
  assumes "kernel_memory K mem maps writable" and "breakpoints_ok mem maps s"
    and "find_breakpoint_at a (breakpoints s) = Some b" and "\<not> reinserting b"
  shows "\<exists>t u. uninsert_breakpoint (darwin_ops K) a s = (Ret (), t)
    \<and> mem_bytes (task_mem mem t) a (breakpoint_len s) = mem_bytes (client_view mem s) a (breakpoint_len s)
    \<and> reinsert_breakpoint (darwin_ops K) a t = (Ret (), u)
    \<and> breakpoints u = breakpoints s \<and> task_mem mem u = task_mem mem s \<and> undisturbed mem maps s u"
  using memory_target.uninsert_reinsert [OF kernel_memory.darwin_contract [OF assms(1)]] assms(2,3,4) unfolding mem_state_defs by blast

theorem uninsert_then_reinsert_witness:
  "\<exists>t u. uninsert_breakpoint (darwin_ops flat_kernel) 4096 demo_trapped = (Ret (), t)
    \<and> reinsert_breakpoint (darwin_ops flat_kernel) 4096 t = (Ret (), u)
    \<and> task_mem flat_mem u = task_mem flat_mem demo_trapped"
  using uninsert_then_reinsert [OF flat.kernel_memory_axioms demo_trapped_ok demo_trapped_fields(5)]
    demo_trapped_fields(6) by blast

text \<open>
  C9: Stepping over a breakpoint: \<open>reinsert_breakpoint_by_bp\<close> lifts the breakpoint at the stop
  address and plants a temporary one where the thread will stop next; when that one is hit,
  \<open>check_breakpoints\<close> reinserts the first and deletes the temporary one.  Afterwards the breakpoints
  and every byte of memory are as they were at first.
\<close>

theorem step_over_breakpoint:
  assumes "kernel_memory K mem maps writable" and "breakpoints_ok mem maps s"
    and "find_breakpoint_at stop_pc (breakpoints s) = Some orig" and "\<not> reinserting orig"
    and "clear_of (breakpoint_len s) (breakpoints s) stop_at"
    and "mapped_mem maps s stop_at (breakpoint_len s)"
  shows "\<exists>t u. reinsert_breakpoint_by_bp (darwin_ops K) stop_pc stop_at s = (Ret (), t)
    \<and> undisturbed mem maps s t \<and> check_breakpoints (darwin_ops K) stop_at t = (Ret True, u)
    \<and> undisturbed mem maps s u \<and> breakpoints u = breakpoints s \<and> task_mem mem u = task_mem mem s"
  using memory_target.step_over [OF kernel_memory.darwin_contract [OF assms(1)]] assms(2-6) unfolding mem_state_defs in_mem_def by blast

theorem step_over_breakpoint_witness:
  "\<exists>t u. reinsert_breakpoint_by_bp (darwin_ops flat_kernel) 4096 4100 demo_trapped = (Ret (), t)
    \<and> check_breakpoints (darwin_ops flat_kernel) 4100 t = (Ret True, u)
    \<and> task_mem flat_mem u = task_mem flat_mem demo_trapped"
proof -
  have "clear_of (breakpoint_len demo_trapped) (breakpoints demo_trapped) 4100"
    by (simp add: clear_of_def demo_trapped_def demo_fields)
  with step_over_breakpoint [OF flat.kernel_memory_axioms demo_trapped_ok demo_trapped_fields(5), of 4100]
  show ?thesis using demo_trapped_fields(6) by (auto simp: demo_trapped_mapped demo_trapped_fields)
qed

text \<open>
  C37: The server does not notice a second breakpoint at the same address, as a client may request
  it: it saves the first trap as the original bytes of the second.  When the client then writes the
  instruction at this address and reads it back, it is shown the trap and not what it wrote.
\<close>

theorem duplicate_breakpoint_shows_trap:
  assumes "kernel_memory K mem maps writable" and "breakpoints s = []" and "breakpoint_data s = Some d"
    and "length d = breakpoint_len s" and "0 < breakpoint_len s" and "breakpoint_len s \<le> 8"
    and "mapped_mem maps s a (breakpoint_len s)" and "length bs = breakpoint_len s"
  shows "\<exists>t1 t2 t3 t4. set_breakpoint_at (darwin_ops K) a None s = (Ret (), t1)
    \<and> set_breakpoint_at (darwin_ops K) a None t1 = (Ret (), t2)
    \<and> write_inferior_memory (darwin_ops K) a bs t2 = (Ret 0, t3)
    \<and> read_inferior_memory (darwin_ops K) a (breakpoint_len s) t3 = (Ret d, t4)"
  using memory_target.duplicate_shows_trap [OF kernel_memory.darwin_contract [OF assms(1)] assms(3-6)] assms(2,7,8)
  unfolding mem_state_defs by blast

theorem duplicate_breakpoint_shows_trap_witness:
  "\<exists>t1 t2 t3 t4. set_breakpoint_at (darwin_ops flat_kernel) 4096 None demo_state = (Ret (), t1)
    \<and> set_breakpoint_at (darwin_ops flat_kernel) 4096 None t1 = (Ret (), t2)
    \<and> write_inferior_memory (darwin_ops flat_kernel) 4096 [1, 2, 3, 4] t2 = (Ret 0, t3)
    \<and> read_inferior_memory (darwin_ops flat_kernel) 4096 4 t3 = (Ret (be32 ppc_breakpoint), t4)"
  using duplicate_breakpoint_shows_trap [OF flat.kernel_memory_axioms demo_fields(2,3), of 4096 "[1, 2, 3, 4]"]
  by (simp add: demo_mapped demo_fields)

end
