(* ===== verification/DarwinRegs.thy ===== *)
theory DarwinRegs
  imports Darwin
begin

section \<open>Registers between the kernel and the cache\<close>

text \<open>
  The PowerPC registers of a thread as the 412 bytes of its register cache (\<open>ppc_image\<close>), and what
  \<^verbatim>\<open>darwin_ppc_fetch_registers\<close> and \<^verbatim>\<open>darwin_ppc_store_registers\<close> do to the two sides.
\<close>

subsection \<open>Slots\<close>

definition slot :: "reg list \<Rightarrow> nat \<Rightarrow> byte list \<Rightarrow> byte list" where
  "slot rs i bytes = take (slot_len rs i) (drop (slot_ofs rs i) bytes)"

definition put_slot :: "reg list \<Rightarrow> nat \<Rightarrow> byte list \<Rightarrow> byte list \<Rightarrow> byte list" where
  "put_slot rs i v bytes = overwrite bytes (slot_ofs rs i) v"

lemma put_slot:
  assumes "regs_wf rs (length bytes)" and "i < length rs" and "length v = slot_len rs i"
  shows "length (put_slot rs i v bytes) = length bytes" "slot rs i (put_slot rs i v bytes) = v"
    and "j < length rs \<Longrightarrow> j \<noteq> i \<Longrightarrow> slot rs j (put_slot rs i v bytes) = slot rs j bytes"
proof -
  note b = slot_bound(1) [OF assms(1)]
  have l: "slot_ofs rs i + length v \<le> length bytes" using b [OF assms(2)] assms(3) by simp
  show "length (put_slot rs i v bytes) = length bytes" using l by (simp add: put_slot_def)
  show "slot rs i (put_slot rs i v bytes) = v"
    unfolding slot_def put_slot_def assms(3) [symmetric] by (rule take_drop_overwrite [OF l])
  show "slot rs j (put_slot rs i v bytes) = slot rs j bytes" if "j < length rs" "j \<noteq> i"
    unfolding slot_def put_slot_def
    using b [OF assms(2)] b [OF that(1)] slot_disjoint [OF assms(1,2) that(1)] that(2) assms(3)
    by (intro take_drop_overwrite_disjoint) auto
qed

lemma fold_put_slot:
  assumes "regs_wf rs (length bytes)"
    and "\<forall>i \<in> set is. i < length rs \<and> length (v i) = slot_len rs i" and "distinct is"
  shows "length (fold (\<lambda>i. put_slot rs i (v i)) is bytes) = length bytes
    \<and> (\<forall>j < length rs. slot rs j (fold (\<lambda>i. put_slot rs i (v i)) is bytes) =
      (if j \<in> set is then v j else slot rs j bytes))"
  using assms
proof (induction "is" arbitrary: bytes)
  case (Cons i "is")
  let ?b = "put_slot rs i (v i) bytes"
  have i: "i < length rs" "length (v i) = slot_len rs i" "i \<notin> set is" using Cons.prems by simp_all
  note p = put_slot [OF Cons.prems(1) i(1,2)]
  have "length (fold (\<lambda>i. put_slot rs i (v i)) is ?b) = length ?b
    \<and> (\<forall>j < length rs. slot rs j (fold (\<lambda>i. put_slot rs i (v i)) is ?b) =
      (if j \<in> set is then v j else slot rs j ?b))"
    using Cons.prems p(1) by (intro Cons.IH) simp_all
  with p i(3) show ?case by auto
qed simp

lemma concat_slots:
  assumes "\<And>i. i < n \<Longrightarrow> ofs (Suc i) = ofs i + len i" and "ofs 0 = (0::nat)"
  shows "concat (map (\<lambda>i. take (len i) (drop (ofs i) bytes)) [0..<n]) = take (ofs n) bytes"
  using assms by (induction n) (auto simp: take_add)

subsection \<open>Supplying and collecting\<close>

lemma cache_at_kst [simp]: "cache_at (s\<lparr>kst := k\<rparr>) a rc = cache_at s a rc"
  by (simp add: cache_at_def)

lemma current_cache_kst [simp]: "current_cache (s\<lparr>kst := k\<rparr>) a rc = current_cache s a rc"
  by (simp add: current_cache_def)

lemma set_cache_kst [simp]: "set_cache a rc (s\<lparr>kst := k\<rparr>) = (set_cache a rc s)\<lparr>kst := k\<rparr>"
  by (simp add: set_cache_def)

lemma current_cacheD:
  assumes "current_cache s a rc"
  shows "cache_at s a rc" "current_inferior s = Some a" "regs_wf (reg_defs s) (length (registers rc))"
    "length (registers rc) = register_bytes s"
  using assms by (simp_all add: current_cache_def)

lemma supply_by_name_eq:
  assumes c: "current_cache s a rc" and f: "find_reg_loop name 0 (reg_defs s) = Some i"
    and l: "length v = slot_len (reg_defs s) i"
  defines "rc' \<equiv> rc\<lparr>registers := put_slot (reg_defs s) i v (registers rc)\<rparr>"
  shows "supply_register_by_name name v s = (Ret (), set_cache a rc' s)"
    and "current_cache (set_cache a rc' s) a rc'"
proof -
  have i: "i < length (reg_defs s)" using find_reg_loop_Some [OF f] by simp
  show "supply_register_by_name name v s = (Ret (), set_cache a rc' s)"
    using supply_register_eq [OF c i] l
    by (simp add: supply_register_by_name_def find_regno_def f bind_p_def rc'_def put_slot_def)
  show "current_cache (set_cache a rc' s) a rc'"
    unfolding rc'_def using current_cacheD(3,4) [OF c] put_slot(1) [of "reg_defs s" "registers rc" i v] i l
    by (intro current_cache_overwrite [OF c]) auto
qed

lemma supply_all_eq:
  assumes "current_cache s a rc"
    and "\<forall>x \<in> set xs. find_reg_loop (name x) 0 (reg_defs s) = Some (idx x)
      \<and> length (v x) = slot_len (reg_defs s) (idx x)"
  shows "\<exists>rc'. for_p (\<lambda>x. supply_register_by_name (name x) (v x)) xs s = (Ret (), set_cache a rc' s)
    \<and> current_cache (set_cache a rc' s) a rc' \<and> rc' = rc\<lparr>registers :=
      fold (\<lambda>x. put_slot (reg_defs s) (idx x) (v x)) xs (registers rc)\<rparr>"
  using assms
proof (induction xs arbitrary: s rc)
  case Nil
  then show ?case by (auto simp: current_cache_def)
next
  case (Cons x xs)
  let ?rc = "rc\<lparr>registers := put_slot (reg_defs s) (idx x) (v x) (registers rc)\<rparr>"
  let ?s = "set_cache a ?rc s"
  have x: "find_reg_loop (name x) 0 (reg_defs s) = Some (idx x)"
      "length (v x) = slot_len (reg_defs s) (idx x)" using Cons.prems(2) by simp_all
  note e = supply_by_name_eq [OF Cons.prems(1) x]
  have "\<forall>y \<in> set xs. find_reg_loop (name y) 0 (reg_defs ?s) = Some (idx y)
      \<and> length (v y) = slot_len (reg_defs ?s) (idx y)" using Cons.prems(2) by simp
  from Cons.IH [OF e(2) this] e(1) show ?case by (auto simp: bind_p_def)
qed

lemma collect_by_name_eq:
  assumes "current_cache s a rc" and "registers_valid rc" and f: "find_reg_loop name 0 (reg_defs s) = Some i"
  shows "collect_register_by_name fetch name s = (Ret (slot (reg_defs s) i (registers rc)), s)"
  using collect_register_eq [OF assms(1,2)] find_reg_loop_Some [OF f]
  by (simp add: collect_register_by_name_def find_regno_def f bind_p_def slot_def)

lemma collect_regs_eq:
  assumes "current_cache s a rc" and "registers_valid rc" and "distinct xs"
    and "\<forall>x \<in> set xs. find_reg_loop (name x) 0 (reg_defs s) = Some (idx x)"
  shows "collect_regs fetch name conv xs g s =
    (Ret (\<lambda>x. if x \<in> set xs then conv (slot (reg_defs s) (idx x) (registers rc)) else g x), s)"
  using assms(3,4)
proof (induction xs arbitrary: g)
  case (Cons x xs)
  then have "collect_register_by_name fetch (name x) s =
      (Ret (slot (reg_defs s) (idx x) (registers rc)), s)"
    using collect_by_name_eq [OF assms(1,2)] by simp
  with Cons show ?case by (auto simp: bind_p_def fun_eq_iff)
qed simp

subsection \<open>The PowerPC layout\<close>

definition ppc_slot :: "ppc_thread_state \<Rightarrow> ppc_float_state \<Rightarrow> nat \<Rightarrow> byte list" where
  \<comment> \<open>the bytes of a register, by its number\<close>
  "ppc_slot st fs i =
     (if i < 32 then be32 (gprs st i)
      else if i < 64 then be64 (fpregs fs (i - 32))
      else be32 ([srr0 st, srr1 st, cr st, lr st, ctr st, xer st, fpscr fs] ! (i - 64)))"

definition ppc_image :: "ppc_thread_state \<Rightarrow> ppc_float_state \<Rightarrow> byte list" where
  "ppc_image st fs = concat (map (ppc_slot st fs) [0..<71])"

lemma ppc_slots:
  "list_all (\<lambda>i. slot_ofs regs_ppc i = (if i < 32 then 4 * i else if i < 64 then 8 * i - 128 else 4 * i + 128)
     \<and> slot_len regs_ppc i = (if 32 \<le> i \<and> i < 64 then 8 else 4)) [0..<71]"
  by (simp add: upt_rec slot_ofs_def slot_len_def regs_ppc_def mk_reg_def)

lemma slot_ppc:
  assumes "i < 71"
  shows "slot_ofs regs_ppc i = (if i < 32 then 4 * i else if i < 64 then 8 * i - 128 else 4 * i + 128)"
    "slot_len regs_ppc i = (if 32 \<le> i \<and> i < 64 then 8 else 4)"
  using ppc_slots assms by (simp_all only: list_all_iff set_upt atLeastLessThan_iff simp_thms)

lemma length_ppc_slot: "i < 71 \<Longrightarrow> length (ppc_slot st fs i) = slot_len regs_ppc i"
  by (simp add: ppc_slot_def slot_ppc)

lemma slots_whole:
  assumes "length bytes = 412"
  shows "concat (map (\<lambda>i. slot regs_ppc i bytes) [0..<71]) = bytes"
proof -
  define ofs where "ofs i = (if i < 32 then 4 * i else if i < 64 then 8 * i - 128 else 4 * i + 128)" for i :: nat
  have "concat (map (\<lambda>i. take (slot_len regs_ppc i) (drop (ofs i) bytes)) [0..<71]) = take (ofs 71) bytes"
    by (rule concat_slots) (auto simp: ofs_def slot_ppc)
  moreover have "map (\<lambda>i. slot regs_ppc i bytes) [0..<71]
      = map (\<lambda>i. take (slot_len regs_ppc i) (drop (ofs i) bytes)) [0..<71]"
    by (rule map_cong) (simp_all only: slot_def slot_ppc ofs_def set_upt atLeastLessThan_iff)
  moreover have "ofs 71 = 412" by (simp add: ofs_def)
  ultimately show ?thesis using assms by (simp only: take_all_iff order_refl)
qed

lemma ppc_image_unique:
  assumes "length bytes = 412" and "\<And>i. i < 71 \<Longrightarrow> slot regs_ppc i bytes = ppc_slot st fs i"
  shows "bytes = ppc_image st fs"
proof -
  have "map (\<lambda>i. slot regs_ppc i bytes) [0..<71] = map (ppc_slot st fs) [0..<71]"
    using assms(2) by (intro map_cong) auto
  with slots_whole [OF assms(1)] show ?thesis by (simp only: ppc_image_def)
qed

lemma names_r: "list_all (\<lambda>i. reg_name (regs_ppc ! i) = reg_name_d ''r'' i) [0..<32]"
  by code_simp

lemma names_f: "list_all (\<lambda>i. reg_name (regs_ppc ! (32 + i)) = reg_name_d ''f'' i) [0..<32]"
  by code_simp

lemma find_ppc:
  "i < 32 \<Longrightarrow> find_reg_loop (reg_name_d ''r'' i) 0 regs_ppc = Some i"
  "i < 32 \<Longrightarrow> find_reg_loop (reg_name_d ''f'' i) 0 regs_ppc = Some (32 + i)"
  "find_reg_loop ''pc'' 0 regs_ppc = Some 64" "find_reg_loop ''ps'' 0 regs_ppc = Some 65"
  "find_reg_loop ''cr'' 0 regs_ppc = Some 66" "find_reg_loop ''lr'' 0 regs_ppc = Some 67"
  "find_reg_loop ''ctr'' 0 regs_ppc = Some 68" "find_reg_loop ''xer'' 0 regs_ppc = Some 69"
  "find_reg_loop ''fpscr'' 0 regs_ppc = Some 70"
proof -
  note f = find_reg_loop_distinct [OF regs_ppc_names, of _ 0]
  show "i < 32 \<Longrightarrow> find_reg_loop (reg_name_d ''r'' i) 0 regs_ppc = Some i"
    using f [of i] names_r by (simp add: list_all_iff)
  show "i < 32 \<Longrightarrow> find_reg_loop (reg_name_d ''f'' i) 0 regs_ppc = Some (32 + i)"
    using f [of "32 + i"] names_f by (simp add: list_all_iff)
qed (simp_all add: regs_ppc_def mk_reg_def)

subsection \<open>Fetching\<close>

definition with_regs ::
  "nat \<Rightarrow> inferior_regcache_data \<Rightarrow> ('k, 'z) inf_state_scheme \<Rightarrow> byte list \<Rightarrow> 'k \<Rightarrow> ('k, 'z) inf_state_scheme"
where
  "with_regs a rc s bytes k = set_cache a (rc\<lparr>registers := bytes\<rparr>) (s\<lparr>kst := k\<rparr>)"

definition ppc_cache :: "('k, 'z) inf_state_scheme \<Rightarrow> nat \<Rightarrow> inferior_regcache_data \<Rightarrow> bool" where
  "ppc_cache s a rc \<longleftrightarrow> current_cache s a rc \<and> reg_defs s = regs_ppc \<and> register_bytes s = 412"

lemma with_regs_simps [simp]:
  "set_cache a (rc\<lparr>registers := b\<rparr>) (with_regs a rc s bytes k) = with_regs a rc s b k"
  "(with_regs a rc s bytes k)\<lparr>kst := k'\<rparr> = with_regs a rc s bytes k'"
  "kst (with_regs a rc s bytes k) = k" "reg_defs (with_regs a rc s bytes k) = reg_defs s"
  by (simp_all add: with_regs_def)

lemma with_regs_cache:
  assumes "ppc_cache s a rc" and "length bytes = 412"
  shows "current_cache (with_regs a rc s bytes k) a (rc\<lparr>registers := bytes\<rparr>)"
  using assms current_cache_overwrite [of "s\<lparr>kst := k\<rparr>" a rc bytes]
  by (simp add: with_regs_def ppc_cache_def)

lemma supply_with_regs:
  assumes "ppc_cache s a rc" and "length bytes = 412" and "find_reg_loop name 0 regs_ppc = Some i"
    and "v = ppc_slot st fs i"
  shows "supply_register_by_name name v (with_regs a rc s bytes k) =
    (Ret (), with_regs a rc s (put_slot regs_ppc i (ppc_slot st fs i) bytes) k)"
proof -
  have "i < 71" using find_reg_loop_Some [OF assms(3)] by simp
  then show ?thesis
    using supply_by_name_eq(1) [OF with_regs_cache [OF assms(1,2), where k = k], of name i v] assms
    by (simp add: ppc_cache_def length_ppc_slot)
qed

lemma supply_all_with_regs:
  assumes "ppc_cache s a rc" and "length bytes = 412"
    and "\<forall>x \<in> set xs. find_reg_loop (name x) 0 regs_ppc = Some (idx x) \<and> v x = ppc_slot st fs (idx x)"
  shows "for_p (\<lambda>x. supply_register_by_name (name x) (v x)) xs (with_regs a rc s bytes k) =
    (Ret (), with_regs a rc s (fold (\<lambda>i. put_slot regs_ppc i (ppc_slot st fs i)) (map idx xs) bytes) k)"
  using assms(2,3)
proof (induction xs arbitrary: bytes)
  case (Cons x xs)
  then have x: "find_reg_loop (name x) 0 regs_ppc = Some (idx x)" "v x = ppc_slot st fs (idx x)" by simp_all
  have "idx x < length regs_ppc" using find_reg_loop_Some [OF x(1)] by simp
  then have "length (put_slot regs_ppc (idx x) (ppc_slot st fs (idx x)) bytes) = 412"
    using put_slot(1) [of regs_ppc bytes "idx x"] Cons.prems(1) regs_wf_ppc by (simp add: length_ppc_slot)
  with Cons supply_with_regs [OF assms(1) Cons.prems(1) x] show ?case by (simp add: bind_p_def)
qed simp

lemma length_put_slots:
  assumes "length bytes = 412" and "\<forall>i \<in> set is. i < 71"
  shows "length (fold (\<lambda>i. put_slot regs_ppc i (ppc_slot st fs i)) is bytes) = 412"
  using assms
proof (induction "is" arbitrary: bytes)
  case (Cons i "is")
  then show ?case
    using put_slot(1) [of regs_ppc bytes i "ppc_slot st fs i"] regs_wf_ppc by (simp add: length_ppc_slot)
qed simp

definition fetch_order :: "nat list" where
  "fetch_order = [0..<32] @ [64, 65, 66, 67, 68, 69] @ map ((+) 32) [0..<32] @ [70]"

lemma fetch_order: "distinct fetch_order" "set fetch_order = {0..<71}"
proof -
  have "map ((+) 32) [0..<32] = [32..<64::nat]" by (rule nth_equalityI) (simp_all del: upt_rec_numeral)
  then show "distinct fetch_order" by (simp add: fetch_order_def)
  have "{0..<32} \<union> {64, 65, 66, 67, 68, 69} \<union> {32..<64} \<union> {70} = {0..<71::nat}" by auto
  with \<open>map ((+) 32) [0..<32] = [32..<64::nat]\<close> show "set fetch_order = {0..<71}"
    unfolding fetch_order_def set_append by (simp only: set_upt) auto
qed

lemma fetched_image:
  assumes "length bytes = 412"
  shows "fold (\<lambda>i. put_slot regs_ppc i (ppc_slot st fs i)) fetch_order bytes = ppc_image st fs"
proof (rule ppc_image_unique)
  note f = fold_put_slot [of regs_ppc bytes fetch_order "ppc_slot st fs"]
  show "length (fold (\<lambda>i. put_slot regs_ppc i (ppc_slot st fs i)) fetch_order bytes) = 412"
    using f assms regs_wf_ppc fetch_order by (simp add: length_ppc_slot)
  fix i :: nat assume "i < 71"
  then show "slot regs_ppc i (fold (\<lambda>i. put_slot regs_ppc i (ppc_slot st fs i)) fetch_order bytes)
      = ppc_slot st fs i"
    using f assms regs_wf_ppc fetch_order by (simp add: length_ppc_slot)
qed

lemma ppc_fetch_eq:
  assumes c: "ppc_cache s a rc"
    and k: "k_get_state K th (kst s) = (Some st, k1)" "k_get_float K th k1 = (Some fs, k2)"
  shows "darwin_ppc_fetch_registers K th s =
    (Ret (), set_cache a (rc\<lparr>registers := ppc_image st fs\<rparr>) (s\<lparr>kst := k2\<rparr>))"
proof -
  let ?W = "with_regs a rc s"
  let ?p = "\<lambda>i. put_slot regs_ppc i (ppc_slot st fs i)"
  let ?fold = "fold ?p"
  have r0: "s\<lparr>kst := k\<rparr> = ?W (registers rc) k" for k
    using current_cacheD(1) [of s a rc] c by (simp add: with_regs_def ppc_cache_def)
  have l0: "length (registers rc) = 412" using c by (simp add: ppc_cache_def current_cache_def)
  have gprs: "for_p (\<lambda>i. supply_register_by_name (reg_name_d ''r'' i) (be32 (gprs st i))) [0..<32] (?W b k)
      = (Ret (), ?W (?fold (map (\<lambda>x. x) [0..<32]) b) k)" if "length b = 412" for b k
    by (rule supply_all_with_regs [OF c that]) (auto simp: find_ppc ppc_slot_def)
  have fprs: "for_p (\<lambda>i. supply_register_by_name (reg_name_d ''f'' i) (be64 (fpregs fs i))) [0..<32] (?W b k)
      = (Ret (), ?W (?fold (map ((+) 32) [0..<32]) b) k)" if "length b = 412" for b k
    by (rule supply_all_with_regs [OF c that]) (auto simp: find_ppc ppc_slot_def)
  have one: "supply_register_by_name nm v (?W b k) = (Ret (), ?W (?p i b) k)"
    if "length b = 412" "find_reg_loop nm 0 regs_ppc = Some i" "v = ppc_slot st fs i" for nm i v b k
    using supply_with_regs [OF c that] by simp
  define b1 where "b1 = ?fold [0..<32] (registers rc)"
  define b2 where "b2 = ?fold [64, 65, 66, 67, 68, 69] b1"
  have l1: "length b1 = 412" unfolding b1_def by (rule length_put_slots [OF l0]) simp
  have b2: "b2 = ?p 69 (?p 68 (?p 67 (?p 66 (?p 65 (?p 64 b1)))))"
    by (simp only: b2_def fold_simps)
  have ls: "length (?p i b) = 412" if "length b = 412" "i < 71" for i b
    using length_put_slots [of b "[i]"] that by simp
  have l2: "length b2 = 412" unfolding b2_def by (rule length_put_slots [OF l1]) simp
  have l3: "length (?fold (map ((+) 32) [0..<32]) b2) = 412" by (rule length_put_slots [OF l2]) auto
  have vs: "be32 (srr0 st) = ppc_slot st fs 64" "be32 (srr1 st) = ppc_slot st fs 65"
      "be32 (cr st) = ppc_slot st fs 66" "be32 (lr st) = ppc_slot st fs 67"
      "be32 (ctr st) = ppc_slot st fs 68" "be32 (xer st) = ppc_slot st fs 69"
      "be32 (fpscr fs) = ppc_slot st fs 70"
    by (simp_all add: ppc_slot_def)
  have "?fold [70] (?fold (map ((+) 32) [0..<32]) b2) = ?fold fetch_order (registers rc)"
    by (simp only: fetch_order_def fold_append comp_apply b1_def b2_def)
  then have final: "?fold [70] (?fold (map ((+) 32) [0..<32]) b2) = ppc_image st fs"
    using fetched_image [OF l0] by simp
  have g: "kcall (k_get_state K th) s = (Ret (Some st), ?W (registers rc) k1)"
      "kcall (k_get_float K th) (?W b k1) = (Ret (Some fs), ?W b k2)" for b
    using kcall_eq [of "k_get_state K th", OF k(1)] k(2) r0 by (simp_all add: kcall_def)
  have "darwin_ppc_fetch_registers K th s = (Ret (), ?W (?fold [70] (?fold (map ((+) 32) [0..<32]) b2)) k2)"
    unfolding darwin_ppc_fetch_registers_def
    by (simp add: prog_simps g gprs [OF l0] one l1 ls vs find_ppc fprs [OF l2] l3
        b1_def [symmetric] b2 [symmetric] del: upt_rec_numeral list.map)
  then show ?thesis by (simp only: final with_regs_def)
qed

subsection \<open>Storing\<close>

definition state_of_image :: "byte list \<Rightarrow> ppc_thread_state \<Rightarrow> ppc_thread_state" where
  "state_of_image bytes st =
     (let w = (\<lambda>i. of_be32 (slot regs_ppc i bytes))
      in st\<lparr>gprs := (\<lambda>i. if i < 32 then w i else gprs st i), srr0 := w 64, srr1 := w 65, cr := w 66,
        lr := w 67, ctr := w 68, xer := w 69\<rparr>)"

definition float_of_image :: "byte list \<Rightarrow> ppc_float_state \<Rightarrow> ppc_float_state" where
  "float_of_image bytes fs =
     fs\<lparr>fpregs := (\<lambda>i. if i < 32 then of_be64 (slot regs_ppc (32 + i) bytes) else fpregs fs i),
       fpscr := of_be32 (slot regs_ppc 70 bytes)\<rparr>"

lemma length_slot_ppc: "length bytes = 412 \<Longrightarrow> i < 71 \<Longrightarrow> length (slot regs_ppc i bytes) = slot_len regs_ppc i"
  by (simp add: slot_def slot_ppc)

lemma image_of_stored:
  assumes "length bytes = 412"
  shows "ppc_image (state_of_image bytes st) (float_of_image bytes fs) = bytes"
proof (rule ppc_image_unique [OF assms, symmetric])
  fix i :: nat assume i: "i < 71"
  have l: "length (slot regs_ppc i bytes) = (if 32 \<le> i \<and> i < 64 then 8 else 4)"
    using length_slot_ppc [OF assms i] slot_ppc [OF i] by simp
  consider "i < 32" | "32 \<le> i" "i < 64" | "i = 64" | "i = 65" | "i = 66" | "i = 67" | "i = 68" | "i = 69"
    | "i = 70" using i by linarith
  then show "slot regs_ppc i bytes = ppc_slot (state_of_image bytes st) (float_of_image bytes fs) i"
    using l by cases (auto simp: ppc_slot_def state_of_image_def float_of_image_def Let_def be32_of_be32
        be64_of_be64)
qed

lemma ppc_store_eq:
  assumes c: "ppc_cache s a rc" and v: "registers_valid rc"
    and k: "k_get_state K th (kst s) = (Some st, k1)"
      "k_set_state K th (state_of_image (registers rc) st) k1 = (ok, k2)"
      "k_get_float K th k2 = (Some fs, k3)"
      "k_set_float K th (float_of_image (registers rc) fs) k3 = (ok', k4)"
  shows "darwin_ppc_store_registers K fetch th s = (Ret (), s\<lparr>kst := k4\<rparr>)"
proof -
  have c': "current_cache (s\<lparr>kst := k\<rparr>) a rc" and rd: "reg_defs (s\<lparr>kst := k\<rparr>) = regs_ppc" for k
    using c by (simp_all add: ppc_cache_def)
  let ?slot = "\<lambda>i. slot regs_ppc i (registers rc)"
  have one: "collect_register_by_name fetch' nm (s\<lparr>kst := k\<rparr>) = (Ret (?slot i), s\<lparr>kst := k\<rparr>)"
    if "find_reg_loop nm 0 regs_ppc = Some i" for fetch' nm i k
    using collect_by_name_eq [OF c' v, of nm k i fetch'] that rd by simp
  have gprs: "collect_regs fetch' (reg_name_d ''r'') of_be32 [0..<32] g (s\<lparr>kst := k\<rparr>) =
      (Ret (\<lambda>i. if i < 32 then of_be32 (?slot i) else g i), s\<lparr>kst := k\<rparr>)" for fetch' g k
    using collect_regs_eq [OF c' v, of "[0..<32]" "reg_name_d ''r''" k "\<lambda>i. i" fetch' of_be32 g] rd find_ppc(1)
    by (simp del: upt_rec_numeral cong: if_cong)
  have fprs: "collect_regs fetch' (reg_name_d ''f'') of_be64 [0..<32] g (s\<lparr>kst := k\<rparr>) =
      (Ret (\<lambda>i. if i < 32 then of_be64 (?slot (32 + i)) else g i), s\<lparr>kst := k\<rparr>)" for fetch' g k
    using collect_regs_eq [OF c' v, of "[0..<32]" "reg_name_d ''f''" k "\<lambda>i. 32 + i" fetch' of_be64 g] rd find_ppc(2)
    by (simp del: upt_rec_numeral cong: if_cong)
  have st: "st\<lparr>gprs := \<lambda>i. if i < 32 then of_be32 (?slot i) else gprs st i, srr0 := of_be32 (?slot 64),
      srr1 := of_be32 (?slot 65), cr := of_be32 (?slot 66), lr := of_be32 (?slot 67),
      ctr := of_be32 (?slot 68), xer := of_be32 (?slot 69)\<rparr> = state_of_image (registers rc) st"
    by (simp add: state_of_image_def)
  have fs: "fs\<lparr>fpregs := \<lambda>i. if i < 32 then of_be64 (?slot (32 + i)) else fpregs fs i,
      fpscr := of_be32 (?slot 70)\<rparr> = float_of_image (registers rc) fs"
    by (simp add: float_of_image_def)
  have g: "kcall (k_get_state K th) s = (Ret (Some st), s\<lparr>kst := k1\<rparr>)"
      "kcall (k_set_state K th (state_of_image (registers rc) st)) (s\<lparr>kst := k1\<rparr>) = (Ret ok, s\<lparr>kst := k2\<rparr>)"
      "kcall (k_get_float K th) (s\<lparr>kst := k2\<rparr>) = (Ret (Some fs), s\<lparr>kst := k3\<rparr>)"
      "kcall (k_set_float K th (float_of_image (registers rc) fs)) (s\<lparr>kst := k3\<rparr>) = (Ret ok', s\<lparr>kst := k4\<rparr>)"
    using k by (simp_all add: kcall_def)
  show ?thesis
    unfolding darwin_ppc_store_registers_def
    by (simp add: prog_simps g gprs fprs one find_ppc st fs del: upt_rec_numeral)
qed

subsection \<open>The kernel's registers\<close>

text \<open>
  What the Mach calls for registers are documented to do: they read and write the registers of a
  thread, and leave those of the others alone.
\<close>

locale kernel_registers =
  fixes K :: "'k kernel"
    and regs :: "'k \<Rightarrow> nat \<Rightarrow> ppc_thread_state"
    and fregs :: "'k \<Rightarrow> nat \<Rightarrow> ppc_float_state"
  assumes get_state: "\<exists>k'. k_get_state K th k = (Some (regs k th), k') \<and> regs k' = regs k \<and> fregs k' = fregs k"
    and set_state: "\<exists>k'. k_set_state K th st k = (True, k') \<and> regs k' = (regs k)(th := st) \<and> fregs k' = fregs k"
    and get_float: "\<exists>k'. k_get_float K th k = (Some (fregs k th), k') \<and> regs k' = regs k \<and> fregs k' = fregs k"
    and set_float: "\<exists>k'. k_set_float K th fs k = (True, k') \<and> regs k' = regs k \<and> fregs k' = (fregs k)(th := fs)"
begin

lemma fetched:
  assumes "ppc_cache s a rc"
  shows "\<exists>k. darwin_ppc_fetch_registers K th s = (Ret (), set_cache a
      (rc\<lparr>registers := ppc_image (regs (kst s) th) (fregs (kst s) th)\<rparr>) (s\<lparr>kst := k\<rparr>))
    \<and> regs k = regs (kst s) \<and> fregs k = fregs (kst s)"
proof -
  obtain k1 where k1: "k_get_state K th (kst s) = (Some (regs (kst s) th), k1)"
      "regs k1 = regs (kst s)" "fregs k1 = fregs (kst s)"
    using get_state by blast
  obtain k2 where k2: "k_get_float K th k1 = (Some (fregs k1 th), k2)" "regs k2 = regs k1" "fregs k2 = fregs k1"
    using get_float by blast
  from ppc_fetch_eq [of s a rc K th, OF assms k1(1) k2(1)] k1 k2 show ?thesis by auto
qed

lemma stored:
  assumes "ppc_cache s a rc" and "registers_valid rc"
  shows "\<exists>k. darwin_ppc_store_registers K fetch th s = (Ret (), s\<lparr>kst := k\<rparr>)
    \<and> regs k = (regs (kst s))(th := state_of_image (registers rc) (regs (kst s) th))
    \<and> fregs k = (fregs (kst s))(th := float_of_image (registers rc) (fregs (kst s) th))"
proof -
  obtain k1 where k1: "k_get_state K th (kst s) = (Some (regs (kst s) th), k1)"
      "regs k1 = regs (kst s)" "fregs k1 = fregs (kst s)"
    using get_state by blast
  let ?st = "state_of_image (registers rc) (regs (kst s) th)"
  obtain k2 where k2: "k_set_state K th ?st k1 = (True, k2)" "regs k2 = (regs k1)(th := ?st)" "fregs k2 = fregs k1"
    using set_state by blast
  obtain k3 where k3: "k_get_float K th k2 = (Some (fregs k2 th), k3)" "regs k3 = regs k2" "fregs k3 = fregs k2"
    using get_float by blast
  let ?fs = "float_of_image (registers rc) (fregs k2 th)"
  obtain k4 where k4: "k_set_float K th ?fs k3 = (True, k4)" "regs k4 = regs k3" "fregs k4 = (fregs k3)(th := ?fs)"
    using set_float by blast
  from ppc_store_eq [OF assms k1(1) k2(1) k3(1) k4(1)] k1 k2 k3 k4 show ?thesis by auto
qed

end

subsection \<open>The current process\<close>

definition current_proc ::
  "('k, 'z) darwin_state_scheme \<Rightarrow> nat \<Rightarrow> darwin_process_info \<Rightarrow> bool" where
  "current_proc s p pi \<longleftrightarrow> (\<exists>a th. current_inferior s = Some a \<and> threads s a = Some th
     \<and> target_data th = Some p \<and> procs s p = Some pi)"

lemma current_process_eq: "current_proc s p pi \<Longrightarrow> current_process s = (Ret (p, pi), s)"
  by (auto simp: current_proc_def current_process_def get_thread_process_def inferior_target_data_def
      bind_p_def deref_p_def)

lemma current_proc_kst [simp]: "current_proc (s\<lparr>kst := k\<rparr>) p pi = current_proc s p pi"
  by (simp add: current_proc_def)

lemma current_proc_set_cache [simp]: "current_proc (set_cache a rc s) p pi = current_proc s p pi"
  by (auto simp: current_proc_def set_cache_def)

end
