(* ===== verification/ServerFacts.thy ===== *)
theory ServerFacts
  imports Dispatch DarwinRegs
begin

section \<open>Evaluation of the handlers\<close>

text \<open>
  Lemmas that evaluate the buffer operations and the choice of the thread, for the proofs about
  handlers.
\<close>

subsection \<open>The buffer\<close>

lemma put_str_eq [prog_simps]:
  "off + length str \<le> length (own_buf s) \<Longrightarrow>
     put_str off str s = (Ret (), s\<lparr>own_buf := overwrite (own_buf s) off str\<rparr>)"
  by (simp add: put_str_def store_def)

lemma reply_eq [prog_simps]:
  "length str < length (own_buf s) \<Longrightarrow>
     reply str s = (Ret (), s\<lparr>own_buf := overwrite (own_buf s) 0 (str @ [NUL])\<rparr>)"
  unfolding reply_def by (subst put_str_eq) auto

lemma write_ok_eq [prog_simps]:
  "2 < length (own_buf s) \<Longrightarrow>
     write_ok s = (Ret (), s\<lparr>own_buf := overwrite (own_buf s) 0 (''OK'' @ [NUL])\<rparr>)"
  unfolding write_ok_def by (rule reply_eq) simp

lemma write_enn_eq [prog_simps]:
  "3 < length (own_buf s) \<Longrightarrow>
     write_enn s = (Ret (), s\<lparr>own_buf := overwrite (own_buf s) 0 (''E01'' @ [NUL])\<rparr>)"
  unfolding write_enn_def by (rule reply_eq) simp

lemma empty_reply_eq [prog_simps]:
  "0 < length (own_buf s) \<Longrightarrow> empty_reply s = (Ret (), s\<lparr>own_buf := overwrite (own_buf s) 0 [NUL]\<rparr>)"
  unfolding empty_reply_def by (rule put_str_eq) (simp add: Suc_leI)

lemma cstr_replies [simp]:
  "cstr (overwrite b 0 [CHR ''O'', CHR ''K'', NUL]) 0 = ''OK''"
  "cstr (overwrite b 0 [CHR ''E'', CHR ''0'', CHR ''1'', NUL]) 0 = ''E01''"
  "cstr (overwrite b 0 [NUL]) 0 = []"
  "cstr (overwrite b 0 (hex_bytes bs @ [NUL])) 0 = hex_bytes bs"
  using cstr_overwrite [of "''OK''"] cstr_overwrite [of "''E01''"] cstr_overwrite [of "[]"]
    cstr_overwrite [OF NUL_notin_hex_bytes]
  by (simp_all add: NUL_def)

lemma packet_eq [prog_simps]: "packet s = (Ret (cstr (own_buf s) 0), s)"
  by (simp add: packet_def)

lemma set_mem_buf_eq [prog_simps]:
  "length bs \<le> length (mem_buf s) \<Longrightarrow>
     set_mem_buf bs s = (Ret (), s\<lparr>mem_buf := overwrite (mem_buf s) 0 bs\<rparr>)"
  by (simp add: set_mem_buf_def store_def)

definition connection_of :: "('k, 'z) server_state_scheme \<Rightarrow> net \<times> bool \<times> char" where
  \<comment> \<open>what the packet loop needs to go on\<close>
  "connection_of s = (net s, no_ack_mode s, status s)"

subsection \<open>The thread of a request and its registers\<close>

definition reg_ready ::
  "('k, 'z) server_state_scheme \<Rightarrow> nat \<Rightarrow> darwin_process_info \<Rightarrow> inferior_regcache_data \<Rightarrow> bool" where
  \<comment> \<open>requests about registers are about the thread at \<open>a\<close> with this register cache, in this process\<close>
  "reg_ready s a pi rc \<longleftrightarrow> (\<exists>ts th p. wf_list (entries s) (all_threads s) ts
     \<and> chosen_thread True s ts = Some a \<and> threads s a = Some th \<and> regcache_data th = Some rc
     \<and> target_data th = Some p \<and> procs s p = Some pi) \<and> length (registers rc) = 412
     \<and> reg_defs s = regs_ppc \<and> register_bytes s = 412 \<and> length (own_buf s) = PBUFSIZ s"

lemma reg_ready_size: "reg_ready s a pi rc \<Longrightarrow> length (own_buf s) = 2000"
  by (simp add: reg_ready_def PBUFSIZ_def registers_length_def)

lemma reg_readyD:
  assumes "reg_ready s a pi rc"
  defines "t \<equiv> s\<lparr>current_inferior := Some a\<rparr>"
  shows "set_desired_inferior True s = (Ret (), t)" "ppc_cache t a rc" "\<exists>p. current_proc t p pi"
proof -
  from assms(1) obtain ts th p where
    ts: "wf_list (entries s) (all_threads s) ts" "chosen_thread True s ts = Some a"
      "threads s a = Some th" "regcache_data th = Some rc" "target_data th = Some p" "procs s p = Some pi"
    and rest: "length (registers rc) = 412" "reg_defs s = regs_ppc" "register_bytes s = 412"
    by (auto simp: reg_ready_def)
  show "set_desired_inferior True s = (Ret (), t)"
    using set_desired_inferior_eq [OF ts(1), of True] ts(2) by (simp add: t_def)
  show "ppc_cache t a rc"
    using ts(3,4) rest regs_wf_ppc by (auto simp: ppc_cache_def current_cache_def cache_at_def t_def)
  show "\<exists>p. current_proc t p pi" using ts(3,5,6) by (auto simp: current_proc_def t_def)
qed

lemma chosen_thread_cong:
  assumes "entries t = entries s" "general_thread t = general_thread s"
  shows "chosen_thread True t ts = chosen_thread True s ts"
  using assms by (simp add: chosen_thread_def wished_thread_def Let_def)

lemma reg_ready_set_cache:
  assumes "reg_ready s a pi rc" and "length (registers rc') = 412" and "length b = length (own_buf s)"
  shows "reg_ready ((set_cache a rc' (s\<lparr>current_inferior := i\<rparr>))\<lparr>kst := k, own_buf := b\<rparr>) a pi rc'"
    (is "reg_ready ?t a pi rc'")
proof -
  have "chosen_thread True ?t ts = chosen_thread True s ts" for ts
    by (rule chosen_thread_cong) (simp_all add: set_cache_def)
  with assms show ?thesis
    unfolding reg_ready_def by (auto simp: set_cache_def PBUFSIZ_def registers_length_def)
qed

lemma reg_ready_keep_kernel:
  assumes "reg_ready s a pi rc" and "length (registers rc') = 412" and "length b = length (own_buf s)"
  shows "reg_ready ((set_cache a rc' (s\<lparr>current_inferior := i\<rparr>))\<lparr>own_buf := b\<rparr>) a pi rc'"
proof -
  let ?u = "set_cache a rc' (s\<lparr>current_inferior := i\<rparr>)"
  have "?u\<lparr>kst := kst s\<rparr> = ?u" by (simp add: set_cache_def)
  with reg_ready_set_cache [OF assms, where i = i and k = "kst s"] show ?thesis by simp
qed

definition valid_cache :: "byte list \<Rightarrow> inferior_regcache_data" where
  "valid_cache bytes = \<lparr>registers_valid = True, registers = bytes\<rparr>"

lemma valid_cache_simps [simp]:
  "registers (valid_cache bytes) = bytes" "registers_valid (valid_cache bytes)"
  "(valid_cache bytes)\<lparr>registers := bytes'\<rparr> = valid_cache bytes'"
  "rc\<lparr>registers := bytes, registers_valid := True\<rparr> = valid_cache bytes"
  by (simp_all add: valid_cache_def)

lemma valid_cacheI: "registers_valid rc \<Longrightarrow> rc = valid_cache (registers rc)"
  by (cases rc) (simp add: valid_cache_def)

definition thread_regs ::
  "('k \<Rightarrow> nat \<Rightarrow> ppc_thread_state) \<Rightarrow> ('k \<Rightarrow> nat \<Rightarrow> ppc_float_state) \<Rightarrow> ('k, 'z) machine_scheme \<Rightarrow>
     darwin_process_info \<Rightarrow> inferior_regcache_data \<Rightarrow> byte list" where
  \<comment> \<open>the registers of a thread as the client is to see them: its cache, or the kernel's where the
    cache is not valid\<close>
  "thread_regs regs fregs s pi rc =
     (if registers_valid rc then registers rc
      else ppc_image (regs (kst s) (p_thread pi)) (fregs (kst s) (p_thread pi)))"

lemma length_ppc_image [simp]: "length (ppc_image st fs) = 412"
proof -
  have "map length (map (ppc_slot st fs) [0..<71]) = map (slot_len regs_ppc) [0..<71]"
    by (simp only: map_map) (intro map_cong, simp_all only: comp_apply set_upt atLeastLessThan_iff length_ppc_slot)
  also have "sum_list (map (slot_len regs_ppc) [0..<71]) = 412"
    by code_simp
  finally show ?thesis by (simp only: ppc_image_def length_concat)
qed

end
