(* ===== verification/Demo.thy ===== *)
theory Demo
  imports ServerFacts
begin

section \<open>A server to run the definitions on\<close>

text \<open>
  A server over the small kernel of theory \<open>FlatKernel\<close> that debugs one process with one thread and
  has just received a packet.  The witnesses of the properties of the handlers run on it.
\<close>

definition demo_regs :: ppc_thread_state where
  "demo_regs = \<lparr>srr0 = 4096, srr1 = 0, gprs = \<lambda>i. of_nat i, cr = 0, xer = 0, lr = 0, ctr = 0, mq = 0,
     vrsave = 0\<rparr>"

definition demo_fregs :: ppc_float_state where
  "demo_fregs = \<lparr>fpregs = \<lambda>_. 0, fpscr_pad = 0, fpscr = 0\<rparr>"

definition demo_kernel_state :: "wait_result list \<Rightarrow> flat" where
  "demo_kernel_state ws = \<lparr>fl_mem = \<lambda>_. 0, fl_protected = \<lambda>a. a < 8192, fl_regs = \<lambda>_. demo_regs,
     fl_fregs = \<lambda>_. demo_fregs, fl_waits = ws, fl_log = []\<rparr>"

definition demo_proc :: darwin_process_info where
  "demo_proc = \<lparr>p_pid = 100, p_task = 7, p_thread = 9, p_stopped = True, p_status = 0\<rparr>"

definition demo_net :: net where
  "demo_net = \<lparr>rc_buf = [], rx = [], tx = [], tx_script = []\<rparr>"

definition demo_server :: "inferior_regcache_data \<Rightarrow> string \<Rightarrow> flat server_state" where
  "demo_server rc pkt = \<lparr>
     kst = demo_kernel_state [WaitFailed EINTR, WaitDone (WStopped 5)],
     reg_defs = regs_ppc, register_bytes = 412, gdbserver_expedite_regs = expedite_regs_ppc,
     entries = [0 \<mapsto> \<lparr>ent_id = 100, next_ptr = None\<rparr>, 1 \<mapsto> \<lparr>ent_id = 100, next_ptr = None\<rparr>],
     threads = [1 \<mapsto> \<lparr>target_data = Some 0, regcache_data = Some rc\<rparr>],
     heap_brk = 2, all_threads = \<lparr>head = Some 1, tail = Some 1\<rparr>, current_inferior = Some 1,
     procs = [0 \<mapsto> demo_proc], all_processes = \<lparr>head = Some 0, tail = Some 0\<rparr>,
     current_task = 7, current_thread = 9, using_threads = True, debug_threads = False,
     breakpoint_data = Some (be32 ppc_breakpoint), breakpoint_len = 4, breakpoints = [], bp_brk = 0,
     cont_thread = 0, general_thread = 0, step_thread = 0, thread_from_wait = 0,
     old_thread_from_wait = 0, server_waiting = False,
     net = demo_net, own_buf = overwrite (replicate 2000 NUL) 0 (pkt @ [NUL]), no_ack_mode = False,
     no_ack_mode_pending = False, remote_debug = False, sigio_action = Sigio_ignored,
     sigio_blocked = False,
     mem_buf = replicate 2000 0, status = CHR ''T'', sig = 5, extended_protocol = False,
     signal_pid = 100, attached = False, verbosity = 0, thread_ptr = None\<rparr>"

definition demo_cache :: "bool \<Rightarrow> inferior_regcache_data" where
  "demo_cache v = \<lparr>registers_valid = v, registers = replicate 412 0\<rparr>"

lemma demo_packet [simp]: "NUL \<notin> set pkt \<Longrightarrow> cstr (own_buf (demo_server rc pkt)) 0 = pkt"
  by (simp add: demo_server_def cstr_overwrite)

lemma demo_threads: "wf_list (entries (demo_server rc pkt)) (all_threads (demo_server rc pkt)) [1]"
  by (simp add: wf_list_def demo_server_def)

lemma demo_chosen: "chosen_thread g (demo_server rc pkt) [1] = Some 1"
  by (simp add: chosen_thread_def split: option.split)
    (auto simp: wished_thread_def first_with_id_def Let_def split: if_splits)

lemma demo_reg_ready:
  assumes "length pkt < 2000" and "length (registers rc) = 412"
  shows "reg_ready (demo_server rc pkt) 1 demo_proc rc"
proof -
  have "reg_ready (demo_server rc pkt) 1 demo_proc rc \<longleftrightarrow> length (own_buf (demo_server rc pkt)) = 2000"
    unfolding reg_ready_def using demo_threads demo_chosen assms(2)
    by (auto simp: PBUFSIZ_def registers_length_def intro!: exI [of _ "[1]"])
      (simp_all add: demo_server_def)
  then show ?thesis using assms(1) by (simp add: demo_server_def)
qed

lemma length_demo_cache [simp]: "length (registers (demo_cache v)) = 412"
  by (simp add: demo_cache_def)

end
