(* ===== verification/RegProps.thy ===== *)
theory RegProps
  imports Demo
begin

section \<open>Properties of registers\<close>

text \<open>
  What the client sees of a thread's registers (\<open>thread_regs\<close>) and how the requests for registers
  and the resumption act on them, over any kernel that does what is documented of its calls for
  registers (\<open>kernel_registers\<close>).
\<close>

interpretation flat_regs: kernel_registers flat_kernel fl_regs fl_fregs
  by unfold_locales (auto simp: flat_kernel_def)

lemma thread_regs_frame [simp]:
  "thread_regs regs fregs (s\<lparr>current_inferior := i\<rparr>) pi rc = thread_regs regs fregs s pi rc"
  by (simp add: thread_regs_def)

context kernel_registers
begin

lemma current_regcache_darwin:
  assumes c: "ppc_cache s a rc" and p: "current_proc s p pi"
  shows "\<exists>k. current_regcache (Some (darwin_fetch_registers K)) s =
      (Ret a, (set_cache a (valid_cache (thread_regs regs fregs s pi rc)) s)\<lparr>kst := k\<rparr>)
    \<and> regs k = regs (kst s) \<and> fregs k = fregs (kst s)"
proof (cases "registers_valid rc")
  case True
  have "set_cache a (valid_cache (registers rc)) s = s"
    using c valid_cacheI [OF True] by (simp add: ppc_cache_def current_cache_def)
  moreover have "current_cache s a rc" using c by (simp add: ppc_cache_def)
  ultimately show ?thesis
    using True by (intro exI [of _ "kst s"]) (simp add: current_regcache_valid thread_regs_def)
next
  case False
  let ?bytes = "ppc_image (regs (kst s) (p_thread pi)) (fregs (kst s) (p_thread pi))"
  from fetched [OF c, of "p_thread pi"] obtain k where
    k: "darwin_ppc_fetch_registers K (p_thread pi) s =
        (Ret (), set_cache a (rc\<lparr>registers := ?bytes\<rparr>) (s\<lparr>kst := k\<rparr>))"
      "regs k = regs (kst s)" "fregs k = fregs (kst s)" by blast
  then have f: "darwin_fetch_registers K 0 s =
      (Ret (), set_cache a (rc\<lparr>registers := ?bytes\<rparr>) (s\<lparr>kst := k\<rparr>))"
    by (simp add: darwin_fetch_registers_def prog_simps current_process_eq [OF p])
  have "cache_at s a rc" "current_cache s a rc"
    using c regs_wf_ppc by (simp_all add: ppc_cache_def current_cache_def)
  then show ?thesis
    using current_regcache_fetch [of s a rc "darwin_fetch_registers K", OF _ False f] k(2,3) False
    by (intro exI [of _ k]) (simp add: thread_regs_def)
qed

lemma current_regcache_request:
  assumes "reg_ready s a pi rc"
  defines "bytes \<equiv> thread_regs regs fregs s pi rc"
  shows "\<exists>k. current_regcache (Some (fetch_registers (darwin_ops K))) (s\<lparr>current_inferior := Some a\<rparr>) =
      (Ret a, (set_cache a (valid_cache bytes) (s\<lparr>current_inferior := Some a\<rparr>))\<lparr>kst := k\<rparr>)
    \<and> cache_at ((set_cache a (valid_cache bytes) (s\<lparr>current_inferior := Some a\<rparr>))\<lparr>kst := k\<rparr>) a
        (valid_cache bytes)
    \<and> regs k = regs (kst s) \<and> fregs k = fregs (kst s) \<and> length bytes = 412"
proof -
  let ?s = "s\<lparr>current_inferior := Some a\<rparr>"
  note d = reg_readyD [OF assms(1)]
  obtain p where p: "current_proc ?s p pi" using d(3) by blast
  have "cache_at ?s a rc" using d(2) by (simp add: ppc_cache_def current_cache_def)
  moreover have "length bytes = 412" using assms(1) by (simp add: bytes_def thread_regs_def reg_ready_def)
  ultimately show ?thesis
    using current_regcache_darwin [OF d(2) p] by (auto simp: darwin_ops_def bytes_def)
qed

lemma g_request:
  assumes r: "reg_ready s a pi rc"
  shows "\<exists>t. handle_g_read_regs (darwin_ops K) s = (Ret (), t)
    \<and> cstr (own_buf t) 0 = hex_bytes (thread_regs regs fregs s pi rc)
    \<and> reg_ready t a pi (valid_cache (thread_regs regs fregs s pi rc)) \<and> current_inferior t = Some a"
proof -
  let ?s = "s\<lparr>current_inferior := Some a\<rparr>"
  let ?bytes = "thread_regs regs fregs s pi rc"
  from current_regcache_request [OF r] obtain k where
    k: "current_regcache (Some (fetch_registers (darwin_ops K))) ?s =
        (Ret a, (set_cache a (valid_cache ?bytes) ?s)\<lparr>kst := k\<rparr>)"
      "cache_at ((set_cache a (valid_cache ?bytes) ?s)\<lparr>kst := k\<rparr>) a (valid_cache ?bytes)"
      "length ?bytes = 412" by blast
  let ?u = "(set_cache a (valid_cache ?bytes) ?s)\<lparr>kst := k\<rparr>"
  have rb: "register_bytes s = 412" using r by (simp add: reg_ready_def)
  have ob: "length (own_buf ?u) = 2000" using reg_ready_size [OF r] by (simp add: set_cache_def)
  let ?b = "overwrite (own_buf ?u) 0 (hex_bytes ?bytes @ [NUL])"
  have "registers_to_string (Some (fetch_registers (darwin_ops K))) ?s = (Ret (hex_bytes ?bytes @ [NUL]), ?u)"
    unfolding registers_to_string_def using k(3) rb
    by (simp add: prog_simps k(1) read_cache_eq [OF k(2)] convert_int_to_ascii_eq)
  then have "handle_g_read_regs (darwin_ops K) s = (Ret (), ?u\<lparr>own_buf := ?b\<rparr>)"
    using reg_readyD(1) [OF r] k(3) ob by (simp add: handle_g_read_regs_def prog_simps)
  moreover have "reg_ready (?u\<lparr>own_buf := ?b\<rparr>) a pi (valid_cache ?bytes)"
    by (rule reg_ready_set_cache [OF r]) (use k(3) ob reg_ready_size [OF r] in simp_all)
  ultimately show ?thesis by (intro exI [of _ "?u\<lparr>own_buf := ?b\<rparr>"]) simp
qed

lemma G_request:
  assumes r: "reg_ready s a pi rc" and p: "cstr (own_buf s) 0 = ''G'' @ hex_bytes bs" and l: "length bs = 412"
  shows "\<exists>t. handle_G_write_regs (darwin_ops K) s = (Ret (), t) \<and> cstr (own_buf t) 0 = ''OK''
    \<and> reg_ready t a pi (valid_cache bs) \<and> current_inferior t = Some a"
proof -
  let ?s = "s\<lparr>current_inferior := Some a\<rparr>"
  let ?bytes = "thread_regs regs fregs s pi rc"
  from current_regcache_request [OF r] obtain k where
    k: "current_regcache (Some (fetch_registers (darwin_ops K))) ?s =
        (Ret a, (set_cache a (valid_cache ?bytes) ?s)\<lparr>kst := k\<rparr>)"
      "cache_at ((set_cache a (valid_cache ?bytes) ?s)\<lparr>kst := k\<rparr>) a (valid_cache ?bytes)"
      "length ?bytes = 412" by blast
  let ?u = "(set_cache a (valid_cache ?bytes) ?s)\<lparr>kst := k\<rparr>"
  let ?v = "(set_cache a (valid_cache bs) ?s)\<lparr>kst := k\<rparr>"
  have rb: "register_bytes s = 412" using r by (simp add: reg_ready_def)
  have ob: "length (own_buf ?v) = 2000" using reg_ready_size [OF r] by (simp add: set_cache_def)
  have conv: "convert_ascii_to_int (hex_bytes bs) 412 = (bs, Ret ())"
    using convert_ascii_to_int_hex [of bs "[]"] l by simp
  have "set_cache a rc' ?u = (set_cache a rc' ?s)\<lparr>kst := k\<rparr>" for rc' by simp
  then have "registers_from_string (Some (fetch_registers (darwin_ops K))) (hex_bytes bs) ?s = (Ret (), ?v)"
    unfolding registers_from_string_def using k(3) rb l
    by (simp add: prog_simps k(1) read_cache_eq [OF k(2)] upd_cache_eq [OF k(2)] Let_def conv store_def
        overwrite_0_full)
  then have "handle_G_write_regs (darwin_ops K) s =
      (Ret (), ?v\<lparr>own_buf := overwrite (own_buf ?v) 0 (''OK'' @ [NUL])\<rparr>)"
    using reg_readyD(1) [OF r] ob by (simp add: handle_G_write_regs_def prog_simps p)
  moreover have "reg_ready (?v\<lparr>own_buf := overwrite (own_buf ?v) 0 (''OK'' @ [NUL])\<rparr>) a pi (valid_cache bs)"
    by (rule reg_ready_set_cache [OF r]) (use l ob reg_ready_size [OF r] in simp_all)
  ultimately show ?thesis by (intro exI [of _ "?v\<lparr>own_buf := overwrite (own_buf ?v) 0 (''OK'' @ [NUL])\<rparr>"]) simp
qed

lemma hex_digits_number:
  assumes "n < 2 ^ 31" and "rest = [] \<or> hd rest = CHR ''=''"
  shows "strtol 16 (hex_digits n @ rest) = (int n, rest)"
  using assms by (intro strtol_hex) (auto simp: LONG_MAX_def no_digit_start_def digit_value_def split: list.split)

lemma p_request:
  assumes r: "reg_ready s a pi rc" and p: "cstr (own_buf s) 0 = ''p'' @ hex_digits i" and i: "i < 71"
  shows "\<exists>t. handle_p_read_reg (darwin_ops K) s = (Ret (), t)
    \<and> cstr (own_buf t) 0 = hex_bytes (slot regs_ppc i (thread_regs regs fregs s pi rc))
    \<and> reg_ready t a pi (valid_cache (thread_regs regs fregs s pi rc)) \<and> current_inferior t = Some a"
proof -
  let ?s = "s\<lparr>current_inferior := Some a\<rparr>"
  let ?bytes = "thread_regs regs fregs s pi rc"
  from current_regcache_request [OF r] obtain k where
    k: "current_regcache (Some (fetch_registers (darwin_ops K))) ?s =
        (Ret a, (set_cache a (valid_cache ?bytes) ?s)\<lparr>kst := k\<rparr>)"
      "cache_at ((set_cache a (valid_cache ?bytes) ?s)\<lparr>kst := k\<rparr>) a (valid_cache ?bytes)"
      "length ?bytes = 412" by blast
  let ?u = "(set_cache a (valid_cache ?bytes) ?s)\<lparr>kst := k\<rparr>"
  have rd: "reg_defs ?u = regs_ppc" using r by (simp add: reg_ready_def)
  have ob: "length (own_buf ?u) = 2000" using reg_ready_size [OF r] by (simp add: set_cache_def)
  have fit: "slot_ofs regs_ppc i + slot_len regs_ppc i \<le> 412" using slot_bound(1) [OF regs_wf_ppc] i by simp
  let ?text = "hex_bytes (slot regs_ppc i ?bytes) @ [NUL]"
  have "collect_register_as_string (Some (fetch_registers (darwin_ops K))) (int i) ?s = (Ret ?text, ?u)"
    unfolding collect_register_as_string_def register_data_def using k(3) rd i fit
    by (simp add: prog_simps k(1) read_cache_eq [OF k(2)] convert_int_to_ascii_eq slot_def
        slot_ofs_def [symmetric] reg_at_eq register_size_eq)
  moreover have "strtol 16 (hex_digits i) = (int i, [])"
    using hex_digits_number [of i "[]"] i by simp
  moreover have "length ?text \<le> 17" using length_slot_ppc [OF k(3) i] slot_ppc(2) [OF i] by simp
  ultimately have "handle_p_read_reg (darwin_ops K) s =
      (Ret (), ?u\<lparr>own_buf := overwrite (own_buf ?u) 0 ?text\<rparr>)"
    using reg_readyD(1) [OF r] ob
    by (simp add: handle_p_read_reg_def prog_simps p find_register_by_number_def)
  moreover have "reg_ready (?u\<lparr>own_buf := overwrite (own_buf ?u) 0 ?text\<rparr>) a pi (valid_cache ?bytes)"
    by (rule reg_ready_set_cache [OF r]) (use k(3) ob reg_ready_size [OF r] \<open>length ?text \<le> 17\<close> in simp_all)
  ultimately show ?thesis by (intro exI [of _ "?u\<lparr>own_buf := overwrite (own_buf ?u) 0 ?text\<rparr>"]) simp
qed

lemma p_outside:
  assumes r: "reg_ready s a pi rc" and p: "cstr (own_buf s) 0 = ''p'' @ hex_digits i" and i: "71 \<le> i" "i < 2 ^ 31"
  shows "\<exists>t. handle_p_read_reg (darwin_ops K) s = (Fault, t)"
proof -
  let ?s = "s\<lparr>current_inferior := Some a\<rparr>"
  let ?bytes = "thread_regs regs fregs s pi rc"
  from current_regcache_request [OF r] obtain k where
    k: "current_regcache (Some (fetch_registers (darwin_ops K))) ?s =
        (Ret a, (set_cache a (valid_cache ?bytes) ?s)\<lparr>kst := k\<rparr>)" by blast
  have "reg_defs s = regs_ppc" using r by (simp add: reg_ready_def)
  then have "collect_register_as_string (Some (fetch_registers (darwin_ops K))) (int i) ?s =
      (Fault, (set_cache a (valid_cache ?bytes) ?s)\<lparr>kst := k\<rparr>)"
    unfolding collect_register_as_string_def register_data_def using i
    by (simp add: prog_simps k reg_at_def bind_p_def)
  moreover have "strtol 16 (hex_digits i) = (int i, [])"
    using hex_digits_number [of i "[]"] i by simp
  ultimately show ?thesis
    using reg_readyD(1) [OF r]
    by (simp add: handle_p_read_reg_def prog_simps p find_register_by_number_def)
qed

lemma P_request:
  assumes r: "reg_ready s a pi rc" and p: "cstr (own_buf s) 0 = ''P'' @ hex_digits i @ ''='' @ hex_bytes v"
    and i: "i < 71" "length v = slot_len regs_ppc i"
  shows "\<exists>t. handle_P_write_reg s = (Ret (), t) \<and> cstr (own_buf t) 0 = ''OK'' \<and> kst t = kst s
    \<and> reg_ready t a pi (rc\<lparr>registers := put_slot regs_ppc i v (registers rc)\<rparr>) \<and> current_inferior t = Some a"
proof -
  let ?s = "s\<lparr>current_inferior := Some a\<rparr>"
  let ?rc = "rc\<lparr>registers := put_slot regs_ppc i v (registers rc)\<rparr>"
  note d = reg_readyD [OF r]
  have c: "current_cache ?s a rc" using d(2) by (simp add: ppc_cache_def)
  have rd: "reg_defs ?s = regs_ppc" using r by (simp add: reg_ready_def)
  have "supply_register (int i) v ?s = (Ret (), set_cache a ?rc ?s)"
    using supply_register_eq [OF c, of i v] rd i by (simp add: put_slot_def)
  moreover have "strtol 16 (hex_digits i @ ''='' @ hex_bytes v) = (int i, ''='' @ hex_bytes v)"
    using hex_digits_number [of i "''='' @ hex_bytes v"] i by simp
  moreover have "convert_ascii_to_int (hex_bytes v) (slot_len regs_ppc i) = (v, Ret ())"
    using convert_ascii_to_int_hex [of v "[]"] i by simp
  moreover have "slot_len regs_ppc i \<le> 16" using slot_ppc [OF i(1)] by simp
  moreover have ob: "length (own_buf (set_cache a ?rc ?s)) = 2000"
    using reg_ready_size [OF r] by (simp add: set_cache_def)
  ultimately have "handle_P_write_reg s = (Ret (), (set_cache a ?rc ?s)
      \<lparr>own_buf := overwrite (own_buf (set_cache a ?rc ?s)) 0 (''OK'' @ [NUL])\<rparr>)"
    using d(1) i rd
    by (simp add: handle_P_write_reg_def prog_simps p find_register_by_number_def register_size_eq)
  moreover have "length (registers ?rc) = 412"
    using r i put_slot(1) [of regs_ppc "registers rc" i v] regs_wf_ppc by (simp add: reg_ready_def)
  from reg_ready_keep_kernel [OF r this, where i = "Some a"
      and b = "overwrite (own_buf (set_cache a ?rc ?s)) 0 (''OK'' @ [NUL])"] ob reg_ready_size [OF r]
  have "reg_ready ((set_cache a ?rc ?s)\<lparr>own_buf := overwrite (own_buf (set_cache a ?rc ?s)) 0 (''OK'' @ [NUL])\<rparr>)
      a pi ?rc" by simp
  ultimately show ?thesis
    by (intro exI [of _ "(set_cache a ?rc ?s)\<lparr>own_buf :=
      overwrite (own_buf (set_cache a ?rc ?s)) 0 (''OK'' @ [NUL])\<rparr>"]) simp
qed

end

subsection \<open>The properties\<close>

text \<open>
  C25: \<open>set_register_cache\<close> lays out the buffer so that every register has bytes of its own: the
  offsets are whole bytes, no two registers overlap, all of them lie inside the computed size of
  the buffer, and names and sizes are those of the given table.
\<close>

theorem register_layout:
  assumes "byte_sized regs"
  shows "\<exists>rs bytes. set_register_cache regs s = (Ret (), s\<lparr>reg_defs := rs, register_bytes := bytes\<rparr>)
    \<and> regs_wf rs bytes \<and> map reg_name rs = map reg_name regs \<and> map reg_size rs = map reg_size regs"
  by (rule set_register_cache_wf [OF assms])

theorem register_layout_witness:
  "\<exists>rs bytes. set_register_cache regs_ppc (demo_server (demo_cache True) []) =
     (Ret (), (demo_server (demo_cache True) [])\<lparr>reg_defs := rs, register_bytes := bytes\<rparr>)
     \<and> regs_wf rs bytes"
  using register_layout [OF regs_ppc_byte_sized, of "demo_server (demo_cache True) []"] by blast

text \<open>
  A \<^verbatim>\<open>g\<close> packet is answered with the hexadecimal text of all registers of the selected thread,
  taken from the cache, or from the kernel when the cache is not valid, and the cache is valid
  afterwards with the same registers.
\<close>

theorem g_shows_registers:
  assumes "kernel_registers K regs fregs" and "reg_ready s a pi rc"
  shows "\<exists>t. handle_g_read_regs (darwin_ops K) s = (Ret (), t)
    \<and> cstr (own_buf t) 0 = hex_bytes (thread_regs regs fregs s pi rc)
    \<and> reg_ready t a pi (valid_cache (thread_regs regs fregs s pi rc))"
  using kernel_registers.g_request [OF assms] by blast

theorem g_shows_registers_witness:
  "\<exists>t. handle_g_read_regs (darwin_ops flat_kernel) (demo_server (demo_cache False) ''g'') = (Ret (), t)
    \<and> cstr (own_buf t) 0 = hex_bytes (ppc_image demo_regs demo_fregs)"
proof -
  have "thread_regs fl_regs fl_fregs (demo_server (demo_cache False) ''g'') demo_proc (demo_cache False)
      = ppc_image demo_regs demo_fregs"
    by (simp add: thread_regs_def demo_server_def demo_kernel_state_def demo_cache_def)
  with g_shows_registers [OF flat_regs.kernel_registers_axioms
      demo_reg_ready [OF _ length_demo_cache, of "''g''" False]]
  show ?thesis by auto
qed

text \<open>
  C11: The registers that a \<^verbatim>\<open>G\<close> packet brings are what the next \<^verbatim>\<open>g\<close> packet shows, byte for byte,
  whether the cache was valid before or not.
\<close>

theorem G_then_g:
  assumes "kernel_registers K regs fregs" and "reg_ready s a pi rc"
    and "cstr (own_buf s) 0 = ''G'' @ hex_bytes bs" and "length bs = 412"
  shows "\<exists>t u. handle_G_write_regs (darwin_ops K) s = (Ret (), t) \<and> cstr (own_buf t) 0 = ''OK''
    \<and> handle_g_read_regs (darwin_ops K) t = (Ret (), u) \<and> cstr (own_buf u) 0 = hex_bytes bs"
proof -
  from kernel_registers.G_request [OF assms] obtain t where
    t: "handle_G_write_regs (darwin_ops K) s = (Ret (), t)" "cstr (own_buf t) 0 = ''OK''"
      "reg_ready t a pi (valid_cache bs)" by blast
  have "thread_regs regs fregs t pi (valid_cache bs) = bs" by (simp add: thread_regs_def)
  with kernel_registers.g_request [OF assms(1) t(3)] t(1,2) show ?thesis by auto
qed

theorem G_then_g_witness:
  "\<exists>t u. handle_G_write_regs (darwin_ops flat_kernel)
      (demo_server (demo_cache False) (''G'' @ hex_bytes (replicate 412 7))) = (Ret (), t)
    \<and> handle_g_read_regs (darwin_ops flat_kernel) t = (Ret (), u)
    \<and> cstr (own_buf u) 0 = hex_bytes (replicate 412 7)"
proof -
  let ?s = "demo_server (demo_cache False) (''G'' @ hex_bytes (replicate 412 7))"
  have "reg_ready ?s 1 demo_proc (demo_cache False)" by (rule demo_reg_ready) simp_all
  moreover have "cstr (own_buf ?s) 0 = ''G'' @ hex_bytes (replicate 412 7)"
    by (rule demo_packet) (simp add: NUL_notin_hex_bytes NUL_def [symmetric]; simp add: NUL_def)
  ultimately show ?thesis
    using G_then_g [OF flat_regs.kernel_registers_axioms, of ?s 1 demo_proc "demo_cache False" "replicate 412 7"]
    by auto
qed

text \<open>
  A \<^verbatim>\<open>p\<close> packet with the number of one of the 71 registers is answered with the text of exactly
  this register's bytes, and the registers stay as they were.
\<close>

theorem p_shows_register:
  assumes "kernel_registers K regs fregs" and "reg_ready s a pi rc"
    and "cstr (own_buf s) 0 = ''p'' @ hex_digits i" and "i < 71"
  shows "\<exists>t. handle_p_read_reg (darwin_ops K) s = (Ret (), t)
    \<and> cstr (own_buf t) 0 = hex_bytes (slot regs_ppc i (thread_regs regs fregs s pi rc))
    \<and> reg_ready t a pi (valid_cache (thread_regs regs fregs s pi rc))"
  using kernel_registers.p_request [OF assms] by blast

lemma demo_p_packet:
  "cstr (own_buf (demo_server rc (''p'' @ hex_digits i))) 0 = ''p'' @ hex_digits i"
proof (rule demo_packet)
  have "NUL \<notin> set (hex_digits i)" using hex_digits_set hex_digit_not_special(6) by metis
  then show "NUL \<notin> set (''p'' @ hex_digits i)" by (simp add: NUL_def)
qed

theorem p_shows_register_witness:
  "\<exists>t. handle_p_read_reg (darwin_ops flat_kernel) (demo_server (demo_cache False) (''p'' @ hex_digits 64))
    = (Ret (), t)
    \<and> cstr (own_buf t) 0 = hex_bytes (slot regs_ppc 64 (thread_regs fl_regs fl_fregs
        (demo_server (demo_cache False) (''p'' @ hex_digits 64)) demo_proc (demo_cache False)))"
proof -
  have "length (''p'' @ hex_digits 64) < 2000" using length_hex_digits [of 64 2] by simp
  from p_shows_register [OF flat_regs.kernel_registers_axioms
      demo_reg_ready [OF this length_demo_cache] demo_p_packet]
  show ?thesis by auto
qed

text \<open>
  C34: \<open>find_register_by_number\<close> gives an address for every number, so the check in the handler of
  the \<^verbatim>\<open>p\<close> packet never fails for a number that is too large: such a request reads outside the table
  of registers.
\<close>

theorem p_reads_outside_table:
  assumes "kernel_registers K regs fregs" and "reg_ready s a pi rc"
    and "cstr (own_buf s) 0 = ''p'' @ hex_digits i" and "71 \<le> i" and "i < 2 ^ 31"
  shows "\<exists>t. handle_p_read_reg (darwin_ops K) s = (Fault, t)"
  by (rule kernel_registers.p_outside [OF assms])

theorem p_reads_outside_table_witness:
  "\<exists>t. handle_p_read_reg (darwin_ops flat_kernel) (demo_server (demo_cache False) (''p'' @ hex_digits 71))
    = (Fault, t)"
proof -
  have "length (''p'' @ hex_digits 71) < 2000" using length_hex_digits [of 71 2] by simp
  from p_reads_outside_table [OF flat_regs.kernel_registers_axioms
      demo_reg_ready [OF this length_demo_cache] demo_p_packet]
  show ?thesis by auto
qed

text \<open>
  C36: A \<^verbatim>\<open>P\<close> packet is answered with OK and writes one register into the cache, the others stay.
  But the handler does not fetch the registers first: when the cache is not valid, as at the start of
  a session until a stop reply or a \<^verbatim>\<open>g\<close> packet has filled it, the next \<^verbatim>\<open>g\<close> packet fetches all of them from the kernel and the client's value is lost.
\<close>

theorem P_then_g:
  assumes "kernel_registers K regs fregs" and "reg_ready s a pi rc"
    and "cstr (own_buf s) 0 = ''P'' @ hex_digits i @ ''='' @ hex_bytes v" and "i < 71"
    and "length v = slot_len regs_ppc i"
  shows "\<exists>t u. handle_P_write_reg s = (Ret (), t) \<and> cstr (own_buf t) 0 = ''OK''
    \<and> handle_g_read_regs (darwin_ops K) t = (Ret (), u)
    \<and> cstr (own_buf u) 0 = hex_bytes
        (if registers_valid rc then put_slot regs_ppc i v (thread_regs regs fregs s pi rc)
         else thread_regs regs fregs s pi rc)"
proof -
  from kernel_registers.P_request [OF assms] obtain t where
    t: "handle_P_write_reg s = (Ret (), t)" "cstr (own_buf t) 0 = ''OK''" "kst t = kst s"
      "reg_ready t a pi (rc\<lparr>registers := put_slot regs_ppc i v (registers rc)\<rparr>)" by blast
  then have "thread_regs regs fregs t pi (rc\<lparr>registers := put_slot regs_ppc i v (registers rc)\<rparr>) =
      (if registers_valid rc then put_slot regs_ppc i v (thread_regs regs fregs s pi rc)
       else thread_regs regs fregs s pi rc)"
    by (simp add: thread_regs_def)
  with kernel_registers.g_request [OF assms(1) t(4)] t(1,2) show ?thesis by auto
qed

theorem P_then_g_witness:
  "\<exists>t u. handle_P_write_reg (demo_server (demo_cache False) (''P'' @ hex_digits 1 @ ''='' @ hex_bytes [1, 2, 3, 4]))
      = (Ret (), t) \<and> cstr (own_buf t) 0 = ''OK''
    \<and> handle_g_read_regs (darwin_ops flat_kernel) t = (Ret (), u)
    \<and> cstr (own_buf u) 0 = hex_bytes (ppc_image demo_regs demo_fregs)"
proof -
  let ?p = "''P'' @ hex_digits 1 @ ''='' @ hex_bytes [1, 2, 3, 4]"
  let ?s = "demo_server (demo_cache False) ?p"
  have "length ?p < 2000" using length_hex_digits [of 1 1] by (simp del: hex_bytes_simps)
  then have r: "reg_ready ?s 1 demo_proc (demo_cache False)" by (rule demo_reg_ready) simp
  have "NUL \<notin> set (hex_digits 1)" using hex_digits_set hex_digit_not_special(6) by metis
  then have p: "cstr (own_buf ?s) 0 = ?p"
    using NUL_notin_hex_bytes [of "[1, 2, 3, 4]"]
    by (intro demo_packet) (simp add: NUL_def del: hex_bytes_simps)
  have "thread_regs fl_regs fl_fregs ?s demo_proc (demo_cache False) = ppc_image demo_regs demo_fregs"
    by (simp add: thread_regs_def demo_server_def demo_kernel_state_def demo_cache_def)
  with P_then_g [OF flat_regs.kernel_registers_axioms r p] show ?thesis
    by (simp add: slot_ppc demo_cache_def)
qed

end
