(* ===== verification/Observers.thy ===== *)
theory Observers
  imports ServerFacts
begin

section \<open>What the handlers leave alone\<close>

text \<open>
  An observation \<open>f\<close> of the state that no step of a handler changes is the same before and after the handler,
  whatever its outcome.  The locales say which steps the handlers for memory and for registers are made
  of: changes of the buffers, of the breakpoints or the threads, and certain calls of the kernel.  They
  are interpreted where such an observation is needed: for the connection, for the registers beside a
  request for memory, and for the memory beside a request for registers.
\<close>

subsection \<open>Rules\<close>

lemma preserves_Let [preserves_intros]: "(\<And>a. preserves f (g a)) \<Longrightarrow> preserves f (let a = x in g a)"
  by simp

lemma preserves_list [preserves_intros]:
  "preserves f m \<Longrightarrow> (\<And>a as. preserves f (g a as)) \<Longrightarrow> preserves f (case x of [] \<Rightarrow> m | a # as \<Rightarrow> g a as)"
  by (cases x) auto

lemma preserves_find_regno [preserves_intros]: "preserves f (find_regno nm)"
  by (simp add: preserves_def find_regno_def split: option.split)

lemma preserves_reg_at [preserves_intros]: "preserves f (reg_at n)"
  by (simp add: preserves_def reg_at_def)

lemma preserves_outcome_case [preserves_intros]:
  "(\<And>a. preserves f (g a)) \<Longrightarrow> (\<And>a. preserves f (g1 a)) \<Longrightarrow> (\<And>a. preserves f (g2 a)) \<Longrightarrow> preserves f m \<Longrightarrow>
     preserves f m' \<Longrightarrow>
     preserves f (case r of Ret a \<Rightarrow> g a | Err a \<Rightarrow> g1 a | Quit a \<Rightarrow> g2 a | Fault \<Rightarrow> m | Hang \<Rightarrow> m')"
  by (cases r) auto

lemma preserves_checks [preserves_intros]: "preserves f (check_mem_read a buf)" "preserves f packet"
  by (simp_all add: check_mem_read_def packet_def preserves_intros)

lemma for_each_loop_preserves:
  assumes "for_each_loop action cur s = Some r" and "\<And>p. preserves f (action p)"
  shows "f (snd r) = f s"
proof -
  let ?P = "\<lambda>action cur s r. (\<forall>p. preserves f (action p)) \<longrightarrow> f (snd r) = f s"
  have "?P action cur s r"
  proof (rule for_each_loop.raw_induct [of ?P, OF _ assms(1)])
    fix loop action cur s r
    assume IH: "\<And>action cur s r. loop action cur s = Some r \<Longrightarrow> ?P action cur s r"
      and r: "(case cur of None \<Rightarrow> Some (Ret (), s)
        | Some p \<Rightarrow> case entries s p of None \<Rightarrow> Some (Fault, s)
          | Some e \<Rightarrow> case action p s of
              (Ret u, s') \<Rightarrow> loop action (next_ptr e) s' | (Err l, s') \<Rightarrow> Some (Err l, s')
            | (Quit n, s') \<Rightarrow> Some (Quit n, s') | (Fault, s') \<Rightarrow> Some (Fault, s')
            | (Hang, s') \<Rightarrow> Some (Hang, s')) = Some r"
    show "?P action cur s r"
    proof
      assume al: "\<forall>p. preserves f (action p)"
      then have "\<And>p q t. action p s = (q, t) \<Longrightarrow> f t = f s" by (blast dest: preservesD)
      with r IH al show "f (snd r) = f s"
        by (auto split: option.splits prod.splits outcome.splits)
    qed
  qed
  with assms(2) show ?thesis by blast
qed

lemma preserves_for_each [preserves_intros]:
  "(\<And>p. preserves f (action p)) \<Longrightarrow> preserves f (for_each_inferior l action)"
  using for_each_loop_preserves [of action "head l" _ _ f]
  by (auto simp: preserves_def for_each_inferior_def split: option.split)

lemmas regs_code_defs =
  darwin_store_registers_def darwin_fetch_registers_def darwin_ppc_store_registers_def
  darwin_ppc_fetch_registers_def current_process_def get_thread_process_def inferior_target_data_def
  collect_register_by_name_def supply_register_by_name_def collect_register_def supply_register_def
  register_data_def current_regcache_def get_regcache_def read_cache_def upd_cache_def
  register_size_def deref_thread_def

lemma preserves_collect_regs:
  "(\<And>i. preserves f (collect_register_by_name fetch (name i))) \<Longrightarrow>
     preserves f (collect_regs fetch name conv xs g)"
  by (induction xs arbitrary: g) (auto intro: preserves_intros)

lemma preserves_supply:
  assumes "\<And>s t. f (s\<lparr>threads := t\<rparr>) = f s"
  shows "preserves f (supply_register_by_name nm v)"
  unfolding regs_code_defs option.case by (intro preserves_intros | simp add: assms)+

lemma preserves_fetch:
  assumes "\<And>s t. f (s\<lparr>threads := t\<rparr>) = f s"
    and "\<And>th. preserves f (kcall (k_get_state K th))" and "\<And>th. preserves f (kcall (k_get_float K th))"
  shows "preserves f (darwin_fetch_registers K r)"
  unfolding darwin_fetch_registers_def darwin_ppc_fetch_registers_def current_process_def
    get_thread_process_def inferior_target_data_def deref_thread_def
  by (rule assms(2,3) | rule preserves_intros | rule preserves_supply | simp add: assms(1))+

lemma preserves_collect:
  assumes "\<And>s t. f (s\<lparr>threads := t\<rparr>) = f s" and "\<And>r. preserves f (fetch r)"
  shows "preserves f (collect_register_by_name (Some fetch) nm)"
  unfolding regs_code_defs option.case by (intro preserves_intros assms | simp add: assms)+

lemma preserves_store_calls:
  assumes "\<And>s t. f (s\<lparr>threads := t\<rparr>) = f s"
    and "\<And>th. preserves f (kcall (k_get_state K th))" and "\<And>th. preserves f (kcall (k_get_float K th))"
    and "\<And>th st. preserves f (kcall (k_set_state K th st))" and "\<And>th fs. preserves f (kcall (k_set_float K th fs))"
  shows "preserves f (darwin_store_registers K r)"
  unfolding darwin_store_registers_def darwin_ppc_store_registers_def current_process_def
    get_thread_process_def inferior_target_data_def deref_thread_def
  by (rule assms(2-5) preserves_collect_regs preserves_collect preserves_fetch
    | rule preserves_intros | simp add: assms(1))+

lemma preserves_store:
  assumes "\<And>s t. f (s\<lparr>threads := t\<rparr>) = f s" and "\<And>s k. f (s\<lparr>kst := k\<rparr>) = f s"
  shows "preserves f (darwin_store_registers K r)"
  using assms by (intro preserves_store_calls preserves_kcall)

lemma preserves_invalidate_one:
  assumes "\<And>s t. f (s\<lparr>threads := t\<rparr>) = f s" and "\<And>s k. f (s\<lparr>kst := k\<rparr>) = f s"
    and "\<And>s i. f (s\<lparr>current_inferior := i\<rparr>) = f s"
  shows "preserves f (regcache_invalidate_one (darwin_store_registers K) a)"
  unfolding regcache_invalidate_one_def read_cache_def upd_cache_def deref_thread_def
  by (intro preserves_intros preserves_store | simp add: assms)+

subsection \<open>Replies\<close>

locale reply_observer =
  fixes f :: "('k, 'z) server_state_scheme \<Rightarrow> 'x"
  assumes own_buf_unseen: "length b = length (own_buf s) \<Longrightarrow> f (s\<lparr>own_buf := b\<rparr>) = f s"
begin

lemma put_str [preserves_intros]: "preserves f (put_str off str)"
  by (auto simp: preserves_def put_str_def bind_p_def store_def own_buf_unseen prog_simps)

lemma replies [preserves_intros]:
  "preserves f (reply str)" "preserves f write_ok" "preserves f write_enn" "preserves f empty_reply"
  unfolding reply_def write_ok_def write_enn_def empty_reply_def by (rule put_str)+

end

subsection \<open>Memory and breakpoints\<close>

locale memory_observer = reply_observer f for f :: "('k, 'z) server_state_scheme \<Rightarrow> 'x" +
  fixes K :: "'k kernel"
  assumes mem_buf_unseen: "length m = length (mem_buf s) \<Longrightarrow> f (s\<lparr>mem_buf := m\<rparr>) = f s"
    and breakpoints_unseen: "f (s\<lparr>breakpoints := bps\<rparr>) = f s" "f (s\<lparr>bp_brk := brk\<rparr>) = f s"
    and memory_calls_unseen: "preserves f (kcall (k_vm_read K task a n))"
      "preserves f (kcall (k_vm_write K task a bs))" "preserves f (kcall (k_vm_protect K task a n))"
      "preserves f (kcall (k_ptrace K PT_READ_D pid w d))" "preserves f (kcall (k_ptrace K PT_WRITE_D pid w d))"
begin

lemma set_mem_buf [preserves_intros]: "preserves f (set_mem_buf bs)"
  by (auto simp: preserves_def set_mem_buf_def bind_p_def store_def mem_buf_unseen prog_simps)

lemma ptrace: "preserves f (ptrace_read K pid a n)" "preserves f (ptrace_write K pid a bs)"
proof -
  show "preserves f (ptrace_read K pid a n)"
  proof (induction n arbitrary: a rule: less_induct)
    case (less n)
    then show ?case by (subst ptrace_read.simps) (rule memory_calls_unseen preserves_intros | simp)+
  qed
  show "preserves f (ptrace_write K pid a bs)"
  proof (induction bs arbitrary: a rule: measure_induct_rule [where f = length])
    case (less bs)
    then show ?case by (subst ptrace_write.simps) (rule memory_calls_unseen preserves_intros | simp)+
  qed
qed

lemma darwin_memory:
  "preserves f (darwin_read_memory K a n)" "preserves f (darwin_write_memory K a bs)"
  unfolding darwin_read_memory_def darwin_write_memory_def current_process_def get_thread_process_def
    inferior_target_data_def deref_thread_def
  by (rule memory_calls_unseen preserves_intros ptrace | simp)+

lemma breakpoint_code:
  "preserves f (write_trap (darwin_ops K) a)" "preserves f (write_old (darwin_ops K) b)"
  "preserves f (check_mem_write a bs)"
  unfolding write_trap_def write_old_def check_mem_write_def
  by (rule memory_calls_unseen preserves_intros darwin_memory | simp add: breakpoints_unseen)+

lemma breakpoints [preserves_intros]:
  "preserves f (set_breakpoint_at (darwin_ops K) a h)" "preserves f (delete_breakpoint_at (darwin_ops K) a)"
  unfolding set_breakpoint_at_def delete_breakpoint_at_def delete_breakpoint_def
  by (rule memory_calls_unseen preserves_intros darwin_memory breakpoint_code | simp add: breakpoints_unseen)+

lemma inferior_memory [preserves_intros]:
  "preserves f (read_inferior_memory (darwin_ops K) a n)" "preserves f (write_inferior_memory (darwin_ops K) a bs)"
  unfolding read_inferior_memory_def write_inferior_memory_def
  by (rule memory_calls_unseen preserves_intros darwin_memory breakpoint_code | simp)+

lemma handlers:
  "preserves f (handle_m_read_mem (darwin_ops K))" "preserves f (handle_M_write_mem (darwin_ops K))"
  "preserves f (handle_Z_insert_bp (darwin_ops K))" "preserves f (handle_z_remove_bp (darwin_ops K))"
  unfolding handle_m_read_mem_def handle_M_write_mem_def handle_Z_insert_bp_def handle_z_remove_bp_def
  by (rule memory_calls_unseen preserves_intros | simp)+

end

subsection \<open>Registers\<close>

locale register_observer = reply_observer f for f :: "('k, 'z) server_state_scheme \<Rightarrow> 'x" +
  fixes K :: "'k kernel"
  assumes threads_unseen: "f (s\<lparr>threads := ths\<rparr>) = f s" "f (s\<lparr>current_inferior := i\<rparr>) = f s"
    and register_calls_unseen: "preserves f (kcall (k_get_state K th))" "preserves f (kcall (k_get_float K th))"
begin

lemma fetch: "preserves f (darwin_fetch_registers K r)"
  by (rule preserves_fetch) (rule threads_unseen register_calls_unseen)+

lemma cache [preserves_intros]: "preserves f (read_cache a)" "preserves f (upd_cache a g)"
  unfolding read_cache_def upd_cache_def deref_thread_def
  by (intro preserves_intros | simp add: threads_unseen)+

lemma current_cache [preserves_intros]:
  "preserves f (current_regcache (Some (darwin_fetch_registers K)))" "preserves f (current_regcache None)"
  unfolding current_regcache_def get_regcache_def deref_thread_def option.case
  by (intro preserves_intros fetch | simp add: threads_unseen)+

lemma set_desired [preserves_intros]: "preserves f (set_desired_inferior g)"
  unfolding set_desired_inferior_def by (intro preserves_intros | simp add: threads_unseen)+

lemma requests [preserves_intros]:
  "preserves f (registers_to_string (Some (darwin_fetch_registers K)))"
  "preserves f (registers_from_string (Some (darwin_fetch_registers K)) str)"
  "preserves f (collect_register_as_string (Some (darwin_fetch_registers K)) n)"
  "preserves f (supply_register n bs)" "preserves f (register_size n)"
  unfolding registers_to_string_def registers_from_string_def collect_register_as_string_def
    supply_register_def register_data_def register_size_def
  by (intro preserves_intros | simp)+

lemma handlers:
  "preserves f (handle_g_read_regs (darwin_ops K))" "preserves f (handle_G_write_regs (darwin_ops K))"
  "preserves f (handle_p_read_reg (darwin_ops K))" "preserves f handle_P_write_reg"
  unfolding handle_g_read_regs_def handle_G_write_regs_def handle_p_read_reg_def handle_P_write_reg_def
  by (intro preserves_intros | simp add: darwin_ops_def)+

end

subsection \<open>Stop replies\<close>

locale stop_observer = register_observer f K
  for f :: "('k, 'z) server_state_scheme \<Rightarrow> 'x" and K :: "'k kernel" +
  assumes wait_threads_unseen: "f (s\<lparr>thread_from_wait := n\<rparr>) = f s" "f (s\<lparr>general_thread := n\<rparr>) = f s"
    "f (s\<lparr>old_thread_from_wait := n\<rparr>) = f s"
begin

lemma current_thread_id [preserves_intros]: "preserves f current_thread_id"
  unfolding current_thread_id_def by (intro preserves_intros)

lemma outreg [preserves_intros]: "preserves f (outreg (darwin_ops K) n pos)"
  unfolding outreg_def by (intro preserves_intros | simp add: darwin_ops_def)+

lemma outregs [preserves_intros]: "preserves f (outregs (darwin_ops K) rs pos)"
  by (induction rs arbitrary: pos) (simp_all add: preserves_intros)

lemma thread_part [preserves_intros]: "preserves f (thread_part pos)"
  unfolding thread_part_def by (intro preserves_intros | simp add: wait_threads_unseen)+

lemma resume_reply [preserves_intros]: "preserves f (prepare_resume_reply H (darwin_ops K) st sg)"
  unfolding prepare_resume_reply_def by (intro preserves_intros | simp)+

end

end
