(* ===== verification/ResumeProps.thy ===== *)
theory ResumeProps
  imports RegProps Observers
begin

section \<open>Properties of resuming, waiting and stop replies\<close>

text \<open>
  What happens between a request to continue or step and its stop reply: the client's registers go
  to the kernel, the process is resumed, \<^verbatim>\<open>waitpid\<close> is repeated while it is interrupted, and the
  reply is printed with the signal, the two expedited registers and the thread.
\<close>

subsection \<open>Resuming\<close>

definition resume_ready ::
  "('k, 'z) darwin_state_scheme \<Rightarrow> nat \<Rightarrow> nat \<Rightarrow> darwin_process_info \<Rightarrow> inferior_regcache_data \<Rightarrow> bool"
where
  \<comment> \<open>the process has one thread, which is selected, as \<^verbatim>\<open>add_thread\<close> leaves it\<close>
  "resume_ready s a p pi rc \<longleftrightarrow>
     wf_list (entries s) (all_threads s) [a] \<and> ppc_cache s a rc \<and> current_proc s p pi"

lemma same_inferior: "current_inferior s = i \<Longrightarrow> (s :: ('k, 'z) darwin_state_scheme)\<lparr>current_inferior := i\<rparr> = s"
  by (cases s) simp

lemma set_cache_inferior [simp]:
  "(set_cache a rc s)\<lparr>current_inferior := i\<rparr> = set_cache a rc (s\<lparr>current_inferior := i\<rparr>)"
  by (simp add: set_cache_def)

lemma upd_proc_eq: "procs s p = Some pi \<Longrightarrow> upd_proc p f s = (Ret (), s\<lparr>procs := (procs s)(p \<mapsto> f pi)\<rparr>)"
  by (simp add: upd_proc_def bind_p_def deref_p_def)

lemma set_cache_procs [simp]: "procs (set_cache a rc s) = procs s" "current_task (set_cache a rc s) = current_task s"
  by (simp_all add: set_cache_def)

context kernel_registers
begin

lemma invalidated:
  assumes "resume_ready s a p pi rc"
  shows "\<exists>k. regcache_invalidate (darwin_store_registers K) s =
      (Ret (), (set_cache a (rc\<lparr>registers_valid := False\<rparr>) s)\<lparr>kst := k\<rparr>)
    \<and> ppc_image (regs k (p_thread pi)) (fregs k (p_thread pi)) = thread_regs regs fregs s pi rc
    \<and> (\<forall>th. th \<noteq> p_thread pi \<longrightarrow> regs k th = regs (kst s) th \<and> fregs k th = fregs (kst s) th)"
proof -
  from assms have wf: "wf_list (entries s) (all_threads s) [a]" and c: "ppc_cache s a rc"
    and pr: "current_proc s p pi" by (simp_all add: resume_ready_def)
  have ca: "cache_at s a rc" and ci: "current_inferior s = Some a" and l: "length (registers rc) = 412"
    using c by (simp_all add: ppc_cache_def current_cache_def)
  let ?one = "regcache_invalidate_one (darwin_store_registers K)"
  have loop: "for_each_inferior (all_threads s) ?one s = for_p ?one [a] s"
  proof (rule for_each_inferior_eq [OF wf])
    fix x q ys t t'
    assume "?one x t = (Ret (), t')" "linked (entries t) q ys"
    moreover have "preserves entries (?one x)" by (rule preserves_invalidate_one) simp_all
    ultimately show "linked (entries t') q ys" by (metis preservesD)
  qed
  obtain k where k: "(if registers_valid rc then darwin_store_registers K (- 1) s else (Ret (), s))
        = (Ret (), s\<lparr>kst := k\<rparr>)"
      "ppc_image (regs k (p_thread pi)) (fregs k (p_thread pi)) = thread_regs regs fregs s pi rc"
      "\<forall>th. th \<noteq> p_thread pi \<longrightarrow> regs k th = regs (kst s) th \<and> fregs k th = fregs (kst s) th"
  proof (cases "registers_valid rc")
    case True
    from stored [OF c True, of "darwin_fetch_registers K" "p_thread pi"] obtain k where
      st: "darwin_ppc_store_registers K (darwin_fetch_registers K) (p_thread pi) s = (Ret (), s\<lparr>kst := k\<rparr>)"
        "regs k = (regs (kst s))(p_thread pi := state_of_image (registers rc) (regs (kst s) (p_thread pi)))"
        "fregs k = (fregs (kst s))(p_thread pi := float_of_image (registers rc) (fregs (kst s) (p_thread pi)))"
      by blast
    then have "darwin_store_registers K (- 1) s = (Ret (), s\<lparr>kst := k\<rparr>)"
      by (simp add: darwin_store_registers_def prog_simps current_process_eq [OF pr])
    with True st(2,3) that [of k] show ?thesis by (simp add: image_of_stored [OF l] thread_regs_def)
  next
    case False
    have "s = s\<lparr>kst := kst s\<rparr>" by simp
    with False that [of "kst s"] show ?thesis by (simp add: thread_regs_def)
  qed
  let ?rc = "rc\<lparr>registers_valid := False\<rparr>"
  have "?one a s = (Ret (), (set_cache a ?rc s)\<lparr>kst := k\<rparr>)"
  proof (cases "registers_valid rc")
    case True
    have m: "(s\<lparr>kst := k\<rparr>)\<lparr>current_inferior := Some a\<rparr> = s\<lparr>kst := k\<rparr>"
      by (rule same_inferior) (simp add: ci)
    show ?thesis
      using True k(1) ci ca
      by (simp add: regcache_invalidate_one_def prog_simps read_cache_eq [OF ca] upd_cache_eq
          same_inferior [OF ci] m)
  next
    case False
    then have "s\<lparr>kst := k\<rparr> = s" using k(1) by simp
    then have "(set_cache a ?rc s)\<lparr>kst := k\<rparr> = set_cache a ?rc s" by (metis set_cache_kst)
    with False show ?thesis
      by (simp add: regcache_invalidate_one_def prog_simps read_cache_eq [OF ca] upd_cache_eq [OF ca])
  qed
  then have "regcache_invalidate (darwin_store_registers K) s = (Ret (), (set_cache a ?rc s)\<lparr>kst := k\<rparr>)"
    by (simp add: regcache_invalidate_def loop prog_simps)
  with k(2,3) show ?thesis by blast
qed

lemma resumed:
  assumes r: "resume_ready s a p pi rc" and sel: "select_resume (p_pid pi) info = Ret (step, sg)"
  shows "\<exists>k1 ret k2. regcache_invalidate (darwin_store_registers K) s =
        (Ret (), (set_cache a (rc\<lparr>registers_valid := False\<rparr>) s)\<lparr>kst := k1\<rparr>)
    \<and> ppc_image (regs k1 (p_thread pi)) (fregs k1 (p_thread pi)) = thread_regs regs fregs s pi rc
    \<and> k_ptrace K (if step then PT_STEP else PT_CONTINUE) (p_pid pi) 1 (word_of_int sg) k1 = (ret, k2)
    \<and> darwin_resume K info s = (Ret (), (set_cache a (rc\<lparr>registers_valid := False\<rparr>) s)
        \<lparr>kst := k2, procs := (procs s)(p \<mapsto> pi\<lparr>p_stopped := False\<rparr>)\<rparr>)"
proof -
  have pr: "current_proc s p pi" and pp: "procs s p = Some pi"
    using r by (auto simp: resume_ready_def current_proc_def)
  from invalidated [OF r] obtain k1 where
    k1: "regcache_invalidate (darwin_store_registers K) s =
        (Ret (), (set_cache a (rc\<lparr>registers_valid := False\<rparr>) s)\<lparr>kst := k1\<rparr>)"
      "ppc_image (regs k1 (p_thread pi)) (fregs k1 (p_thread pi)) = thread_regs regs fregs s pi rc" by blast
  obtain ret k2 where k2: "k_ptrace K (if step then PT_STEP else PT_CONTINUE) (p_pid pi) 1 (word_of_int sg) k1
      = (ret, k2)" by (cases "k_ptrace K (if step then PT_STEP else PT_CONTINUE) (p_pid pi) 1 (word_of_int sg) k1")
  have "kcall (k_ptrace K (if step then PT_STEP else PT_CONTINUE) (p_pid pi) 1 (word_of_int sg))
      ((set_cache a (rc\<lparr>registers_valid := False\<rparr>) s)\<lparr>kst := k1\<rparr>) =
      (Ret ret, (set_cache a (rc\<lparr>registers_valid := False\<rparr>) s)\<lparr>kst := k2\<rparr>)"
    using k2 by (simp add: kcall_def)
  with k1(1) pp have "darwin_resume K info s = (Ret (), (set_cache a (rc\<lparr>registers_valid := False\<rparr>) s)
        \<lparr>kst := k2, procs := (procs s)(p \<mapsto> pi\<lparr>p_stopped := False\<rparr>)\<rparr>)"
    by (simp add: darwin_resume_def prog_simps current_process_eq [OF pr] sel upd_proc_eq)
  with k1 k2 show ?thesis by blast
qed

end

subsection \<open>Waiting\<close>

lemma wait_loop_interrupted:
  assumes "\<And>i. i < n \<Longrightarrow> k_waitpid K pid (ks i) = (WaitFailed EINTR, ks (Suc i))"
    and "k_waitpid K pid (ks n) = (WaitDone w, k)"
  shows "wait_loop K pid (ks 0) = Some (WaitDone w, k)"
  using assms
proof (induction n arbitrary: ks)
  case 0 then show ?case by (simp add: wait_loop.simps)
next
  case (Suc n)
  have "wait_loop K pid (ks (Suc 0)) = Some (WaitDone w, k)"
    using Suc.IH [of "\<lambda>i. ks (Suc i)"] Suc.prems by simp
  with Suc.prems(1) [of 0] show ?case by (subst wait_loop.simps) simp
qed

lemma current_proc_procs: "current_proc s p pi \<Longrightarrow> procs s p = Some pi"
  by (auto simp: current_proc_def)

definition end_status :: "wait_status \<Rightarrow> (char \<times> byte) option" where
  \<comment> \<open>the letter and the number of a stop reply at the end of the process\<close>
  "end_status w = (case w of WExited code \<Rightarrow> Some (CHR ''W'', code) | WSignaled sg \<Rightarrow> Some (CHR ''X'', sg) | _ \<Rightarrow> None)"

lemma waited:
  assumes pr: "current_proc s p pi" and w: "wait_loop K (p_pid pi) (kst s) = Some (WaitDone w, k)"
    and t: "end_status w = None \<Longrightarrow> k_task_threads K (current_task s) k = (Some (t # ts), k')"
  shows "darwin_wait K s = (case w of
      WExited c \<Rightarrow> (Ret (CHR ''W'', c), s\<lparr>kst := k\<rparr>)
    | WSignaled sg \<Rightarrow> (Ret (CHR ''X'', sg), s\<lparr>kst := k\<rparr>)
    | _ \<Rightarrow> (Ret (case w of WStopped sg \<Rightarrow> (CHR ''T'', sg) | _ \<Rightarrow> (CHR ''?'', 0)), s\<lparr>kst := k',
        current_thread := t, procs := (procs s)(p \<mapsto> pi\<lparr>p_thread := t, p_stopped := True\<rparr>)\<rparr>))"
proof -
  have kc: "kcall_loop (wait_loop K (p_pid pi)) s = (Ret (WaitDone w), s\<lparr>kst := k\<rparr>)"
    using w by (simp add: kcall_loop_def)
  have "darwin_get_first_thread K (current_task s) (s\<lparr>kst := k\<rparr>) = (Ret t, s\<lparr>kst := k'\<rparr>)" if "end_status w = None"
    using t [OF that] by (simp add: darwin_get_first_thread_def kcall_def prog_simps)
  then show ?thesis
    using current_proc_procs [OF pr]
    by (cases w) (simp_all add: end_status_def darwin_wait_def prog_simps current_process_eq [OF pr] kc upd_proc_eq)
qed

subsection \<open>Stop replies\<close>

lemma take_overwrite:
  assumes "take (length pre) b = pre" and "length pre + length x \<le> length b"
  shows "take (length (pre @ x)) (overwrite b (length pre) x) = pre @ x"
    "length (overwrite b (length pre) x) = length b"
  using assms by (simp_all add: overwrite_def)

lemma take_prefix: "take (length (pre @ x)) b = pre @ x \<Longrightarrow> take (length pre) b = pre"
proof -
  assume "take (length (pre @ x)) b = pre @ x"
  then have "take (length pre) (take (length (pre @ x)) b) = take (length pre) (pre @ x)" by simp
  then show ?thesis by (simp add: take_take)
qed

definition reg_text :: "byte list \<Rightarrow> nat \<Rightarrow> string" where
  \<comment> \<open>a register in a stop reply: its number, a colon, its bytes, a semicolon\<close>
  "reg_text bytes i = reg_prefix (int i) @ hex_bytes (slot regs_ppc i bytes) @ '';''"

lemma length_reg_prefix: "length (reg_prefix n) \<le> 5"
  by (simp add: reg_prefix_def nibble_def)

lemma outreg_eq:
  assumes u: "current_regcache (Some (fetch_registers T))
        (s\<lparr>own_buf := overwrite (own_buf s) (length pre) (reg_prefix (int i))\<rparr>) = (Ret a, u)"
      "cache_at u a (valid_cache bytes)" "own_buf u = overwrite (own_buf s) (length pre) (reg_prefix (int i))"
      "reg_defs u = regs_ppc"
    and i: "i < 71" and l: "length bytes = 412" and b: "take (length pre) (own_buf s) = pre"
      "length pre + 22 \<le> length (own_buf s)"
  shows "\<exists>b. outreg T (int i) (length pre) s = (Ret (length (pre @ reg_text bytes i)), u\<lparr>own_buf := b\<rparr>)
    \<and> take (length (pre @ reg_text bytes i)) b = pre @ reg_text bytes i \<and> length b = length (own_buf s)"
proof -
  let ?x = "reg_prefix (int i)" and ?h = "hex_bytes (slot regs_ppc i bytes)"
  have lh: "length ?h = 2 * slot_len regs_ppc i" "slot_len regs_ppc i \<le> 8"
    using length_slot_ppc [OF l i] slot_ppc(2) [OF i] by simp_all
  have fit: "length pre + length ?x + length ?h + 1 \<le> length (own_buf s)"
    using b(2) lh length_reg_prefix [of "int i"] by simp
  have t1: "take (length (pre @ ?x)) (own_buf u) = pre @ ?x" "length (own_buf u) = length (own_buf s)"
    using take_overwrite [OF b(1), of ?x] u(3) fit by simp_all
  let ?b2 = "overwrite (own_buf u) (length (pre @ ?x)) (?h @ [NUL])"
  have t2: "take (length ((pre @ ?x) @ ?h @ [NUL])) ?b2 = (pre @ ?x) @ ?h @ [NUL]" "length ?b2 = length (own_buf s)"
    using take_overwrite [OF t1(1), of "?h @ [NUL]"] t1(2) fit by simp_all
  have t2': "take (length (pre @ ?x @ ?h)) ?b2 = pre @ ?x @ ?h"
    using take_prefix [of "pre @ ?x @ ?h" "[NUL]"] t2(1) by simp
  let ?b3 = "overwrite ?b2 (length (pre @ ?x @ ?h)) '';''"
  have t3: "take (length ((pre @ ?x @ ?h) @ '';'')) ?b3 = (pre @ ?x @ ?h) @ '';''" "length ?b3 = length (own_buf s)"
    using take_overwrite [OF t2', of "'';''"] t2(2) fit by simp_all
  have slot: "slot_ofs regs_ppc i + slot_len regs_ppc i \<le> 412" using slot_bound(1) [OF regs_wf_ppc] i by simp
  let ?s1 = "s\<lparr>own_buf := overwrite (own_buf s) (length pre) ?x\<rparr>"
  have c: "collect_register_as_string (Some (fetch_registers T)) (int i) ?s1 = (Ret (?h @ [NUL]), u)"
    unfolding collect_register_as_string_def register_data_def using l i slot u(4)
    by (simp add: prog_simps u(1) read_cache_eq [OF u(2)] convert_int_to_ascii_eq slot_def
        slot_ofs_def [symmetric] reg_at_eq register_size_eq)
  have p1: "put_str (length pre) ?x s = (Ret (), ?s1)" by (rule put_str_eq) (use fit in simp)
  have p2: "put_str (length pre + length ?x) (?h @ [NUL]) u = (Ret (), u\<lparr>own_buf := ?b2\<rparr>)"
    using put_str_eq [of "length pre + length ?x" "?h @ [NUL]" u] fit t1(2) by simp
  have p3: "put_str (length pre + length ?x + 2 * slot_len regs_ppc i) '';'' (u\<lparr>own_buf := ?b2\<rparr>) =
      (Ret (), u\<lparr>own_buf := ?b3\<rparr>)"
    using put_str_eq [of "length pre + length ?x + 2 * slot_len regs_ppc i" "'';''" "u\<lparr>own_buf := ?b2\<rparr>"]
      fit t2(2) lh(1) by (simp add: add.assoc)
  have r: "register_size (int i) (u\<lparr>own_buf := ?b2\<rparr>) = (Ret (slot_len regs_ppc i), u\<lparr>own_buf := ?b2\<rparr>)"
    using register_size_eq [of i "u\<lparr>own_buf := ?b2\<rparr>"] u(4) i by simp
  have "outreg T (int i) (length pre) s = (Ret (length pre + length ?x + 2 * slot_len regs_ppc i + 1),
      u\<lparr>own_buf := ?b3\<rparr>)"
    unfolding outreg_def Let_def seq_p_def bind_p_cases(1) [where m = "put_str (length pre) ?x", OF p1]
      bind_p_cases(1) [where m = "collect_register_as_string (Some (fetch_registers T)) (int i)", OF c]
      bind_p_cases(1) [where m = "put_str (length pre + length ?x) (?h @ [NUL])", OF p2]
      bind_p_cases(1) [where m = "register_size (int i)", OF r]
      bind_p_cases(1) [where m = "put_str (length pre + length ?x + 2 * slot_len regs_ppc i) '';''", OF p3]
    by (simp add: return_p_def)
  moreover have "length pre + length ?x + 2 * slot_len regs_ppc i + 1 = length (pre @ reg_text bytes i)"
    using lh(1) by (simp add: reg_text_def)
  ultimately have "outreg T (int i) (length pre) s = (Ret (length (pre @ reg_text bytes i)), u\<lparr>own_buf := ?b3\<rparr>)"
    by (simp only:)
  with t3 show ?thesis by (intro exI [of _ ?b3]) (simp only: reg_text_def append_assoc simp_thms)
qed

lemma set_cache_own_buf [simp]:
  "own_buf (set_cache a rc s) = own_buf s"
  "set_cache a rc (s\<lparr>own_buf := b\<rparr>) = (set_cache a rc s)\<lparr>own_buf := b\<rparr>"
  by (simp_all add: set_cache_def)

lemma own_buf_frame [simp]:
  "ppc_cache (s\<lparr>own_buf := b\<rparr>) a rc = ppc_cache s a rc"
  "current_proc (s\<lparr>own_buf := b\<rparr>) p pi = current_proc s p pi"
  "thread_regs regs fregs (s\<lparr>own_buf := b\<rparr>) pi rc = thread_regs regs fregs s pi rc"
  "cache_at (s\<lparr>own_buf := b\<rparr>) a rc = cache_at s a rc"
  by (simp_all add: ppc_cache_def current_cache_def cache_at_def current_proc_def thread_regs_def)

lemma ppc_cacheD:
  "ppc_cache s a rc \<Longrightarrow> cache_at s a rc" "ppc_cache s a rc \<Longrightarrow> length (registers rc) = 412"
  "ppc_cache s a rc \<Longrightarrow> reg_defs s = regs_ppc" "ppc_cache s a rc \<Longrightarrow> current_inferior s = Some a"
  by (simp_all add: ppc_cache_def current_cache_def)

lemma ppc_cache_set_cache:
  "ppc_cache s a rc \<Longrightarrow> length (registers rc') = 412 \<Longrightarrow> ppc_cache ((set_cache a rc' s)\<lparr>kst := k\<rparr>) a rc'"
  by (auto simp: ppc_cache_def current_cache_def)

lemma nibbles_hex_byte:
  assumes "0 \<le> n" and "n < 256"
  shows "nibble (drop_bit 4 (n AND 240)) @ nibble (n AND 15) = hex_byte (word_of_int n)"
proof -
  have u: "unat (word_of_int n :: byte) = nat n" using assms by (simp add: unat_eq_nat_uint uint_word_of_int)
  have "drop_bit 4 (n AND 240) = drop_bit 4 n AND 15" by (simp add: drop_bit_and)
  also have "\<dots> = n div 16"
    using assms by (simp only: and_15) (simp add: drop_bit_eq_div take_bit_int_eq_self)
  finally have "drop_bit 4 (n AND 240) = int (nat n div 16)" using assms by (simp add: zdiv_int)
  moreover have "n AND 15 = int (nat n mod 16)"
    using assms by (simp only: and_15) (simp add: take_bit_eq_mod zmod_int)
  moreover have "nat n div 16 < 16" using assms by linarith
  ultimately show ?thesis by (simp add: nibble_def tohex_hex_digit hex_byte_def u)
qed

lemma nul_free_reg_text: "NUL \<notin> set (reg_text bytes 1)" "NUL \<notin> set (reg_text bytes 64)"
proof -
  have "reg_prefix 1 = ''01:''" "reg_prefix 64 = ''40:''"
    by (simp_all add: reg_prefix_def nibble_def tohex_def char_of_int_def char_of_def)
  then show "NUL \<notin> set (reg_text bytes 1)" "NUL \<notin> set (reg_text bytes 64)"
    using NUL_notin_hex_bytes by (simp_all add: reg_text_def NUL_def)
qed

lemma length_fmt_x: "length (fmt_x n) \<le> 8"
  unfolding fmt_x_def by (rule length_hex_digits) (simp_all add: nat_less_iff)

lemma NUL_notin_fmt_x: "NUL \<notin> set (fmt_x n)"
  unfolding fmt_x_def using hex_digits_set hex_digit_not_special(6) by metis

lemma cstr_written:
  assumes "take (length x) b = x" and "NUL \<notin> set x" and "length x < length b"
  shows "cstr (overwrite b (length x) [NUL]) 0 = x"
proof -
  have "overwrite b (length x) [NUL] = x @ NUL # drop (Suc (length x)) b"
    using assms(1) by (simp add: overwrite_def)
  moreover have "takeWhile (\<lambda>c. c \<noteq> NUL) (x @ NUL # zs) = x" for zs using assms(2) by (induction x) auto
  ultimately show ?thesis by (simp add: cstr_def)
qed

definition replied :: "int \<Rightarrow> string \<Rightarrow> ('k, 'z) remote_state_scheme \<Rightarrow> ('k, 'z) remote_state_scheme" where
  \<comment> \<open>after a stop reply about this thread\<close>
  "replied tid b s = s\<lparr>thread_from_wait := tid, general_thread := tid, own_buf := b, old_thread_from_wait := tid\<rparr>"

lemma thread_part_eq:
  assumes tid: "current_thread_id s = (Ret tid, s)" and th: "using_threads s"
    and b: "take (length pre) (own_buf s) = pre" "length pre + 20 \<le> length (own_buf s)"
  shows "\<exists>b. thread_part (length pre) s = (Ret (length (pre @ ''thread:'' @ fmt_x tid @ '';'')), replied tid b s)
    \<and> take (length (pre @ ''thread:'' @ fmt_x tid @ '';'')) b = pre @ ''thread:'' @ fmt_x tid @ '';''
    \<and> length b = length (own_buf s)"
proof -
  define str where "str = ''thread:'' @ fmt_x tid @ '';''"
  have ls: "length str \<le> 16" using length_fmt_x [of tid] by (simp add: str_def)
  have lstr: "length str = 8 + length (fmt_x tid)" by (simp add: str_def)
  let ?s1 = "s\<lparr>thread_from_wait := tid, general_thread := tid\<rparr>"
  let ?b = "overwrite (own_buf s) (length pre) (str @ [NUL])"
  have t: "take (length (pre @ str @ [NUL])) ?b = pre @ str @ [NUL]" "length ?b = length (own_buf s)"
    using take_overwrite [OF b(1), of "str @ [NUL]"] b(2) ls by simp_all
  have put: "put_str (length pre) (str @ [NUL]) ?s1 = (Ret (), ?s1\<lparr>own_buf := ?b\<rparr>)"
    using put_str_eq [of "length pre" "str @ [NUL]" ?s1] b(2) ls by simp
  have "thread_part (length pre) s = (Ret (length (pre @ str)), replied tid ?b s)"
    unfolding thread_part_def replied_def Let_def str_def [symmetric]
    by (simp add: th prog_simps tid put str_def [symmetric] lstr del: append.simps append_assoc)
  moreover have "take (length (pre @ str)) ?b = pre @ str"
    using take_prefix [of "pre @ str" "[NUL]"] t(1) by simp
  ultimately show ?thesis using t(2) unfolding str_def [symmetric] by (intro exI [of _ ?b]) simp
qed

context kernel_registers
begin

lemma outreg_darwin:
  assumes c: "ppc_cache s a rc" and p: "current_proc s p pi" and i: "i < 71"
    and b: "take (length pre) (own_buf s) = pre" "length pre + 22 \<le> length (own_buf s)"
  defines "bytes \<equiv> thread_regs regs fregs s pi rc"
  shows "\<exists>k b. outreg (darwin_ops K) (int i) (length pre) s = (Ret (length (pre @ reg_text bytes i)),
      (set_cache a (valid_cache bytes) s)\<lparr>kst := k, own_buf := b\<rparr>)
    \<and> take (length (pre @ reg_text bytes i)) b = pre @ reg_text bytes i \<and> length b = length (own_buf s)"
proof -
  let ?s1 = "s\<lparr>own_buf := overwrite (own_buf s) (length pre) (reg_prefix (int i))\<rparr>"
  have "ppc_cache ?s1 a rc" "current_proc ?s1 p pi" using c p by simp_all
  from current_regcache_darwin [OF this] obtain k where
    k: "current_regcache (Some (fetch_registers (darwin_ops K))) ?s1 =
        (Ret a, (set_cache a (valid_cache bytes) ?s1)\<lparr>kst := k\<rparr>)"
    by (auto simp: darwin_ops_def bytes_def)
  let ?u = "(set_cache a (valid_cache bytes) ?s1)\<lparr>kst := k\<rparr>"
  have l: "length bytes = 412" using ppc_cacheD(2) [OF c] by (simp add: bytes_def thread_regs_def)
  have "cache_at ?u a (valid_cache bytes)" using ppc_cacheD(1) [OF c] by simp
  moreover have "own_buf ?u = overwrite (own_buf s) (length pre) (reg_prefix (int i))" by simp
  moreover have "reg_defs ?u = regs_ppc" using ppc_cacheD(3) [OF c] by simp
  ultimately obtain b where
    "outreg (darwin_ops K) (int i) (length pre) s = (Ret (length (pre @ reg_text bytes i)), ?u\<lparr>own_buf := b\<rparr>)"
    "take (length (pre @ reg_text bytes i)) b = pre @ reg_text bytes i" "length b = length (own_buf s)"
    using outreg_eq [OF k _ _ _ i l b] by blast
  then show ?thesis by (intro exI [of _ k] exI [of _ b]) simp
qed

lemma outregs_darwin:
  assumes c: "ppc_cache s a rc" and p: "current_proc s p pi"
    and b: "take (length pre) (own_buf s) = pre" "length pre + 44 \<le> length (own_buf s)"
  defines "bytes \<equiv> thread_regs regs fregs s pi rc"
  defines "text \<equiv> pre @ reg_text bytes 1 @ reg_text bytes 64"
  shows "\<exists>k b. outregs (darwin_ops K) expedite_regs_ppc (length pre) s = (Ret (length text),
      (set_cache a (valid_cache bytes) s)\<lparr>kst := k, own_buf := b\<rparr>)
    \<and> take (length text) b = text \<and> length b = length (own_buf s)"
proof -
  let ?v = "valid_cache bytes"
  have l: "length bytes = 412" using ppc_cacheD(2) [OF c] by (simp add: bytes_def thread_regs_def)
  have lt: "length (reg_text bytes 1) \<le> 22"
    using length_slot_ppc [OF l, of 1] slot_ppc(2) [of 1] length_reg_prefix [of 1] by (simp add: reg_text_def)
  from outreg_darwin [OF c p _ b(1), of 1] b(2) obtain k1 b1 where
    o1: "outreg (darwin_ops K) 1 (length pre) s = (Ret (length (pre @ reg_text bytes 1)),
        (set_cache a ?v s)\<lparr>kst := k1, own_buf := b1\<rparr>)"
      "take (length (pre @ reg_text bytes 1)) b1 = pre @ reg_text bytes 1" "length b1 = length (own_buf s)"
    by (auto simp: bytes_def)
  let ?t = "(set_cache a ?v s)\<lparr>kst := k1, own_buf := b1\<rparr>"
  have "ppc_cache ?t a ?v" using ppc_cache_set_cache [OF c, of ?v k1] l by simp
  moreover have "current_proc ?t p pi" using p by simp
  moreover have "length (pre @ reg_text bytes 1) + 22 \<le> length (own_buf ?t)" using o1(3) b(2) lt by simp
  moreover have "thread_regs regs fregs ?t pi ?v = bytes" by (simp add: thread_regs_def)
  ultimately obtain k2 b2 where
    o2: "outreg (darwin_ops K) 64 (length (pre @ reg_text bytes 1)) ?t =
        (Ret (length ((pre @ reg_text bytes 1) @ reg_text bytes 64)),
        (set_cache a ?v ?t)\<lparr>kst := k2, own_buf := b2\<rparr>)"
      "take (length ((pre @ reg_text bytes 1) @ reg_text bytes 64)) b2 = (pre @ reg_text bytes 1) @ reg_text bytes 64"
      "length b2 = length (own_buf ?t)"
    using outreg_darwin [of ?t a ?v p pi 64 "pre @ reg_text bytes 1"] o1(2) by auto
  have "find_regno ''r1'' s = (Ret 1, s)" "find_regno ''pc'' ?t = (Ret 64, ?t)"
    using find_ppc(3) ppc_cacheD(3) [OF c]
    by (simp_all add: find_regno_def) (simp add: regs_ppc_def mk_reg_def)
  then have "outregs (darwin_ops K) expedite_regs_ppc (length pre) s =
      (Ret (length ((pre @ reg_text bytes 1) @ reg_text bytes 64)), (set_cache a ?v ?t)\<lparr>kst := k2, own_buf := b2\<rparr>)"
    using o1(1) o2(1) by (simp add: expedite_regs_ppc_def prog_simps)
  with o2(2,3) o1(3) show ?thesis
    by (intro exI [of _ k2] exI [of _ b2]) (simp add: text_def)
qed

lemma stop_reply:
  assumes c: "ppc_cache s a rc" and p: "current_proc s p pi" and ex: "gdbserver_expedite_regs s = expedite_regs_ppc"
    and th: "using_threads s" "entries s a = Some e" and ob: "length (own_buf s) = 2000"
    and sg: "target_signal_from_host H (uint signo) = Ret sg" "0 \<le> sg" "sg < 256"
  defines "bytes \<equiv> thread_regs regs fregs s pi rc"
  shows "\<exists>k b. prepare_resume_reply H (darwin_ops K) CHR ''T'' signo s =
      (Ret (), replied (ent_id e) b ((set_cache a (valid_cache bytes) s)\<lparr>kst := k\<rparr>))
    \<and> cstr b 0 = ''T'' @ hex_byte (word_of_int sg) @ reg_text bytes 1 @ reg_text bytes 64
        @ ''thread:'' @ fmt_x (ent_id e) @ '';''
    \<and> length b = length (own_buf s)"
proof -
  let ?h = "hex_byte (word_of_int sg)"
  let ?s0 = "s\<lparr>own_buf := overwrite (own_buf s) 0 ''T''\<rparr>"
  have l0: "take (length ''T'') (own_buf ?s0) = ''T''" "length (own_buf ?s0) = 2000"
    using take_overwrite [of "[]" "own_buf s" "''T''"] ob by simp_all
  let ?s1 = "s\<lparr>own_buf := overwrite (overwrite (own_buf s) 0 ''T'') (Suc 0) ?h\<rparr>"
  have l1: "take (length (''T'' @ ?h)) (own_buf ?s1) = ''T'' @ ?h" "length (own_buf ?s1) = 2000"
    using take_overwrite [OF l0(1), of ?h] l0(2) by (simp_all add: hex_byte_def)
  have "ppc_cache ?s1 a rc" "current_proc ?s1 p pi" "thread_regs regs fregs ?s1 pi rc = bytes"
    using c p by (simp_all add: bytes_def)
  with outregs_darwin [of ?s1 a rc p pi "''T'' @ ?h"] l1 obtain k b pre where
    pre: "pre = ''T'' @ ?h @ reg_text bytes 1 @ reg_text bytes 64"
    and o: "outregs (darwin_ops K) expedite_regs_ppc 3 ?s1 =
        (Ret (length pre), (set_cache a (valid_cache bytes) s)\<lparr>kst := k, own_buf := b\<rparr>)"
      "take (length pre) b = pre" "length b = 2000"
    by (auto simp: hex_byte_def numeral_3_eq_3)
  let ?s2 = "(set_cache a (valid_cache bytes) s)\<lparr>kst := k, own_buf := b\<rparr>"
  have lb: "length bytes = 412" using ppc_cacheD(2) [OF c] by (simp add: bytes_def thread_regs_def)
  have lp: "length pre \<le> 60"
    using length_slot_ppc [OF lb, of 1] slot_ppc(2) [of 1] length_reg_prefix [of 1]
      length_slot_ppc [OF lb, of 64] slot_ppc(2) [of 64] length_reg_prefix [of 64]
    by (simp add: reg_text_def hex_byte_def pre)
  have "current_thread_id ?s2 = (Ret (ent_id e), ?s2)"
    using ppc_cacheD(4) [OF c] th(2) by (simp add: current_thread_id_def deref_p_def)
  moreover have "using_threads ?s2" using th(1) by (simp add: set_cache_def)
  moreover have "take (length pre) (own_buf ?s2) = pre" "length pre + 20 \<le> length (own_buf ?s2)"
    using o(2,3) lp by simp_all
  ultimately obtain d where
    t: "thread_part (length pre) ?s2 =
        (Ret (length (pre @ ''thread:'' @ fmt_x (ent_id e) @ '';'')), replied (ent_id e) d ?s2)"
      "take (length (pre @ ''thread:'' @ fmt_x (ent_id e) @ '';'')) d =
        pre @ ''thread:'' @ fmt_x (ent_id e) @ '';''" "length d = length (own_buf ?s2)"
    using thread_part_eq by blast
  let ?t = "replied (ent_id e) d ?s2"
  let ?text = "pre @ ''thread:'' @ fmt_x (ent_id e) @ '';''"
  have room: "length ?text < length d" using t(3) o(3) lp length_fmt_x [of "ent_id e"] by simp
  have nul: "NUL \<notin> set ?text"
    using nul_free_reg_text NUL_notin_fmt_x NUL_notin_hex_bytes [of "[word_of_int sg]"]
    by (simp add: pre NUL_def)
  let ?d = "overwrite d (length ?text) [NUL]"
  let ?u = "replied (ent_id e) ?d ((set_cache a (valid_cache bytes) s)\<lparr>kst := k\<rparr>)"
  have p0: "put_str 0 ''T'' s = (Ret (), ?s0)" by (rule put_str_eq) (use ob in simp)
  have p1: "put_str 1 (nibble (drop_bit 4 (sg AND 240)) @ nibble (sg AND 15)) ?s0 = (Ret (), ?s1)"
    using put_str_eq [of 1 ?h ?s0] l0(2) nibbles_hex_byte [OF sg(2,3)] by (simp add: hex_byte_def)
  have p1': "put_str (Suc 0) (nibble (drop_bit 4 sg AND 15) @ nibble (sg AND 15)) ?s0 = (Ret (), ?s1)"
    using p1 by simp
  have "own_buf ?t = d" "?t\<lparr>own_buf := ?d\<rparr> = ?u" by (simp_all add: replied_def)
  then have p3: "put_str (length ?text) [NUL] ?t = (Ret (), ?u)"
    using put_str_eq [of "length ?text" "[NUL]" ?t] room by simp
  have "prepare_resume_reply H (darwin_ops K) CHR ''T'' signo s = (Ret (), ?u)"
    unfolding prepare_resume_reply_def seq_p_def
      bind_p_cases(1) [where m = "put_str 0 ''T''", OF p0]
    by (simp add: sg(1) bind_p_cases(1) [where m = "put_str (Suc 0) (nibble (drop_bit 4 sg AND 15) @ nibble (sg AND 15))", OF p1']
        prog_simps o(1) t(1) p3 ex del: append.simps append_assoc length_append)
  moreover have "length ?d = length (own_buf s)" using room t(3) o(3) ob by simp
  ultimately show ?thesis using cstr_written [OF t(2) nul room]
    by (intro exI [of _ k] exI [of _ ?d]) (simp add: pre)
qed

end

subsection \<open>From the request to its reply\<close>

definition session_ready ::
  "('k, 'z) server_state_scheme \<Rightarrow> nat \<Rightarrow> nat \<Rightarrow> darwin_process_info \<Rightarrow> inferior_regcache_data \<Rightarrow> bool"
where
  \<comment> \<open>one process with one thread, as \<^verbatim>\<open>darwin_create_inferior\<close> leaves it: the thread at \<open>a\<close> has the
    identifier of the process\<close>
  "session_ready s a p pi rc \<longleftrightarrow>
     resume_ready (s\<lparr>current_inferior := Some a\<rparr>) a p pi rc \<and> id_at (entries s) a = p_pid pi
     \<and> 0 < p_pid pi \<and> using_threads s \<and> gdbserver_expedite_regs s = expedite_regs_ppc
     \<and> length (own_buf s) = PBUFSIZ s"

definition runs_to ::
  "'k kernel \<Rightarrow> ('k \<Rightarrow> nat \<Rightarrow> ppc_thread_state) \<Rightarrow> ('k \<Rightarrow> nat \<Rightarrow> ppc_float_state) \<Rightarrow> ('k \<Rightarrow> 'w) \<Rightarrow>
     darwin_process_info \<Rightarrow> nat \<Rightarrow> bool \<Rightarrow> int \<Rightarrow> byte list \<times> 'w \<Rightarrow> byte \<Rightarrow> nat \<Rightarrow> byte list \<times> 'w \<Rightarrow> bool" where
  \<comment> \<open>the process, resumed with these registers and in a kernel where what is watched is as in \<open>before\<close>,
    runs until it stops with a signal; its thread is then \<open>t\<close>, with registers and watched part \<open>after\<close>\<close>
  "runs_to K regs fregs watch pi task step sg before signo t after \<longleftrightarrow>
     (\<forall>k1 ret k2. (ppc_image (regs k1 (p_thread pi)) (fregs k1 (p_thread pi)), watch k1) = before \<longrightarrow>
        k_ptrace K (if step then PT_STEP else PT_CONTINUE) (p_pid pi) 1 (word_of_int sg) k1 = (ret, k2) \<longrightarrow>
        (\<exists>k3 k4 ts. wait_loop K (p_pid pi) k2 = Some (WaitDone (WStopped signo), k3)
          \<and> k_task_threads K task k3 = (Some (t # ts), k4)
          \<and> (ppc_image (regs k4 t) (fregs k4 t), watch k4) = after))"

definition kept_by_run :: "('k, 'z) server_state_scheme \<Rightarrow> _" where
  \<comment> \<open>what running the program leaves of the server's state on memory and of its session\<close>
  "kept_by_run s = (current_task s, breakpoints s, bp_brk s, breakpoint_data s, breakpoint_len s, mem_buf s,
     extended_protocol s, thread_ptr s, signal_pid s, attached s)"

definition resumes_as ::
  "'k kernel \<Rightarrow> (('k, 'z) server_state_scheme, unit) prog \<Rightarrow> bool \<Rightarrow> int \<Rightarrow> int \<Rightarrow> ('k, 'z) server_state_scheme \<Rightarrow> bool"
where
  \<comment> \<open>the program resumes the process with this identifier, to step or continue with a signal\<close>
  "resumes_as K m step sg pid s \<longleftrightarrow>
     (\<exists>info. select_resume pid info = Ret (step, sg) \<and> m s = darwin_resume K info s)"

definition stop_text :: "int \<Rightarrow> byte list \<Rightarrow> int \<Rightarrow> string" where
  \<comment> \<open>the stop reply with this signal, registers and thread\<close>
  "stop_text ts bytes tid = ''T'' @ hex_byte (word_of_int ts) @ reg_text bytes 1 @ reg_text bytes 64
     @ ''thread:'' @ fmt_x tid @ '';''"

lemma length_stop_text:
  assumes "length bytes = 412"
  shows "length (stop_text ts bytes tid) \<le> 80"
  using length_slot_ppc [OF assms, of 1] slot_ppc(2) [of 1] length_reg_prefix [of 1]
    length_slot_ppc [OF assms, of 64] slot_ppc(2) [of 64] length_reg_prefix [of 64] length_fmt_x [of tid]
  by (simp add: stop_text_def reg_text_def hex_byte_def)

lemma select_myresume:
  assumes "0 < p_pid pi" and "tid = p_pid pi"
  shows "select_resume (p_pid pi) ((if step \<or> sg \<noteq> 0 \<or> 0 < cont
      then [\<lparr>tr_thread = tid, leave_stopped = False, tr_step = step, tr_sig = sg\<rparr>] else []) @
      [\<lparr>tr_thread = - 1, leave_stopped = 0 < cont, tr_step = False, tr_sig = 0\<rparr>]) = Ret (step, sg)"
  using assms by auto

lemma darwin_ops_run [simp]:
  "t_resume (darwin_ops K) = darwin_resume K" "t_wait (darwin_ops K) = darwin_wait K"
  by (simp_all add: darwin_ops_def)

lemma current_proc_upd:
  "current_proc s p pi \<Longrightarrow> current_proc (s\<lparr>procs := (procs s)(p \<mapsto> pi')\<rparr>) p pi'"
  by (auto simp: current_proc_def)

lemma run_frame [simp]:
  "ppc_cache (s\<lparr>procs := q\<rparr>) a rc = ppc_cache s a rc"
  "ppc_cache (s\<lparr>current_thread := th\<rparr>) a rc = ppc_cache s a rc"
  "ppc_cache (s\<lparr>server_waiting := w\<rparr>) a rc = ppc_cache s a rc"
  "ppc_cache (s\<lparr>status := st\<rparr>) a rc = ppc_cache s a rc"
  "ppc_cache (s\<lparr>sig := sg\<rparr>) a rc = ppc_cache s a rc"
  "current_proc (s\<lparr>current_thread := th\<rparr>) p pi = current_proc s p pi"
  "current_proc (s\<lparr>server_waiting := w\<rparr>) p pi = current_proc s p pi"
  "current_proc (s\<lparr>status := st\<rparr>) p pi = current_proc s p pi"
  "current_proc (s\<lparr>sig := sg\<rparr>) p pi = current_proc s p pi"
  by (simp_all add: ppc_cache_def current_cache_def cache_at_def current_proc_def)

definition end_text :: "char \<Rightarrow> int \<Rightarrow> string" where
  "end_text st ts = st # hex_byte (word_of_int ts)"

definition ends_to ::
  "'k kernel \<Rightarrow> ('k \<Rightarrow> nat \<Rightarrow> ppc_thread_state) \<Rightarrow> ('k \<Rightarrow> nat \<Rightarrow> ppc_float_state) \<Rightarrow> ('k \<Rightarrow> 'w) \<Rightarrow>
     darwin_process_info \<Rightarrow> bool \<Rightarrow> int \<Rightarrow> byte list \<times> 'w \<Rightarrow> wait_status \<Rightarrow> bool" where
  \<comment> \<open>the process, resumed from there, runs to its end\<close>
  "ends_to K regs fregs watch pi step sg before w \<longleftrightarrow>
     (\<forall>k1 ret k2. (ppc_image (regs k1 (p_thread pi)) (fregs k1 (p_thread pi)), watch k1) = before \<longrightarrow>
        k_ptrace K (if step then PT_STEP else PT_CONTINUE) (p_pid pi) 1 (word_of_int sg) k1 = (ret, k2) \<longrightarrow>
        (\<exists>k3. wait_loop K (p_pid pi) k2 = Some (WaitDone w, k3)))"

lemma waited_end:
  assumes "current_proc s p pi" and "wait_loop K (p_pid pi) (kst s) = Some (WaitDone w, k)"
    and "end_status w = Some (st, n)"
  shows "darwin_wait K s = (Ret (st, n), s\<lparr>kst := k\<rparr>)"
  using assms by (cases w) (auto simp: end_status_def darwin_wait_def prog_simps current_process_eq kcall_loop_def)

lemma end_reply:
  assumes l: "length (own_buf s) = 2000" and st: "st \<noteq> CHR ''T''" "st \<noteq> NUL"
    and sg: "target_signal_from_host H (uint n) = Ret ts" "0 \<le> ts" "ts < 256"
  shows "\<exists>b. prepare_resume_reply H T st n s = (Ret (), s\<lparr>own_buf := b\<rparr>) \<and> cstr b 0 = end_text st ts \<and> length b = 2000"
proof -
  let ?h = "hex_byte (word_of_int ts)" and ?b0 = "overwrite (own_buf s) 0 [st]"
  let ?b1 = "overwrite ?b0 1 ?h"
  let ?b2 = "overwrite ?b1 3 [NUL]"
  have h: "length ?h = 2" "NUL \<notin> set ?h" using NUL_notin_hex_bytes [of "[word_of_int ts]"] by (simp_all add: hex_byte_def)
  have b0: "take 1 ?b0 = [st]" "length ?b0 = 2000" using take_overwrite [of "[]" "own_buf s" "[st]"] l by simp_all
  have b1: "take 3 ?b1 = st # ?h" "length ?b1 = 2000"
    using take_overwrite [of "[st]" ?b0 ?h] b0 h(1) by (simp_all add: numeral_3_eq_3)
  have "put_str 1 (nibble (drop_bit 4 (ts AND 240)) @ nibble (ts AND 15)) (s\<lparr>own_buf := ?b0\<rparr>) = (Ret (), s\<lparr>own_buf := ?b1\<rparr>)"
    using put_str_eq [of 1 ?h "s\<lparr>own_buf := ?b0\<rparr>"] b0(2) h(1) nibbles_hex_byte [OF sg(2,3)] by simp
  moreover have "put_str 0 [st] s = (Ret (), s\<lparr>own_buf := ?b0\<rparr>)" using l by (simp add: put_str_eq)
  moreover have "put_str 3 [NUL] (s\<lparr>own_buf := ?b1\<rparr>) = (Ret (), s\<lparr>own_buf := ?b2\<rparr>)"
    using put_str_eq [of 3 "[NUL]" "s\<lparr>own_buf := ?b1\<rparr>"] b1(2) by simp
  ultimately have "prepare_resume_reply H T st n s = (Ret (), s\<lparr>own_buf := ?b2\<rparr>)"
    using st(1) sg(1) unfolding prepare_resume_reply_def seq_p_def by (simp add: bind_p_def)
  moreover have "cstr ?b2 0 = st # ?h"
    using cstr_written [of "st # ?h" ?b1] b1 h st(2) by (simp add: numeral_3_eq_3)
  ultimately show ?thesis using b1(2) by (auto simp: end_text_def)
qed

lemma same_waiting: "server_waiting s = w \<Longrightarrow> (s :: ('k, 'z) target_state_scheme)\<lparr>server_waiting := w\<rparr> = s"
  by (cases s) simp

lemma myresume_as:
  fixes s :: "('k, 'z) server_state_scheme"
  assumes ready: "session_ready s a p pi rc"
  shows "resumes_as K (myresume (darwin_ops K) step sg) step sg (p_pid pi) (s\<lparr>current_inferior := Some a\<rparr>)"
proof -
  let ?s0 = "s\<lparr>current_inferior := Some a\<rparr>"
  from ready have wf: "wf_list (entries s) (all_threads s) [a]" and tid: "id_at (entries s) a = p_pid pi" "0 < p_pid pi"
    by (simp_all add: session_ready_def resume_ready_def)
  obtain e where e: "entries s a = Some e" using wf_list_alloc [OF wf] by auto
  with tid(1) have ide: "ent_id e = p_pid pi" by (simp add: id_at_def)
  let ?info = "(if step \<or> sg \<noteq> 0 \<or> 0 < cont_thread s
      then [\<lparr>tr_thread = ent_id e, leave_stopped = False, tr_step = step, tr_sig = sg\<rparr>] else []) @
      [\<lparr>tr_thread = - 1, leave_stopped = 0 < cont_thread s, tr_step = False, tr_sig = 0\<rparr>]"
  have "current_thread_id ?s0 = (Ret (ent_id e), ?s0)"
    using e by (simp add: current_thread_id_def deref_p_def)
  then have "myresume (darwin_ops K) step sg ?s0 = darwin_resume K ?info ?s0"
    by (simp add: myresume_def prog_simps)
  with select_myresume [OF tid(2) ide] show ?thesis unfolding resumes_as_def by blast
qed

lemma preserves_invalidate:
  fixes watch :: "'k \<Rightarrow> 'w" and K :: "'k kernel"
  assumes "\<And>r. preserves (\<lambda>s :: ('k, 'z) server_state_scheme. watch (kst s)) (darwin_store_registers K r)"
  shows "preserves (\<lambda>s :: ('k, 'z) server_state_scheme. watch (kst s)) (regcache_invalidate (darwin_store_registers K))"
  unfolding regcache_invalidate_def regcache_invalidate_one_def read_cache_def upd_cache_def deref_thread_def
  by (intro preserves_intros assms | simp)+

definition kernel_half ::
  "('k \<Rightarrow> nat \<Rightarrow> ppc_thread_state) \<Rightarrow> ('k \<Rightarrow> nat \<Rightarrow> ppc_float_state) \<Rightarrow> ('k, 'z) server_state_scheme \<Rightarrow> _" where
  \<comment> \<open>the registers of all threads in the kernel\<close>
  "kernel_half regs fregs s = (regs (kst s), fregs (kst s))"

context kernel_registers
begin

lemma kcall_reads_registers:
  "preserves (kernel_half regs fregs) (kcall (k_get_state K th))"
  "preserves (kernel_half regs fregs) (kcall (k_get_float K th))"
proof -
  show "preserves (kernel_half regs fregs) (kcall (k_get_state K th))"
    using get_state [of th] by (auto simp: preserves_def kcall_def kernel_half_def split_beta) (metis snd_conv)+
  show "preserves (kernel_half regs fregs) (kcall (k_get_float K th))"
    using get_float [of th] by (auto simp: preserves_def kcall_def kernel_half_def split_beta) (metis snd_conv)+
qed

end

sublocale kernel_registers \<subseteq> registers_in_kernel: stop_observer "kernel_half regs fregs" K
  by unfold_locales (simp_all add: kcall_reads_registers, simp_all add: kernel_half_def)

context kernel_registers
begin

lemma run_resumes:
  fixes s :: "('k, 'z) server_state_scheme"
  assumes ready: "session_ready s a p pi rc"
    and m: "resumes_as K m step sg (p_pid pi) (s\<lparr>current_inferior := Some a\<rparr>)"
  shows "\<exists>k1 ret k2. regcache_invalidate (darwin_store_registers K) (s\<lparr>current_inferior := Some a\<rparr>) =
      (Ret (), (set_cache a (rc\<lparr>registers_valid := False\<rparr>) (s\<lparr>current_inferior := Some a\<rparr>))\<lparr>kst := k1\<rparr>)
    \<and> ppc_image (regs k1 (p_thread pi)) (fregs k1 (p_thread pi)) = thread_regs regs fregs s pi rc
    \<and> k_ptrace K (if step then PT_STEP else PT_CONTINUE) (p_pid pi) 1 (word_of_int sg) k1 = (ret, k2)
    \<and> m (s\<lparr>current_inferior := Some a\<rparr>) =
      (Ret (), (set_cache a (rc\<lparr>registers_valid := False\<rparr>) (s\<lparr>current_inferior := Some a\<rparr>))
        \<lparr>kst := k2, procs := (procs s)(p \<mapsto> pi\<lparr>p_stopped := False\<rparr>)\<rparr>)"
proof -
  let ?s0 = "s\<lparr>current_inferior := Some a\<rparr>"
  from ready have rr: "resume_ready ?s0 a p pi rc" by (simp add: session_ready_def)
  from m obtain info where "select_resume (p_pid pi) info = Ret (step, sg)" "m ?s0 = darwin_resume K info ?s0"
    unfolding resumes_as_def by blast
  with resumed [OF rr] show ?thesis by auto
qed

lemma run_stops:
  fixes s :: "('k, 'z) server_state_scheme"
  defines "unfetched \<equiv> \<lambda>rc :: inferior_regcache_data. rc\<lparr>registers_valid := False\<rparr>"
  assumes ready: "session_ready s a p pi rc"
    and m: "resumes_as K m step sg (p_pid pi) (s\<lparr>current_inferior := Some a\<rparr>)"
    and run: "runs_to K regs fregs watch pi (current_task s) step sg (thread_regs regs fregs s pi rc, watch (kst s))
      signo t (after, w)"
    and stored: "\<And>r. preserves (\<lambda>s :: ('k, 'z) server_state_scheme. watch (kst s)) (darwin_store_registers K r)"
  shows "\<exists>s1 k. m (s\<lparr>current_inferior := Some a\<rparr>) = (Ret (), s1)
    \<and> (\<forall>flag. mywait (darwin_ops K) flag s1 = (Ret (CHR ''T'', signo),
        (set_cache a (unfetched rc) (s\<lparr>current_inferior := Some a\<rparr>))\<lparr>kst := k, current_thread := t,
          procs := (procs s)(p \<mapsto> pi\<lparr>p_thread := t, p_stopped := True\<rparr>),
          server_waiting := (if flag then False else server_waiting s)\<rparr>))
    \<and> ppc_image (regs k t) (fregs k t) = after \<and> watch k = w"
proof -
  let ?s0 = "s\<lparr>current_inferior := Some a\<rparr>"
  let ?rc = "rc\<lparr>registers_valid := False\<rparr>"
  from ready have pr: "current_proc ?s0 p pi" by (simp add: session_ready_def resume_ready_def)
  from run_resumes [OF ready m] obtain k1 ret k2 where
    inv: "regcache_invalidate (darwin_store_registers K) ?s0 = (Ret (), (set_cache a ?rc ?s0)\<lparr>kst := k1\<rparr>)"
    and k: "ppc_image (regs k1 (p_thread pi)) (fregs k1 (p_thread pi)) = thread_regs regs fregs s pi rc"
      "k_ptrace K (if step then PT_STEP else PT_CONTINUE) (p_pid pi) 1 (word_of_int sg) k1 = (ret, k2)"
    and my: "m ?s0 = (Ret (), (set_cache a ?rc ?s0)
        \<lparr>kst := k2, procs := (procs s)(p \<mapsto> pi\<lparr>p_stopped := False\<rparr>)\<rparr>)"
    by blast
  let ?s1 = "(set_cache a ?rc ?s0)\<lparr>kst := k2, procs := (procs s)(p \<mapsto> pi\<lparr>p_stopped := False\<rparr>)\<rparr>"
  from preservesD [OF preserves_invalidate [OF stored] inv] have "watch k1 = watch (kst s)" by simp
  with run k obtain k3 k4 rest where
    w: "wait_loop K (p_pid pi) k2 = Some (WaitDone (WStopped signo), k3)"
      "k_task_threads K (current_task s) k3 = (Some (t # rest), k4)"
      "ppc_image (regs k4 t) (fregs k4 t) = after" "watch k4 = w"
    unfolding runs_to_def by blast
  let ?pi = "pi\<lparr>p_thread := t, p_stopped := True\<rparr>"
  have "mywait (darwin_ops K) flag ?s1 = (Ret (CHR ''T'', signo), (set_cache a ?rc ?s0)\<lparr>kst := k4, current_thread := t,
      procs := (procs s)(p \<mapsto> ?pi), server_waiting := (if flag then False else server_waiting s)\<rparr>)" for flag
  proof -
    let ?s1w = "?s1\<lparr>server_waiting := flag \<or> server_waiting s\<rparr>"
    let ?stop = "(set_cache a ?rc ?s0)\<lparr>kst := k4, current_thread := t, procs := (procs s)(p \<mapsto> ?pi)\<rparr>"
    have pr1: "current_proc ?s1w p (pi\<lparr>p_stopped := False\<rparr>)"
      using current_proc_upd [of "(set_cache a ?rc ?s0)\<lparr>kst := k2\<rparr>" p pi "pi\<lparr>p_stopped := False\<rparr>"] pr by simp
    have "darwin_wait K ?s1w = (Ret (CHR ''T'', signo), ?s1w\<lparr>kst := k4, current_thread := t,
        procs := (procs ?s1w)(p \<mapsto> ?pi)\<rparr>)"
      using waited [OF pr1, of K "WStopped signo" k3 t rest k4] w(1,2) by (simp add: end_status_def)
    moreover have "?s1\<lparr>server_waiting := server_waiting s\<rparr> = ?s1" by (rule same_waiting) (simp add: set_cache_def)
    moreover have "?stop\<lparr>server_waiting := server_waiting s\<rparr> = ?stop" by (rule same_waiting) (simp add: set_cache_def)
    ultimately show ?thesis by (cases flag) (simp_all add: mywait_def prog_simps)
  qed
  with my w(3,4) show ?thesis unfolding unfetched_def by blast
qed

lemma run_reports:
  fixes s :: "('k, 'z) server_state_scheme"
  assumes ready: "session_ready s a p pi rc"
    and m: "resumes_as K m step sg (p_pid pi) (s\<lparr>current_inferior := Some a\<rparr>)"
    and run: "runs_to K regs fregs watch pi (current_task s) step sg (thread_regs regs fregs s pi rc, watch (kst s))
      signo t (after, w)"
    and stored: "\<And>r. preserves (\<lambda>s :: ('k, 'z) server_state_scheme. watch (kst s)) (darwin_store_registers K r)"
    and fetched: "\<And>th. preserves (\<lambda>s :: ('k, 'z) server_state_scheme. watch (kst s)) (kcall (k_get_state K th))"
      "\<And>th. preserves (\<lambda>s :: ('k, 'z) server_state_scheme. watch (kst s)) (kcall (k_get_float K th))"
    and tsig: "target_signal_from_host H (uint signo) = Ret ts" "0 \<le> ts" "ts < 256"
  shows "\<exists>u. seq_p (set_desired_inferior False) (seq_p m (wait_and_reply H (darwin_ops K))) s = (Ret (), u)
    \<and> cstr (own_buf u) 0 = stop_text ts after (p_pid pi)
    \<and> session_ready u a p (pi\<lparr>p_thread := t, p_stopped := True\<rparr>) (valid_cache after)
    \<and> connection_of u = (net s, no_ack_mode s, CHR ''T'') \<and> watch (kst u) = w
    \<and> ppc_image (regs (kst u) t) (fregs (kst u) t) = after
    \<and> kept_by_run u = kept_by_run s \<and> current_inferior u = Some a \<and> sig u = signo"
proof -
  let ?s0 = "s\<lparr>current_inferior := Some a\<rparr>"
  let ?rc = "rc\<lparr>registers_valid := False\<rparr>"
  let ?pi = "pi\<lparr>p_thread := t, p_stopped := True\<rparr>"
  from ready have rr: "resume_ready ?s0 a p pi rc" and tid: "id_at (entries s) a = p_pid pi"
    and ex: "gdbserver_expedite_regs s = expedite_regs_ppc" and ut: "using_threads s"
    by (simp_all add: session_ready_def)
  have wf: "wf_list (entries s) (all_threads s) [a]" and c: "ppc_cache ?s0 a rc" and pr: "current_proc ?s0 p pi"
    using rr by (simp_all add: resume_ready_def)
  have ob: "length (own_buf s) = 2000"
    using ready c by (simp add: session_ready_def PBUFSIZ_def registers_length_def ppc_cache_def)
  have "chosen_thread False s [a] = Some a"
    using chosen_thread_some [of "[a]" False s] chosen_thread_in [of False s "[a]"] by auto
  then have sel: "set_desired_inferior False s = (Ret (), ?s0)" using set_desired_inferior_eq [OF wf, of False] by simp
  obtain e where e: "entries s a = Some e" using wf_list_alloc [OF wf] by auto
  with tid have ide: "ent_id e = p_pid pi" by (simp add: id_at_def)
  from run_stops [OF ready m run stored] obtain s1 k4 where
    my: "m ?s0 = (Ret (), s1)"
    and mw: "\<forall>flag. mywait (darwin_ops K) flag s1 = (Ret (CHR ''T'', signo), (set_cache a ?rc ?s0)\<lparr>kst := k4,
        current_thread := t, procs := (procs s)(p \<mapsto> ?pi), server_waiting := (if flag then False else server_waiting s)\<rparr>)"
    and w: "ppc_image (regs k4 t) (fregs k4 t) = after" "watch k4 = w"
    by blast
  let ?s4 = "(set_cache a ?rc ?s0)\<lparr>kst := k4, current_thread := t, procs := (procs s)(p \<mapsto> ?pi), server_waiting := False,
    status := CHR ''T'', sig := signo\<rparr>"
  have wt: "mywait (darwin_ops K) True s1 = (Ret (CHR ''T'', signo), (set_cache a ?rc ?s0)\<lparr>kst := k4,
        current_thread := t, procs := (procs s)(p \<mapsto> ?pi), server_waiting := False\<rparr>)"
    using mw by simp
  have "length (registers ?rc) = 412" using ppc_cacheD(2) [OF c] by simp
  then have c4: "ppc_cache ?s4 a ?rc" using ppc_cache_set_cache [OF c, of ?rc k4] by simp
  have p4: "current_proc ?s4 p ?pi"
    using pr by (auto simp: current_proc_def set_cache_def)
  have f4: "gdbserver_expedite_regs ?s4 = expedite_regs_ppc" "using_threads ?s4" "entries ?s4 a = Some e"
      "length (own_buf ?s4) = 2000" "thread_regs regs fregs ?s4 ?pi ?rc = after"
    using ex ut e ob w(1) by (simp_all add: set_cache_def thread_regs_def)
  from stop_reply [OF c4 p4 f4(1-4) tsig] f4(5) obtain k b where
    u: "prepare_resume_reply H (darwin_ops K) CHR ''T'' signo ?s4 =
          (Ret (), replied (p_pid pi) b ((set_cache a (valid_cache after) ?s4)\<lparr>kst := k\<rparr>))"
      "cstr b 0 = ''T'' @ hex_byte (word_of_int ts) @ reg_text after 1 @ reg_text after 64
        @ ''thread:'' @ fmt_x (p_pid pi) @ '';''" "length b = length (own_buf s)"
    using ide by auto
  let ?u = "replied (p_pid pi) b ((set_cache a (valid_cache after) ?s4)\<lparr>kst := k\<rparr>)"
  have ready': "session_ready ?u a p ?pi (valid_cache after)"
    using ready c tid wf ex ut ob u(3) pr w(1)
    by (auto simp: session_ready_def resume_ready_def ppc_cache_def current_cache_def cache_at_def
        current_proc_def replied_def set_cache_def PBUFSIZ_def registers_length_def)
  have "preserves (\<lambda>s :: ('k, 'z) server_state_scheme. watch (kst s)) (prepare_resume_reply H (darwin_ops K) CHR ''T'' signo)"
    by (rule stop_observer.resume_reply, unfold_locales) (simp_all add: fetched)
  from preservesD [OF this u(1)] have wu: "watch (kst ?u) = w" using w(2) by simp
  have ru: "ppc_image (regs (kst ?u) t) (fregs (kst ?u) t) = after"
    using preservesD [OF registers_in_kernel.resume_reply u(1)] w(1) by (simp add: kernel_half_def)
  have mf: "kept_by_run ?u = kept_by_run s" "current_inferior ?u = Some a" "sig ?u = signo"
    by (simp_all add: kept_by_run_def replied_def set_cache_def)
  have conn: "connection_of ?u = (net s, no_ack_mode s, CHR ''T'')"
    by (simp add: connection_of_def replied_def set_cache_def)
  have "wait_and_reply H (darwin_ops K) s1 = (Ret (), ?u)"
    using u(1) by (simp add: wait_and_reply_def prog_simps wt)
  then have "seq_p (set_desired_inferior False) (seq_p m (wait_and_reply H (darwin_ops K))) s = (Ret (), ?u)"
    using sel my by (simp add: prog_simps)
  moreover have "cstr (own_buf ?u) 0 = stop_text ts after (p_pid pi)"
    using u(2) by (simp add: replied_def stop_text_def)
  ultimately show ?thesis using ready' conn wu ru mf by blast
qed

lemma run_ends:
  fixes s :: "('k, 'z) server_state_scheme"
  assumes ready: "session_ready s a p pi rc"
    and m: "resumes_as K m step sg (p_pid pi) (s\<lparr>current_inferior := Some a\<rparr>)"
    and run: "ends_to K regs fregs watch pi step sg (thread_regs regs fregs s pi rc, watch (kst s)) w"
    and stored: "\<And>r. preserves (\<lambda>s :: ('k, 'z) server_state_scheme. watch (kst s)) (darwin_store_registers K r)"
    and fin: "end_status w = Some (st, n)" and tsig: "target_signal_from_host H (uint n) = Ret ts" "0 \<le> ts" "ts < 256"
  shows "\<exists>u. seq_p (set_desired_inferior False) (seq_p m (wait_and_reply H (darwin_ops K))) s = (Ret (), u) \<and> cstr (own_buf u) 0 = end_text st ts
    \<and> connection_of u = (net s, no_ack_mode s, st) \<and> extended_protocol u = extended_protocol s
    \<and> PBUFSIZ u = 2000 \<and> length (own_buf u) = 2000
    \<and> (\<exists>k1 ret k2. ppc_image (regs k1 (p_thread pi)) (fregs k1 (p_thread pi)) = thread_regs regs fregs s pi rc
      \<and> watch k1 = watch (kst s) \<and> wait_loop K (p_pid pi) k2 = Some (WaitDone w, kst u)
      \<and> k_ptrace K (if step then PT_STEP else PT_CONTINUE) (p_pid pi) 1 (word_of_int sg) k1 = (ret, k2))"
proof -
  let ?s0 = "s\<lparr>current_inferior := Some a\<rparr>" and ?rc = "rc\<lparr>registers_valid := False\<rparr>"
  from ready have wf: "wf_list (entries s) (all_threads s) [a]" and pr: "current_proc ?s0 p pi" and c: "ppc_cache ?s0 a rc"
    by (simp_all add: session_ready_def resume_ready_def)
  have size: "register_bytes s = 412" "length (own_buf s) = 2000"
    using ready c by (simp_all add: session_ready_def PBUFSIZ_def registers_length_def ppc_cache_def)
  have "chosen_thread False s [a] = Some a"
    using chosen_thread_some [of "[a]" False s] chosen_thread_in [of False s "[a]"] by auto
  then have sel: "set_desired_inferior False s = (Ret (), ?s0)" using set_desired_inferior_eq [OF wf, of False] by simp
  from run_resumes [OF ready m] obtain k1 ret k2 where
    inv: "regcache_invalidate (darwin_store_registers K) ?s0 = (Ret (), (set_cache a ?rc ?s0)\<lparr>kst := k1\<rparr>)"
    and k: "ppc_image (regs k1 (p_thread pi)) (fregs k1 (p_thread pi)) = thread_regs regs fregs s pi rc"
      "k_ptrace K (if step then PT_STEP else PT_CONTINUE) (p_pid pi) 1 (word_of_int sg) k1 = (ret, k2)"
    and my: "m ?s0 = (Ret (), (set_cache a ?rc ?s0)
        \<lparr>kst := k2, procs := (procs s)(p \<mapsto> pi\<lparr>p_stopped := False\<rparr>)\<rparr>)"
    by blast
  let ?s1 = "(set_cache a ?rc ?s0)\<lparr>kst := k2, procs := (procs s)(p \<mapsto> pi\<lparr>p_stopped := False\<rparr>)\<rparr>"
  let ?s1w = "?s1\<lparr>server_waiting := True\<rparr>"
  have wk: "watch k1 = watch (kst s)"
    using preservesD [OF preserves_invalidate [OF stored] inv] by simp
  with run k obtain k3 where w: "wait_loop K (p_pid pi) k2 = Some (WaitDone w, k3)"
    unfolding ends_to_def by blast
  have pr1: "current_proc ?s1w p (pi\<lparr>p_stopped := False\<rparr>)"
    using current_proc_upd [of "(set_cache a ?rc ?s0)\<lparr>kst := k2\<rparr>" p pi "pi\<lparr>p_stopped := False\<rparr>"] pr by simp
  have "darwin_wait K ?s1w = (Ret (st, n), ?s1w\<lparr>kst := k3\<rparr>)"
    using waited_end [OF pr1, of K w k3] w fin by simp
  then have "mywait (darwin_ops K) True ?s1 = (Ret (st, n), ?s1w\<lparr>kst := k3, server_waiting := False\<rparr>)"
    by (simp add: mywait_def prog_simps)
  then obtain v where v: "mywait (darwin_ops K) True ?s1 = (Ret (st, n), v)" "own_buf v = own_buf s" "net v = net s"
      "no_ack_mode v = no_ack_mode s" "extended_protocol v = extended_protocol s" "register_bytes v = register_bytes s"
      "kst v = k3"
    by (simp add: set_cache_def)
  let ?v = "v\<lparr>status := st, sig := n\<rparr>"
  have st: "st \<noteq> CHR ''T''" "st \<noteq> NUL" using fin by (auto simp: end_status_def NUL_def split: wait_status.splits)
  obtain b where b: "prepare_resume_reply H (darwin_ops K) st n ?v = (Ret (), ?v\<lparr>own_buf := b\<rparr>)" "cstr b 0 = end_text st ts" "length b = 2000"
    using end_reply [of ?v st H n ts "darwin_ops K"] v(2) size(2) st tsig by auto
  have "wait_and_reply H (darwin_ops K) ?s1 = (Ret (), ?v\<lparr>own_buf := b\<rparr>)"
    using b(1) v(1) by (simp add: wait_and_reply_def prog_simps)
  then have "seq_p (set_desired_inferior False) (seq_p m (wait_and_reply H (darwin_ops K))) s = (Ret (), ?v\<lparr>own_buf := b\<rparr>)"
    using sel my by (simp add: prog_simps)
  moreover have "\<exists>k1 ret k2. ppc_image (regs k1 (p_thread pi)) (fregs k1 (p_thread pi)) = thread_regs regs fregs s pi rc
      \<and> watch k1 = watch (kst s) \<and> wait_loop K (p_pid pi) k2 = Some (WaitDone w, kst v)
      \<and> k_ptrace K (if step then PT_STEP else PT_CONTINUE) (p_pid pi) 1 (word_of_int sg) k1 = (ret, k2)"
    using k wk w v(7) by blast
  ultimately show ?thesis using b(2,3) v(1-6) size(1)
    by (intro exI [of _ "?v\<lparr>own_buf := b\<rparr>"]) (simp add: connection_of_def PBUFSIZ_def registers_length_def)
qed

end

subsection \<open>The properties\<close>

lemma demo_session_ready:
  assumes "length pkt < 2000" and "length (registers rc) = 412"
  shows "session_ready (demo_server rc pkt) 1 0 demo_proc rc"
proof -
  let ?t = "demo_server rc pkt"
  have "wf_list (entries ?t) (all_threads ?t) [1]" by (rule demo_threads)
  moreover have "ppc_cache (?t\<lparr>current_inferior := Some 1\<rparr>) 1 rc"
    using reg_readyD(2) [OF demo_reg_ready [OF assms]] .
  moreover have "current_proc (?t\<lparr>current_inferior := Some 1\<rparr>) 0 demo_proc"
    by (simp add: current_proc_def demo_server_def)
  moreover have "length (own_buf ?t) = PBUFSIZ ?t" using demo_reg_ready [OF assms] by (simp add: reg_ready_def)
  ultimately show ?thesis
    by (simp add: session_ready_def resume_ready_def) (simp add: demo_server_def id_at_def demo_proc_def)
qed

lemma select_resume_find:
  "find (\<lambda>r. tr_thread r = pid \<or> tr_thread r = - 1) info = Some r \<Longrightarrow> select_resume pid info = Ret (tr_step r, tr_sig r)"
  by (induction info) (auto split: if_splits)

text \<open>
  C14: \<^verbatim>\<open>darwin_resume\<close> does what the first entry for the process, or for all others, asks for when this
  says to run it: it hands the thread's registers, as the client left them, to the kernel before it
  continues or steps the process with \<^verbatim>\<open>ptrace\<close>, passes on the entry's signal, and leaves the
  register cache invalid, so that the next request fetches the registers anew.
\<close>

theorem resume_hands_over_registers:
  assumes "kernel_registers K regs fregs" and "resume_ready s a p pi rc"
    and "find (\<lambda>r. tr_thread r = p_pid pi \<or> tr_thread r = - 1) info = Some r" and "\<not> leave_stopped r"
  shows "\<exists>k1 ret k2. regcache_invalidate (darwin_store_registers K) s =
        (Ret (), (set_cache a (rc\<lparr>registers_valid := False\<rparr>) s)\<lparr>kst := k1\<rparr>)
    \<and> ppc_image (regs k1 (p_thread pi)) (fregs k1 (p_thread pi)) = thread_regs regs fregs s pi rc
    \<and> k_ptrace K (if tr_step r then PT_STEP else PT_CONTINUE) (p_pid pi) 1 (word_of_int (tr_sig r)) k1 = (ret, k2)
    \<and> darwin_resume K info s = (Ret (), (set_cache a (rc\<lparr>registers_valid := False\<rparr>) s)
        \<lparr>kst := k2, procs := (procs s)(p \<mapsto> pi\<lparr>p_stopped := False\<rparr>)\<rparr>)"
  by (rule kernel_registers.resumed [OF assms(1,2) select_resume_find [OF assms(3)]])

theorem resume_hands_over_registers_witness:
  "\<exists>k1 k2. ppc_image (fl_regs k1 9) (fl_fregs k1 9) = replicate 412 0
    \<and> k_ptrace flat_kernel PT_STEP 100 1 7 k1 = ((0, 0), k2)
    \<and> fst (darwin_resume flat_kernel [\<lparr>tr_thread = 100, leave_stopped = False, tr_step = True, tr_sig = 7\<rparr>]
        (demo_server (demo_cache True) [])) = Ret ()"
proof -
  let ?s = "demo_server (demo_cache True) []"
  have "?s\<lparr>current_inferior := Some 1\<rparr> = ?s" by (simp add: demo_server_def)
  then have "resume_ready ?s 1 0 demo_proc (demo_cache True)"
    using demo_session_ready [of "[]" "demo_cache True"] by (simp add: session_ready_def)
  from resume_hands_over_registers [OF flat_regs.kernel_registers_axioms this,
      of "[\<lparr>tr_thread = 100, leave_stopped = False, tr_step = True, tr_sig = 7\<rparr>]"]
  show ?thesis
    by (auto simp: demo_proc_def thread_regs_def demo_cache_def flat_kernel_def)
qed

text \<open>
  C26: \<^verbatim>\<open>darwin_wait\<close> returns whatever number of interruptions (\<^verbatim>\<open>EINTR\<close>) come first, and reports the
  end or the stop of the process with its status letter and code.  After a stop it has looked up the
  process's first thread again and marked the process as stopped; when the process has ended it asks nothing
  about its task.
\<close>

theorem wait_reports_after_interrupts:
  assumes "current_proc s p pi" and "ks 0 = kst s"
    and "\<And>i. i < n \<Longrightarrow> k_waitpid K (p_pid pi) (ks i) = (WaitFailed EINTR, ks (Suc i))"
    and "k_waitpid K (p_pid pi) (ks n) = (WaitDone w, k)"
    and "w \<notin> range WExited \<union> range WSignaled \<Longrightarrow> k_task_threads K (current_task s) k = (Some (t # ts), k')"
  shows "darwin_wait K s = (case w of
      WExited c \<Rightarrow> (Ret (CHR ''W'', c), s\<lparr>kst := k\<rparr>)
    | WSignaled sg \<Rightarrow> (Ret (CHR ''X'', sg), s\<lparr>kst := k\<rparr>)
    | _ \<Rightarrow> (Ret (case w of WStopped sg \<Rightarrow> (CHR ''T'', sg) | _ \<Rightarrow> (CHR ''?'', 0)), s\<lparr>kst := k',
        current_thread := t, procs := (procs s)(p \<mapsto> pi\<lparr>p_thread := t, p_stopped := True\<rparr>)\<rparr>))"
proof (rule waited [OF assms(1)])
  show "end_status w = None \<Longrightarrow> k_task_threads K (current_task s) k = (Some (t # ts), k')"
    using assms(5) by (auto simp: end_status_def split: wait_status.splits)
  show "wait_loop K (p_pid pi) (kst s) = Some (WaitDone w, k)"
    using wait_loop_interrupted [of n K "p_pid pi" ks, OF assms(3,4)] assms(2) by simp
qed

definition dead_kernel :: "flat kernel" where
  \<comment> \<open>the small kernel when it no longer lists threads\<close>
  "dead_kernel = flat_kernel\<lparr>k_task_threads := \<lambda>task k. (None, k)\<rparr>"

theorem wait_reports_after_interrupts_witness:
  "fst (darwin_wait flat_kernel (demo_server (demo_cache True) [])) = Ret (CHR ''T'', 5)
  \<and> fst (darwin_wait dead_kernel ((demo_server (demo_cache True) [])
      \<lparr>kst := demo_kernel_state [WaitFailed EINTR, WaitDone (WExited 3)]\<rparr>)) = Ret (CHR ''W'', 3)
  \<and> fst (darwin_wait dead_kernel ((demo_server (demo_cache True) [])
      \<lparr>kst := demo_kernel_state [WaitFailed EINTR, WaitDone (WSignaled 9)]\<rparr>)) = Ret (CHR ''X'', 9)"
proof -
  let ?s = "\<lambda>w. (demo_server (demo_cache True) [])\<lparr>kst := demo_kernel_state [WaitFailed EINTR, WaitDone w]\<rparr>"
  let ?ks = "\<lambda>w i. demo_kernel_state (drop i [WaitFailed EINTR, WaitDone w])"
  have pr: "current_proc (?s w) 0 demo_proc" for w by (simp add: current_proc_def demo_server_def)
  have "?s (WStopped 5) = demo_server (demo_cache True) []" by (simp add: demo_server_def)
  then have "fst (darwin_wait flat_kernel (demo_server (demo_cache True) [])) = Ret (CHR ''T'', 5)"
    using wait_reports_after_interrupts [OF pr, of "?ks (WStopped 5)" "WStopped 5" 1 flat_kernel "WStopped 5"
      "demo_kernel_state []" 9 "[]" "demo_kernel_state []"]
    by (simp add: demo_server_def flat_kernel_def demo_kernel_state_def)
  moreover have "fst (darwin_wait dead_kernel (?s (WExited 3))) = Ret (CHR ''W'', 3)"
    using wait_reports_after_interrupts [OF pr, of "?ks (WExited 3)" "WExited 3" 1 dead_kernel "WExited 3"
      "demo_kernel_state []"]
    by (simp add: demo_server_def dead_kernel_def flat_kernel_def demo_kernel_state_def)
  moreover have "fst (darwin_wait dead_kernel (?s (WSignaled 9))) = Ret (CHR ''X'', 9)"
    using wait_reports_after_interrupts [OF pr, of "?ks (WSignaled 9)" "WSignaled 9" 1 dead_kernel "WSignaled 9"
      "demo_kernel_state []"]
    by (simp add: demo_server_def dead_kernel_def flat_kernel_def demo_kernel_state_def)
  ultimately show ?thesis by blast
qed

text \<open>
  The stop reply is the letter T, the two digits of the protocol's signal number, the registers
  r1 and pc with their numbers 01 and 40, and the thread, which becomes the general thread; the
  registers are those of the cache, or the kernel's where it is not valid.
\<close>

theorem stop_reply_text:
  assumes "kernel_registers K regs fregs" and "session_ready s a p pi rc" and "current_inferior s = Some a"
    and "target_signal_from_host H (uint signo) = Ret ts" and "0 \<le> ts" and "ts < 256"
  shows "\<exists>t. prepare_resume_reply H (darwin_ops K) CHR ''T'' signo s = (Ret (), t)
    \<and> cstr (own_buf t) 0 = ''T'' @ hex_byte (word_of_int ts) @ reg_text (thread_regs regs fregs s pi rc) 1
        @ reg_text (thread_regs regs fregs s pi rc) 64 @ ''thread:'' @ fmt_x (p_pid pi) @ '';''
    \<and> general_thread t = p_pid pi"
proof -
  have same: "s\<lparr>current_inferior := Some a\<rparr> = s" using assms(3) by (cases s) simp
  with assms(2) have r: "resume_ready s a p pi rc" and rest: "id_at (entries s) a = p_pid pi" "using_threads s"
      "gdbserver_expedite_regs s = expedite_regs_ppc" "length (own_buf s) = PBUFSIZ s"
    by (simp_all add: session_ready_def)
  then have wf: "wf_list (entries s) (all_threads s) [a]" and c: "ppc_cache s a rc" and p: "current_proc s p pi"
    by (simp_all add: resume_ready_def)
  obtain e where e: "entries s a = Some e" using wf_list_alloc [OF wf] by auto
  have "length (own_buf s) = 2000" using rest(4) c by (simp add: PBUFSIZ_def registers_length_def ppc_cache_def)
  moreover have "ent_id e = p_pid pi" using rest(1) e by (simp add: id_at_def)
  ultimately show ?thesis
    using kernel_registers.stop_reply [OF assms(1) c p rest(3,2) e _ assms(4-6)] by (auto simp: replied_def)
qed

lemma darwin_signal:
  assumes "switch_host darwin_host to_host_rows t = Some h" and "h \<noteq> 0"
  shows "target_signal_from_host darwin_host h = Ret t"
proof -
  have "first_host darwin_host from_host_rows h = Some t" using assms(1) first_iff_switch [OF darwin_coherent] by simp
  then show ?thesis using assms(2) by (simp add: target_signal_from_host_def)
qed

lemma darwin_trap: "target_signal_from_host darwin_host 5 = Ret 5"
  by (rule darwin_signal, simp add: to_host_tables host_value_darwin, simp_all add: darwin_host_def)

theorem stop_reply_text_witness:
  "\<exists>t. prepare_resume_reply darwin_host (darwin_ops flat_kernel) CHR ''T'' 5
      (demo_server (demo_cache False) ''?'') = (Ret (), t)
    \<and> cstr (own_buf t) 0 = ''T'' @ hex_byte 5 @ reg_text (ppc_image demo_regs demo_fregs) 1
        @ reg_text (ppc_image demo_regs demo_fregs) 64 @ ''thread:'' @ fmt_x 100 @ '';''"
proof -
  let ?s = "demo_server (demo_cache False) ''?''"
  have r: "session_ready ?s 1 0 demo_proc (demo_cache False)" by (rule demo_session_ready) simp_all
  have i: "current_inferior ?s = Some 1" and sg: "target_signal_from_host darwin_host (uint (5 :: byte)) = Ret 5"
    using darwin_trap by (simp_all add: demo_server_def)
  have "thread_regs fl_regs fl_fregs ?s demo_proc (demo_cache False) = ppc_image demo_regs demo_fregs"
    by (simp add: thread_regs_def demo_server_def demo_kernel_state_def demo_cache_def)
  moreover have "p_pid demo_proc = 100" by (simp add: demo_proc_def)
  ultimately show ?thesis
    using stop_reply_text [OF flat_regs.kernel_registers_axioms r i sg] by fastforce
qed

end
