(* ===== verification/SessionProps.thy ===== *)
theory SessionProps
  imports ResumeProps
begin

section \<open>Properties of whole sessions\<close>

text \<open>
  What every handler leaves alone, on the Darwin target: no handler but \<^verbatim>\<open>handle_D_detach\<close> touches the
  connection, and none ever sets \<^verbatim>\<open>extended_protocol\<close>.  From this follow the end of every session and that
  it leaves this flag alone.
\<close>

subsection \<open>Rules\<close>

lemma preserves_wait_result [preserves_intros]:
  "(\<And>e. preserves f (g e)) \<Longrightarrow> (\<And>w. preserves f (h w)) \<Longrightarrow>
     preserves f (case x of WaitFailed e \<Rightarrow> g e | WaitDone w \<Rightarrow> h w)"
  by (cases x) auto

lemma preserves_wait_status [preserves_intros]:
  "(\<And>e. preserves f (g e)) \<Longrightarrow> (\<And>e. preserves f (h e)) \<Longrightarrow> (\<And>e. preserves f (i e)) \<Longrightarrow> preserves f m \<Longrightarrow>
     preserves f (case x of WExited e \<Rightarrow> g e | WSignaled e \<Rightarrow> h e | WStopped e \<Rightarrow> i e | WOther \<Rightarrow> m)"
  by (cases x) auto

definition obs :: "('k, 'z) server_state_scheme \<Rightarrow> bool \<times> net" where
  "obs s = (extended_protocol s, net s)"

lemma obs_frame [simp]:
  "obs (s\<lparr>kst := k\<rparr>) = obs s" "obs (s\<lparr>threads := th\<rparr>) = obs s" "obs (s\<lparr>entries := h\<rparr>) = obs s"
  "obs (s\<lparr>current_inferior := i\<rparr>) = obs s" "obs (s\<lparr>all_threads := l\<rparr>) = obs s"
  "obs (s\<lparr>heap_brk := b\<rparr>) = obs s" "obs (s\<lparr>procs := q\<rparr>) = obs s" "obs (s\<lparr>all_processes := l\<rparr>) = obs s"
  "obs (s\<lparr>current_task := n\<rparr>) = obs s" "obs (s\<lparr>current_thread := n\<rparr>) = obs s"
  "obs (s\<lparr>breakpoints := bps\<rparr>) = obs s" "obs (s\<lparr>bp_brk := b\<rparr>) = obs s"
  "obs (s\<lparr>cont_thread := z\<rparr>) = obs s"
  "obs (s\<lparr>general_thread := z\<rparr>) = obs s" "obs (s\<lparr>step_thread := z\<rparr>) = obs s"
  "obs (s\<lparr>thread_from_wait := z\<rparr>) = obs s" "obs (s\<lparr>old_thread_from_wait := z\<rparr>) = obs s"
  "obs (s\<lparr>server_waiting := w\<rparr>) = obs s" "obs (s\<lparr>status := st\<rparr>) = obs s" "obs (s\<lparr>sig := sg\<rparr>) = obs s"
  "obs (s\<lparr>signal_pid := z\<rparr>) = obs s" "obs (s\<lparr>thread_ptr := i\<rparr>) = obs s" "obs (s\<lparr>no_ack_mode := w\<rparr>) = obs s"
  "obs (s\<lparr>no_ack_mode_pending := w\<rparr>) = obs s" "obs (s\<lparr>remote_debug := w\<rparr>) = obs s"
  by (simp_all add: obs_def)

interpretation conn_mem: memory_observer obs K for K :: "'k kernel"
  by unfold_locales (simp_all add: obs_def preserves_def kcall_def split: prod.splits)

interpretation conn_regs: stop_observer obs K for K :: "'k kernel"
  by unfold_locales (simp_all add: obs_def preserves_def kcall_def split: prod.splits)

lemma preserves_add_thread [preserves_intros]: "preserves obs (add_thread i d)"
  by (auto simp: preserves_def add_thread_def Let_def split: outcome.split prod.split)

lemma preserves_free_one [preserves_intros]: "preserves obs (free_one_thread p)"
  by (auto simp: preserves_def free_one_thread_def split: option.split)

lemma preserves_clear [preserves_intros]: "preserves obs clear_inferiors"
  unfolding clear_inferiors_def by (intro preserves_intros | simp)+

lemma preserves_add_process [preserves_intros]: "preserves obs (add_process pid)"
  by (auto simp: preserves_def add_process_def add_thread_def Let_def split: outcome.split prod.split)

lemma preserves_upd_proc [preserves_intros]: "preserves obs (upd_proc p g)"
  unfolding upd_proc_def by (intro preserves_intros | simp)+

lemmas process_defs = darwin_task_for_pid_def darwin_get_first_thread_def current_process_def
  get_thread_process_def inferior_target_data_def deref_thread_def

lemma preserves_process:
  "preserves obs (darwin_create_inferior K prg args)" "preserves obs (darwin_attach K pid)"
  "preserves obs (darwin_kill K)" "preserves obs (darwin_detach K)" "preserves obs (darwin_thread_alive K pid)"
  "preserves obs (darwin_send_signal K n)" "preserves obs (darwin_wait K)"
  unfolding darwin_create_inferior_def darwin_attach_def darwin_kill_def darwin_detach_def
    darwin_thread_alive_def darwin_send_signal_def darwin_wait_def process_defs
  by (intro preserves_intros | simp)+

lemma preserves_registers:
  "preserves obs (darwin_fetch_registers K r)" "preserves obs (darwin_store_registers K r)"
  "preserves obs (regcache_invalidate_one (darwin_store_registers K) a)"
  by (rule conn_regs.fetch, rule preserves_store, simp_all, rule preserves_invalidate_one, simp_all)

lemma preserves_resume: "preserves obs (darwin_resume K info)"
  unfolding darwin_resume_def regcache_invalidate_def process_defs
  by (intro preserves_intros preserves_registers | simp)+

lemmas preserves_ops = preserves_process preserves_registers preserves_resume conn_mem.darwin_memory

lemma darwin_ops_fields [simp]:
  "create_inferior (darwin_ops K) = darwin_create_inferior K" "t_attach (darwin_ops K) = darwin_attach K"
  "t_kill (darwin_ops K) = darwin_kill K" "t_detach (darwin_ops K) = darwin_detach K"
  "thread_alive (darwin_ops K) = darwin_thread_alive K" "send_signal (darwin_ops K) = darwin_send_signal K"
  "fetch_registers (darwin_ops K) = darwin_fetch_registers K" "look_up_symbols (darwin_ops K) = None"
  "read_auxv (darwin_ops K) = None"
  by (simp_all add: darwin_ops_def)

subsection \<open>The handlers\<close>

lemmas preserves_replies = conn_mem.replies preserves_checks(2)

lemma preserves_entry_at [preserves_intros]: "preserves obs (entry_at p)"
  unfolding entry_at_def by (intro preserves_intros)

lemma preserves_mywait [preserves_intros]: "preserves obs (mywait (darwin_ops K) c)"
  unfolding mywait_def by (intro preserves_intros preserves_ops | simp)+

lemma preserves_wait_and_reply [preserves_intros]: "preserves obs (wait_and_reply H (darwin_ops K))"
  unfolding wait_and_reply_def by (intro preserves_intros | simp)+

lemma preserves_myresume [preserves_intros]: "preserves obs (myresume (darwin_ops K) step sg)"
  unfolding myresume_def by (intro preserves_intros preserves_ops | simp)+

lemma preserves_handlers:
  "preserves obs (handle_query (darwin_ops K))" "preserves obs handle_set" "preserves obs handle_d_toggle_debug"
  "preserves obs (handle_question H (darwin_ops K))" "preserves obs handle_H_set_thread"
  "preserves obs (handle_g_read_regs (darwin_ops K))" "preserves obs (handle_G_write_regs (darwin_ops K))"
  "preserves obs (handle_p_read_reg (darwin_ops K))" "preserves obs handle_P_write_reg"
  "preserves obs (handle_m_read_mem (darwin_ops K))" "preserves obs (handle_M_write_mem (darwin_ops K))"
  "preserves obs (resume_and_wait H (darwin_ops K) step sg)" "preserves obs (handle_CS_signal H (darwin_ops K) step)"
  "preserves obs (handle_T_thread_alive (darwin_ops K))" "preserves obs (handle_v_requests H (darwin_ops K))"
  "preserves obs (handle_Z_insert_bp (darwin_ops K))" "preserves obs (handle_z_remove_bp (darwin_ops K))"
  unfolding handle_query_def handle_set_def handle_d_toggle_debug_def handle_question_def
    handle_H_set_thread_def handle_g_read_regs_def handle_G_write_regs_def handle_p_read_reg_def
    handle_P_write_reg_def handle_m_read_mem_def handle_M_write_mem_def handle_CS_signal_def
    resume_and_wait_def handle_T_thread_alive_def handle_v_requests_def handle_v_cont_def
    handle_Z_insert_bp_def handle_z_remove_bp_def thread_info_reply_def darwin_ops_fields option.case
  by (intro preserves_intros preserves_ops | simp)+

lemma preserves_restarts:
  "preserves obs (start_inferior (darwin_ops K) argv)" "preserves obs (handle_k_kill (darwin_ops K) argv)"
  "preserves obs (handle_R_restart (darwin_ops K) argv)"
  "preserves obs (handle_terminated_inferior (darwin_ops K) argv)"
  unfolding start_inferior_def handle_k_kill_def handle_R_restart_def handle_terminated_inferior_def
  by (intro preserves_intros preserves_ops | simp)+

subsection \<open>Packets out and in\<close>

lemma preserves_from_obs:
  "preserves obs m \<Longrightarrow> preserves extended_protocol m" "preserves obs m \<Longrightarrow> preserves net m"
  by (simp_all add: preserves_def obs_def)

lemma preserves_putpkt_loop:
  assumes "\<And>n. preserves f (send n)"
  shows "preserves f (putpkt_loop send no_ack b nt)"
proof (induction nt rule: measure_induct_rule [where f = pending])
  case (less nt)
  obtain n nt1 where w: "sock_write b nt = (n, nt1)" by fastforce
  obtain cc d nt2 where r: "sock_read 1 nt1 = (cc, d, nt2)" by (metis prod_cases3)
  have "preserves f (putpkt_loop send no_ack b nt2)" if "d \<noteq> []"
    using less putpkt_turn_pending [OF w r that] by blast
  then show ?case
    by (subst putpkt_loop.simps) (auto simp: w r [simplified] intro!: preserves_intros assms)
qed

lemma putpkt_loop_pending:
  "putpkt_loop send no_ack b nt s = (Ret (x, nt'), t) \<Longrightarrow> pending nt' \<le> pending nt"
proof (induction nt arbitrary: s rule: measure_induct_rule [where f = pending])
  case (less nt)
  obtain n nt1 where w: "sock_write b nt = (n, nt1)" by fastforce
  obtain cc d nt2 where r: "sock_read 1 nt1 = (cc, d, nt2)" by (metis prod_cases3)
  have w': "pending nt1 = pending nt" using sock_write_fields(1) [of b nt] w by simp
  have r': "pending nt2 \<le> pending nt1"
    using r by (auto simp: sock_read_def pending_def split: list.splits rx_event.splits)
  have "pending nt' \<le> pending nt" if "d \<noteq> []" "putpkt_loop send no_ack b nt2 s' = (Ret (x, nt'), t)" for s'
    using less.IH [OF putpkt_turn_pending [OF w r that(1)] that(2)] putpkt_turn_pending [OF w r that(1)] by simp
  with less.prems w w' r r' show ?case
    by (subst (asm) putpkt_loop.simps) (auto simp: bind_p_Ret_iff split: if_splits)
qed

lemma putpkt_loop_net:
  "preserves (net :: ('k, 'z) server_state_scheme \<Rightarrow> net) (putpkt_loop (darwin_send_signal K) no_ack b nt)"
  by (rule preserves_putpkt_loop, rule preserves_from_obs(2), rule preserves_ops)

lemma putpkt_effect:
  fixes s :: "('k, 'z) server_state_scheme"
  shows "preserves extended_protocol (putpkt (darwin_ops K))"
  and "pending (net (snd (putpkt (darwin_ops K) s))) \<le> pending (net s)"
proof -
  have send: "preserves obs (darwin_send_signal K n)" for n by (rule preserves_ops)
  show "preserves extended_protocol (putpkt (darwin_ops K))"
    unfolding putpkt_def putpkt_string_def darwin_ops_fields
    by (intro preserves_intros preserves_putpkt_loop preserves_from_obs(1) send | simp)+
  let ?str = "cstr (own_buf s) 0"
  let ?loop = "putpkt_loop (darwin_send_signal K) (no_ack_mode s) (frame ?str) (net s)"
  obtain r t where rt: "?loop s = (r, t)" by (cases "?loop s")
  have "net t = net s" using putpkt_loop_net [THEN preservesD, OF rt] .
  moreover have "pending nt' \<le> pending (net s)" if "r = Ret (x, nt')" for x nt'
    using putpkt_loop_pending [OF rt [unfolded that]] .
  ultimately show "pending (net (snd (putpkt (darwin_ops K) s))) \<le> pending (net s)"
    using rt by (cases r) (auto simp: putpkt_def packet_def putpkt_string_def bind_p_def)
qed

lemma getpkt_loop_pending:
  assumes "getpkt_loop buf nt = (r, b, nt')" and "(\<exists>n. r = Ret n \<and> 0 \<le> n) \<or> (\<exists>e. r = Err e)"
  shows "pending nt' < pending nt"
  using assms(1)
proof (induction nt arbitrary: buf rule: measure_induct_rule [where f = pending])
  case (less nt)
  obtain ok nt1 where s: "scan_start nt = (ok, nt1)" by fastforce
  show ?case
  proof (cases ok)
    case False then show ?thesis using less.prems assms(2) s by (subst (asm) getpkt_loop.simps) auto
  next
    case True
    obtain bd buf1 nt2 where rb: "read_body buf 0 0 nt1 = (bd, buf1, nt2)" by (metis prod_cases3)
    obtain d1 nt3 where c1: "readchar nt2 = (d1, nt3)" by fastforce
    obtain d2 nt4 where c2: "readchar nt3 = (d2, nt4)" by fastforce
    show ?thesis
    proof (cases bd)
      case (Body_end n csum)
      have turn: "pending nt4 < pending nt" using s rb c1 c2 True Body_end by (auto intro: getpkt_turn_pending)
      have "pending nt2 < pending nt"
        using scan_start_pending [of nt nt1] read_body_pending [of buf 0 0 nt1 n csum buf1 nt2] s rb True Body_end
        by auto
      then have lt3: "pending nt3 < pending nt" using readchar_pending_le [of nt2] c1 by simp
      let ?nt5 = "snd (sock_write ''-'' nt4)"
      have "pending ?nt5 < pending nt" using turn by simp
      then have "pending nt' < pending nt" if "getpkt_loop (buf1[n := NUL]) ?nt5 = (r, b, nt')"
        using less.IH [OF \<open>pending ?nt5 < pending nt\<close> that] by simp
      then show ?thesis
        using less.prems assms(2) s True rb Body_end c1 c2 turn lt3
        by (subst (asm) getpkt_loop.simps) (auto simp: Let_def split: if_splits outcome.splits)
    qed (use less.prems assms(2) s True rb in \<open>(subst (asm) getpkt_loop.simps, auto)+\<close>)
  qed
qed

lemma getpkt_own_effect:
  assumes "getpkt_own s = (r, t)"
  shows "extended_protocol t = extended_protocol s"
    and "(\<exists>n. r = Ret n \<and> 0 \<le> n) \<or> (\<exists>e. r = Err e) \<Longrightarrow> pending (net t) < pending (net s)"
proof -
  obtain q b nt where g: "getpkt_loop (own_buf s) (net s) = (q, b, nt)" by (metis prod_cases3)
  show "extended_protocol t = extended_protocol s"
    using assms by (auto simp: getpkt_own_def split: prod.splits outcome.splits if_splits)
  have "r = q" "pending (net t) = pending nt"
    using assms g by (auto simp: getpkt_own_def getpkt_def split: outcome.splits if_splits prod.splits)
  then show "(\<exists>n. r = Ret n \<and> 0 \<le> n) \<or> (\<exists>e. r = Err e) \<Longrightarrow> pending (net t) < pending (net s)"
    using getpkt_loop_pending [OF g] by simp
qed

subsection \<open>One turn of the loop\<close>

definition no_gain :: "(('k, 'z) server_state_scheme, 'a) prog \<Rightarrow> bool" where
  \<comment> \<open>unless it quits, the program leaves no more input pending than it found\<close>
  "no_gain m \<longleftrightarrow> (\<forall>s. (\<forall>n. fst (m s) \<noteq> Quit n) \<longrightarrow> pending (net (snd (m s))) \<le> pending (net s))"

lemma no_gain_preserves: "preserves obs m \<Longrightarrow> no_gain m"
  by (auto simp: no_gain_def preserves_def obs_def)

lemma no_gain_bind:
  assumes "no_gain m" and "\<And>a. no_gain (g a)"
  shows "no_gain (bind_p m g)"
  unfolding no_gain_def
proof (intro allI impI)
  fix s assume q: "\<forall>n. fst (bind_p m g s) \<noteq> Quit n"
  obtain r t where rt: "m s = (r, t)" by fastforce
  show "pending (net (snd (bind_p m g s))) \<le> pending (net s)"
  proof (cases r)
    case (Ret a)
    have "pending (net (snd (g a t))) \<le> pending (net t)"
      using assms(2) q rt Ret by (simp add: no_gain_def bind_p_def)
    moreover have "pending (net (snd (m s))) \<le> pending (net s)"
      using assms(1) [unfolded no_gain_def, rule_format, of s] rt Ret by simp
    ultimately show ?thesis using rt Ret by (simp add: bind_p_def)
  qed (use assms(1) q rt in \<open>auto simp: no_gain_def bind_p_def dest!: spec [of _ s]\<close>)
qed

lemma no_gain_quit: "no_gain (exit_p n)" "no_gain (putpkt (darwin_ops K))"
  using putpkt_effect(2) by (auto simp: no_gain_def)

lemma no_gain_if: "(b \<Longrightarrow> no_gain m) \<Longrightarrow> (\<not> b \<Longrightarrow> no_gain n) \<Longrightarrow> no_gain (if b then m else n)"
  by simp

lemmas no_gain_handlers = preserves_handlers [THEN no_gain_preserves]
  preserves_restarts [THEN no_gain_preserves] preserves_replies [THEN no_gain_preserves]
  preserves_basic [THEN no_gain_preserves]

lemma packet_no_gain: "no_gain (handle_packet K H (darwin_ops K) argv)"
proof -
  have "no_gain (handle_D_detach K (darwin_ops K))"
    unfolding handle_D_detach_def seq_p_def
    by (intro no_gain_bind no_gain_quit no_gain_preserves)
      (intro preserves_intros preserves_ops | simp add: remote_close_def preserves_intros)+
  then show ?thesis
    unfolding handle_packet_def Let_def seq_p_def
    by (intro no_gain_bind no_gain_if no_gain_handlers)
qed

lemma ext_handlers:
  "preserves extended_protocol (handle_packet K H (darwin_ops K) argv)"
proof -
  have "preserves extended_protocol (handle_D_detach K (darwin_ops K))"
    unfolding handle_D_detach_def remote_close_def
    by (intro preserves_intros putpkt_effect(1) preserves_replies [THEN preserves_from_obs(1)]
      preserves_ops [THEN preserves_from_obs(1)] | simp)+
  then show ?thesis
    unfolding handle_packet_def Let_def
    by (intro preserves_bind preserves_seq preserves_if preserves_basic
      preserves_handlers [THEN preserves_from_obs(1)] preserves_restarts [THEN preserves_from_obs(1)]
      preserves_replies [THEN preserves_from_obs(1)])
qed

lemma turn_rest:
  "preserves extended_protocol (bind_p (handle_packet K H (darwin_ops K) argv) (\<lambda>restarted.
    bind_p (putpkt (darwin_ops K)) (\<lambda>_. if restarted then return_p True
      else bind_p (handle_terminated_inferior (darwin_ops K) argv) (\<lambda>_. return_p True))))"
  "no_gain (bind_p (handle_packet K H (darwin_ops K) argv) (\<lambda>restarted.
    bind_p (putpkt (darwin_ops K)) (\<lambda>_. if restarted then return_p True
      else bind_p (handle_terminated_inferior (darwin_ops K) argv) (\<lambda>_. return_p True))))"
   apply (intro preserves_bind preserves_if preserves_basic ext_handlers putpkt_effect(1)
      preserves_restarts [THEN preserves_from_obs(1)])
  apply (intro no_gain_bind no_gain_if no_gain_quit packet_no_gain no_gain_handlers)
  done

lemma turn_effect:
  assumes "loop_turn K H (darwin_ops K) argv s = (r, t)"
  shows "extended_protocol t = extended_protocol s"
    and "r = Ret True \<or> (\<exists>e. r = Err e) \<Longrightarrow> pending (net t) < pending (net s)"
proof -
  obtain q u where g: "getpkt_own s = (q, u)" by fastforce
  let ?rest = "bind_p (handle_packet K H (darwin_ops K) argv) (\<lambda>restarted.
    bind_p (putpkt (darwin_ops K)) (\<lambda>_. if restarted then return_p True
      else bind_p (handle_terminated_inferior (darwin_ops K) argv) (\<lambda>_. return_p True)))"
  have run: "loop_turn K H (darwin_ops K) argv s = (case q of
      Ret n \<Rightarrow> if n \<le> 0 then (Ret False, u) else ?rest u
    | Err e \<Rightarrow> (Err e, u) | Quit n \<Rightarrow> (Quit n, u) | Fault \<Rightarrow> (Fault, u) | Hang \<Rightarrow> (Hang, u))"
    using g by (cases q) (simp_all add: loop_turn_def prog_simps)
  obtain r' t' where rest_run: "?rest u = (r', t')" by fastforce
  have "extended_protocol (snd (?rest u)) = extended_protocol u"
    by (rule turn_rest(1) [unfolded preserves_def, rule_format])
  then show "extended_protocol t = extended_protocol s"
    using run assms getpkt_own_effect(1) [OF g] rest_run by (cases q) (auto split: if_splits)
  have rest: "pending (net (snd (?rest u))) \<le> pending (net u)" if "\<forall>n. fst (?rest u) \<noteq> Quit n"
    by (rule turn_rest(2) [unfolded no_gain_def, THEN spec, THEN mp], rule that)
  show "pending (net t) < pending (net s)" if res: "r = Ret True \<or> (\<exists>e. r = Err e)"
  proof (cases q)
    case (Ret n)
    with run assms res have n: "0 < n" "?rest u = (r, t)" by (auto split: if_splits)
    then have "pending (net t) \<le> pending (net u)" using rest res by auto
    with getpkt_own_effect(2) [OF g] Ret n(1) show ?thesis by simp
  next
    case (Err e)
    with run assms getpkt_own_effect(2) [OF g] show ?thesis by simp
  qed (use run assms res in auto)
qed

lemma session_kept:
  "extended_protocol (snd (packet_loop K H (darwin_ops K) argv s)) = extended_protocol s"
proof (induction s rule: measure_induct_rule [where f = "\<lambda>s. pending (net s)"])
  case (less s)
  obtain r t where rt: "loop_turn K H (darwin_ops K) argv s = (r, t)" by fastforce
  have "extended_protocol (snd (packet_loop K H (darwin_ops K) argv t)) = extended_protocol t"
    if "r = Ret True \<or> (\<exists>e. r = Err e)"
    using less.IH turn_effect(2) [OF rt that] by blast
  then show ?case
    using turn_effect(1) [OF rt]
    by (subst packet_loop_def, subst packet_loop_from.simps)
      (cases r, auto simp: rt packet_loop_def split: option.splits)
qed

subsection \<open>The properties\<close>

text \<open>
  C12: On the Darwin target the packet loop never goes round forever: for every finite input it comes to
  a result, because each turn that goes on, after an error too, has taken input from the connection.
  The result is a return, an exit, a fault, or \<open>Hang\<close> where a call to the kernel is repeated forever.
\<close>

theorem every_session_ends:
  "\<exists>r. packet_loop_from K H (darwin_ops K) argv s = Some r"
proof (induction s rule: measure_induct_rule [where f = "\<lambda>s. pending (net s)"])
  case (less s)
  obtain r t where rt: "loop_turn K H (darwin_ops K) argv s = (r, t)" by fastforce
  have "\<exists>q. packet_loop_from K H (darwin_ops K) argv t = Some q" if "r = Ret True \<or> (\<exists>e. r = Err e)"
    using less.IH turn_effect(2) [OF rt that] by blast
  then show ?case
    by (subst packet_loop_from.simps) (cases r, auto simp: rt)
qed

text \<open>
  C40: No packet ever turns on the extended protocol, although the packet ! is answered with OK: the
  flag is after a session what it was before.  So the packet R stays without effect, and k and the
  end of the program always end the server.
\<close>

theorem extended_protocol_is_never_set:
  "extended_protocol (snd (packet_loop K H (darwin_ops K) argv s)) = extended_protocol s"
  by (rule session_kept)

end
