(* ===== verification/ThreadProps.thy ===== *)
theory ThreadProps
  imports Demo
begin

section \<open>Properties of threads\<close>

text \<open>
  The operations on the list of threads against the list of addresses it stands for (\<open>threads_ok\<close>),
  the choice of a thread, and the enumeration of all threads by the client.
\<close>

subsection \<open>Removing a thread\<close>

lemma remove_thread_ok:
  assumes ok: "threads_ok s ts" and p: "p \<in> set ts"
  shows "\<exists>t. remove_thread p s = (Ret (), t) \<and> threads_ok t (remove1 p ts) \<and> threads t p = None
    \<and> entries t p = None \<and> (\<forall>b \<in> set ts. b \<noteq> p \<longrightarrow> id_at (entries t) b = id_at (entries s) b \<and> threads t b = threads s b)"
proof -
  from ok have wf: "wf_list (entries s) (all_threads s) ts" and d: "distinct ts"
    and al: "\<forall>t \<in> set ts. t < heap_brk s \<and> (\<exists>th rc. threads s t = Some th \<and> regcache_data th = Some rc
      \<and> length (registers rc) = register_bytes s)"
    and new: "\<forall>a. heap_brk s \<le> a \<longrightarrow> entries s a = None"
    by (auto simp: threads_ok_def wf_list_def)
  from remove_inferior_refines [OF wf, of p] obtain h l where
    r: "remove_inferior (entries s) (all_threads s) p = Ret (h, l)" "wf_list h l (remove1 p ts)"
      "\<forall>b. id_at h b = id_at (entries s) b" "\<forall>b. b \<notin> set ts \<longrightarrow> h b = entries s b"
    by blast
  let ?t = "s\<lparr>all_threads := l, threads := (threads s)(p := None), entries := h(p := None)\<rparr>"
  from al p obtain th rc where "threads s p = Some th" "regcache_data th = Some rc" by blast
  then have run: "remove_thread p s = (Ret (), ?t)"
    by (simp add: remove_thread_def r(1) free_one_thread_def)
  have np: "p \<notin> set (remove1 p ts)" using d by simp
  have "wf_list (h(p := None)) l (remove1 p ts)"
    using r(2) np by (simp add: wf_list_def linked_upd)
  moreover have "h a = None" if "heap_brk s \<le> a" for a
  proof -
    have "a \<notin> set ts" using al that by auto
    with r(4) new that show ?thesis by simp
  qed
  ultimately have "threads_ok ?t (remove1 p ts)"
    using al np d by (auto simp: threads_ok_def)
  moreover have "id_at (h(p := None)) b = id_at (entries s) b" if "b \<noteq> p" for b
    using r(3) that by (simp add: id_at_def)
  ultimately show ?thesis using run by (intro exI [of _ ?t]) simp
qed

subsection \<open>Enumerating the threads\<close>

definition with_packet :: "string \<Rightarrow> ('k, 'z) server_state_scheme \<Rightarrow> ('k, 'z) server_state_scheme" where
  \<comment> \<open>the client's next packet in \<^verbatim>\<open>own_buf\<close>\<close>
  "with_packet pkt s = s\<lparr>own_buf := overwrite (own_buf s) 0 (pkt @ [NUL])\<rparr>"

primrec answers ::
  "('k, 'z) server_state_scheme target_ops \<Rightarrow> string list \<Rightarrow> ('k, 'z) server_state_scheme \<Rightarrow> string outcome list"
where
  \<comment> \<open>the replies to a sequence of queries\<close>
  "answers T [] s = []"
| "answers T (q # qs) s =
     (case handle_query T (with_packet q s) of
        (r, t) \<Rightarrow> bind_o r (\<lambda>_. Ret (cstr (own_buf t) 0)) # answers T qs t)"

definition thread_text :: "('k, 'z) server_state_scheme \<Rightarrow> nat \<Rightarrow> string" where
  "thread_text s a = ''m'' @ fmt_x (id_at (entries s) a)"

lemma with_packet_simps [simp]:
  "NUL \<notin> set q \<Longrightarrow> cstr (own_buf (with_packet q s)) 0 = q"
  "entries (with_packet q s) = entries s" "all_threads (with_packet q s) = all_threads s"
  "thread_ptr (with_packet q s) = thread_ptr s"
  "length q < length (own_buf s) \<Longrightarrow> length (own_buf (with_packet q s)) = length (own_buf s)"
  by (simp_all add: with_packet_def cstr_overwrite)

lemma fmt_x_facts: "NUL \<notin> set (fmt_x n)" "length (fmt_x n) \<le> 8"
proof -
  show "NUL \<notin> set (fmt_x n)"
    unfolding fmt_x_def using hex_digits_set hex_digit_not_special(6) by metis
  show "length (fmt_x n) \<le> 8"
    unfolding fmt_x_def by (rule length_hex_digits) (simp_all add: nat_less_iff)
qed

lemma thread_info_reply_eq:
  assumes "thread_ptr s = Some a" and "entries s a = Some e" and "100 < length (own_buf s)"
  shows "\<exists>b. thread_info_reply s = (Ret (), s\<lparr>own_buf := b, thread_ptr := next_ptr e\<rparr>)
    \<and> cstr b 0 = ''m'' @ fmt_x (ent_id e) \<and> length b = length (own_buf s)"
proof -
  let ?t = "''m'' @ fmt_x (ent_id e)"
  have l: "length ?t < length (own_buf s)" using fmt_x_facts(2) [of "ent_id e"] assms(3) by simp
  have "NUL \<notin> set ?t" using fmt_x_facts(1) by (simp add: NUL_def)
  moreover have "entry_at (Some a) s = (Ret e, s)" using assms(2) by (simp add: entry_at_def deref_p_def)
  ultimately show ?thesis
    using assms(1) l cstr_overwrite [of ?t "own_buf s"]
    by (intro exI [of _ "overwrite (own_buf s) 0 (?t @ [NUL])"])
      (simp add: thread_info_reply_def prog_simps reply_eq [OF l])
qed

lemma query_next:
  assumes "thread_ptr s = Some a" and "entries s a = Some e" and "100 < length (own_buf s)"
  shows "\<exists>b. handle_query T (with_packet ''qsThreadInfo'' s) = (Ret (), s\<lparr>own_buf := b, thread_ptr := next_ptr e\<rparr>)
    \<and> cstr b 0 = thread_text s a \<and> length b = length (own_buf s)"
proof -
  let ?s = "with_packet ''qsThreadInfo'' s"
  from thread_info_reply_eq [of ?s a e] assms obtain b where
    b: "thread_info_reply ?s = (Ret (), ?s\<lparr>own_buf := b, thread_ptr := next_ptr e\<rparr>)"
      "cstr b 0 = ''m'' @ fmt_x (ent_id e)" "length b = length (own_buf s)"
    by auto
  have "cstr (own_buf ?s) 0 = ''qsThreadInfo''" by (rule with_packet_simps) (simp add: NUL_def)
  then have "handle_query T ?s = (Ret (), ?s\<lparr>own_buf := b, thread_ptr := next_ptr e\<rparr>)"
    using b(1) assms(1) by (simp add: handle_query_def prog_simps starts_with_def)
  moreover have "?s\<lparr>own_buf := b, thread_ptr := next_ptr e\<rparr> = s\<lparr>own_buf := b, thread_ptr := next_ptr e\<rparr>"
    by (simp add: with_packet_def)
  ultimately show ?thesis using b(2,3) assms(2) by (auto simp: thread_text_def id_at_def)
qed

lemma query_end:
  assumes "thread_ptr s = None" and "100 < length (own_buf s)"
  shows "\<exists>t. handle_query T (with_packet ''qsThreadInfo'' s) = (Ret (), t) \<and> cstr (own_buf t) 0 = ''l''"
proof -
  let ?s = "with_packet ''qsThreadInfo'' s"
  have "cstr (own_buf ?s) 0 = ''qsThreadInfo''" by (rule with_packet_simps) (simp add: NUL_def)
  moreover have "reply ''l'' ?s = (Ret (), ?s\<lparr>own_buf := overwrite (own_buf ?s) 0 (''l'' @ [NUL])\<rparr>)"
    using assms(2) by (intro reply_eq) simp
  moreover have "cstr (overwrite b 0 (''l'' @ [NUL])) 0 = ''l''" for b
    by (rule cstr_overwrite) (simp add: NUL_def)
  ultimately show ?thesis
    using assms(1) by (intro exI [of _ "?s\<lparr>own_buf := overwrite (own_buf ?s) 0 (''l'' @ [NUL])\<rparr>"])
      (simp add: handle_query_def prog_simps starts_with_def)
qed

lemma query_first:
  "100 < length (own_buf s) \<Longrightarrow> handle_query T (with_packet ''qfThreadInfo'' s) =
     thread_info_reply ((with_packet ''qfThreadInfo'' s)\<lparr>thread_ptr := head (all_threads s)\<rparr>)"
proof -
  let ?s = "with_packet ''qfThreadInfo'' s"
  have "cstr (own_buf ?s) 0 = ''qfThreadInfo''" by (rule with_packet_simps) (simp add: NUL_def)
  then show ?thesis by (simp add: handle_query_def prog_simps starts_with_def)
qed

lemma thread_text_cong: "entries t = entries s \<Longrightarrow> thread_text t = thread_text s"
  unfolding thread_text_def by simp

lemma answers_rest:
  assumes "linked (entries s) (thread_ptr s) ts" and "100 < length (own_buf s)"
  shows "answers T (replicate (Suc (length ts)) ''qsThreadInfo'') s =
    map (\<lambda>a. Ret (thread_text s a)) ts @ [Ret ''l'']"
  using assms
proof (induction ts arbitrary: s)
  case Nil
  then have "thread_ptr s = None" by simp
  from query_end [OF this Nil.prems(2), of T] show ?case by auto
next
  case (Cons a ts)
  then obtain e where e: "thread_ptr s = Some a" "entries s a = Some e" "linked (entries s) (next_ptr e) ts"
    by (auto split: option.splits)
  from query_next [OF e(1,2) Cons.prems(2), of T] obtain b where
    b: "handle_query T (with_packet ''qsThreadInfo'' s) = (Ret (), s\<lparr>own_buf := b, thread_ptr := next_ptr e\<rparr>)"
      "cstr b 0 = thread_text s a" "length b = length (own_buf s)" by blast
  let ?t = "s\<lparr>own_buf := b, thread_ptr := next_ptr e\<rparr>"
  have "answers T (replicate (Suc (length ts)) ''qsThreadInfo'') ?t =
      map (\<lambda>a. Ret (thread_text ?t a)) ts @ [Ret ''l'']"
    using Cons.IH [of ?t] e(3) b(3) Cons.prems(2) by simp
  then show ?case using b(1,2) thread_text_cong [of ?t s] by simp
qed

subsection \<open>The properties\<close>

text \<open>
  \<open>add_thread\<close> appends one thread with the given identifier and target data at the end of the
  list of threads; the new thread has a register cache of full size and becomes the current one
  when there was none.
\<close>

theorem add_thread_appends:
  assumes "threads_ok s ts"
  shows "\<exists>s'. add_thread i d s = (Ret (), s') \<and> threads_ok s' (ts @ [heap_brk s])
    \<and> id_at (entries s') (heap_brk s) = i
    \<and> (\<exists>th. threads s' (heap_brk s) = Some th \<and> target_data th = d)
    \<and> (current_inferior s' = (if current_inferior s = None then Some (heap_brk s) else current_inferior s))"
  by (rule add_thread_ok [OF assms])

lemma demo_threads_ok: "threads_ok (demo_server (demo_cache v) pkt) [1]"
  using demo_threads [of "demo_cache v" pkt] unfolding threads_ok_def
  by (simp add: demo_cache_def) (simp add: demo_server_def)

theorem add_thread_appends_witness:
  "\<exists>s'. add_thread 101 (Some 0) (demo_server (demo_cache True) []) = (Ret (), s') \<and> threads_ok s' [1, 2]"
proof -
  have "heap_brk (demo_server (demo_cache True) []) = 2" by (simp add: demo_server_def)
  with add_thread_appends [OF demo_threads_ok, of 101 "Some 0" True "[]"] show ?thesis by auto
qed

text \<open>
  C23: \<open>remove_thread\<close> takes exactly one thread out of the list, wherever it stands, and frees it; the
  other threads keep their order, identifiers and data.
\<close>

theorem remove_thread_removes:
  assumes "threads_ok s ts" and "p \<in> set ts"
  shows "\<exists>t. remove_thread p s = (Ret (), t) \<and> threads_ok t (remove1 p ts) \<and> threads t p = None
    \<and> entries t p = None \<and> (\<forall>b \<in> set ts. b \<noteq> p \<longrightarrow> id_at (entries t) b = id_at (entries s) b \<and> threads t b = threads s b)"
  by (rule remove_thread_ok [OF assms])

theorem remove_thread_removes_witness:
  "\<exists>t. remove_thread 1 (demo_server (demo_cache True) []) = (Ret (), t) \<and> threads_ok t []"
  using remove_thread_removes [OF demo_threads_ok, of 1 True "[]"] by auto

text \<open>
  C29: \<open>clear_inferiors\<close> frees every thread once and leaves the empty list; nothing else changes, in
  particular not the pointer to the current thread, which then dangles.
\<close>

theorem clear_inferiors_frees_all:
  assumes "threads_ok s ts"
  shows "clear_inferiors s = (Ret (), s\<lparr>threads := threads s |` (- set ts),
    entries := entries s |` (- set ts), all_threads := empty_list\<rparr>)"
  by (rule clear_inferiors_eq [OF assms])

theorem clear_inferiors_frees_all_witness:
  "\<exists>t. clear_inferiors (demo_server (demo_cache True) []) = (Ret (), t) \<and> current_inferior t = Some 1
     \<and> threads t 1 = None"
  using clear_inferiors_frees_all [OF demo_threads_ok, of True "[]"]
  by (simp add: restrict_map_def) (simp add: demo_server_def)

text \<open>
  C24: \<open>set_desired_inferior\<close> selects the first thread with the wanted identifier: the general thread's,
  or the step thread's when there is one and the continue thread is unspecific, else the continue
  thread's; if there is none it selects the first thread of the list.
\<close>

theorem set_desired_inferior_chooses:
  assumes "wf_list (entries s) (all_threads s) ts"
  shows "set_desired_inferior use_general s =
    (Ret (), s\<lparr>current_inferior := chosen_thread use_general s ts\<rparr>)"
  by (rule set_desired_inferior_eq [OF assms])

theorem set_desired_inferior_chooses_witness:
  "set_desired_inferior False (demo_server (demo_cache True) []) =
     (Ret (), (demo_server (demo_cache True) [])\<lparr>current_inferior := Some 1\<rparr>)"
  using set_desired_inferior_chooses [OF demo_threads, of False] demo_chosen by simp

text \<open>
  C22: The client that asks \<^verbatim>\<open>qfThreadInfo\<close> and then \<^verbatim>\<open>qsThreadInfo\<close> again and again is told every
  thread once, in the order of the list, and then that there are no more.
\<close>

theorem threads_enumerated:
  assumes "wf_list (entries s) (all_threads s) ts" and "ts \<noteq> []" and "100 < length (own_buf s)"
  shows "answers T (''qfThreadInfo'' # replicate (length ts) ''qsThreadInfo'') s =
    map (\<lambda>a. Ret (thread_text s a)) ts @ [Ret ''l'']"
proof -
  from assms(2) obtain a ts' where ts: "ts = a # ts'" by (cases ts) auto
  with assms(1) obtain e where e: "head (all_threads s) = Some a" "entries s a = Some e"
      "linked (entries s) (next_ptr e) ts'"
    by (auto simp: wf_list_def split: option.splits)
  let ?s = "(with_packet ''qfThreadInfo'' s)\<lparr>thread_ptr := head (all_threads s)\<rparr>"
  from thread_info_reply_eq [of ?s a e] e assms(3) obtain b where
    b: "thread_info_reply ?s = (Ret (), ?s\<lparr>own_buf := b, thread_ptr := next_ptr e\<rparr>)"
      "cstr b 0 = ''m'' @ fmt_x (ent_id e)" "length b = length (own_buf s)"
    by auto
  let ?t = "?s\<lparr>own_buf := b, thread_ptr := next_ptr e\<rparr>"
  have "answers T (replicate (Suc (length ts')) ''qsThreadInfo'') ?t =
      map (\<lambda>a. Ret (thread_text ?t a)) ts' @ [Ret ''l'']"
    by (rule answers_rest) (use e(3) b(3) assms(3) in simp_all)
  then show ?thesis
    using b(1,2) e(2) thread_text_cong [of ?t s] query_first [OF assms(3), of T] ts
    by (simp add: thread_text_def id_at_def)
qed

theorem threads_enumerated_witness:
  "answers (darwin_ops flat_kernel) [''qfThreadInfo'', ''qsThreadInfo''] (demo_server (demo_cache True) []) =
     [Ret (thread_text (demo_server (demo_cache True) []) 1), Ret ''l'']"
proof -
  have "100 < length (own_buf (demo_server (demo_cache True) []))"
    using reg_ready_size [OF demo_reg_ready [OF _ length_demo_cache]] by simp
  from threads_enumerated [OF demo_threads _ this, of "darwin_ops flat_kernel"] show ?thesis by simp
qed

end
