(* ===== verification/VContProps.thy ===== *)
theory VContProps
  imports Demo
begin

section \<open>Properties of the vCont packet\<close>

text \<open>
  \<^verbatim>\<open>handle_v_cont\<close> counts the semicolons, allocates so many slots and one behind, and fills them while it
  parses.  The loop stays inside these slots for every text, and it reads back what a well-formed
  packet says.
\<close>

subsection \<open>Bounds\<close>

abbreviation semis :: "string \<Rightarrow> nat" where
  "semis p \<equiv> length (filter (\<lambda>c. c = CHR '';'') p)"

lemma semis_suffix: "semis q \<le> semis (pre @ q)"
  by simp

lemma semis_drop: "semis (drop n p) \<le> semis p"
  by (metis append_take_drop_id semis_suffix)

lemma semis_strtol: "semis (snd (strtol b p)) \<le> semis p"
  by (metis strtol_suffix semis_suffix)

lemma semis_signal: "vcont_signal H p r = Some (q, r') \<Longrightarrow> semis q \<le> semis p"
  using semis_strtol [of 16 "drop 1 p"] semis_drop [of 1 p]
  by (auto simp: vcont_signal_def Let_def split: if_splits prod.splits)

lemma vcont_signal_rest:
  "vcont_signal H p r = Some (q, r') \<Longrightarrow> q = drop 1 p \<or> q = snd (strtol 16 (drop 1 p))"
  by (auto simp: vcont_signal_def Let_def split: if_splits prod.splits)

lemma vcont_signal_suffix:
  assumes "vcont_signal H p r = Some (q, r')"
  shows "\<exists>pre. p = pre @ q"
proof -
  obtain pre where "drop 1 p = pre @ snd (strtol 16 (drop 1 p))" using strtol_suffix by blast
  then have "p = (take 1 p @ pre) @ snd (strtol 16 (drop 1 p))" using append_take_drop_id [of 1 p] by simp
  moreover have "p = take 1 p @ drop 1 p" by simp
  ultimately show ?thesis using vcont_signal_rest [OF assms] by blast
qed

definition slots_left :: "string \<Rightarrow> nat" where
  \<comment> \<open>how many slots the rest of the loop may need\<close>
  "slots_left p = (if p = [] then 0 else Suc (semis (drop 1 p)))"

lemma slots_left_le: "slots_left q \<le> Suc (semis q)" "chr_at q 0 = CHR '';'' \<or> q = [] \<Longrightarrow> slots_left q \<le> semis q"
  by (cases q; simp add: slots_left_def NUL_def)+

lemma vcont_loop_bounds:
  assumes "i + slots_left p \<le> n" and "length info = Suc n" and "NUL \<notin> set p"
  shows "vcont_loop H p i info dflt = Ret None
    \<or> (\<exists>j info' dflt'. vcont_loop H p i info dflt = Ret (Some (j, info', dflt')) \<and> j \<le> n \<and> length info' = Suc n)"
  using assms
proof (induction H p i info dflt rule: vcont_loop.induct)
  case (1 H i info dflt)
  then show ?case by (simp add: vcont_loop.simps slots_left_def)
next
  case (2 H c p i info dflt)
  have i: "\<not> length info \<le> i" using "2.prems"(1,2) by (simp add: slots_left_def)
  show ?case
  proof (cases "vcont_signal H p ((info ! i)\<lparr>leave_stopped := False\<rparr>)")
    case None
    then show ?thesis using i by (simp add: vcont_loop.simps)
  next
    case (Some a)
    obtain q r where a: "a = (q, r)" by (cases a)
    have sq: "semis q \<le> semis p" using semis_signal Some a by blast
    have start: "i + Suc (semis p) \<le> n" using "2.prems"(1) by (simp add: slots_left_def)
    have nul: "NUL \<notin> set q" using vcont_signal_suffix Some a "2.prems"(3) by fastforce
    let ?r = "r\<lparr>tr_thread := - 1\<rparr>"
    have skip: "i + slots_left q \<le> n" using slots_left_le(1) [of q] sq start by simp
    consider "chr_at q 0 = NUL" | "chr_at q 0 = CHR '':''" | "chr_at q 0 \<noteq> NUL" "chr_at q 0 \<noteq> CHR '':''" by blast
    then show ?thesis
    proof cases
      case 1
      with "2.IH"(1) [OF i Some a [symmetric]] skip nul "2.prems"(2) i Some a show ?thesis
        by (simp add: vcont_loop.simps(2))
    next
      case 2
      obtain t q2 where st: "strtol 16 (drop 1 q) = (t, q2)" by (cases "strtol 16 (drop 1 q)")
      obtain pre where pre: "drop 1 q = pre @ q2" using strtol_suffix [of "drop 1 q" 16] st by auto
      have nul2: "NUL \<notin> set q2" using nul pre set_drop_subset [of 1 q] by auto
      have "semis q2 \<le> semis q" using semis_drop [of 1 q] pre semis_suffix [of q2 pre] by simp
      then have "i + slots_left q2 < n" if "chr_at q2 0 = CHR '';'' \<or> chr_at q2 0 = NUL"
      proof -
        have "chr_at q2 0 = CHR '';'' \<or> q2 = []" using that nul2 by (cases q2) auto
        from slots_left_le(2) [OF this] sq start \<open>semis q2 \<le> semis q\<close> show ?thesis by simp
      qed
      note space = this
      have nn: "chr_at q 0 \<noteq> NUL" using 2 by (simp add: NUL_def)
      show ?thesis
      proof (cases "length q = length q2 \<or> (chr_at q2 0 \<noteq> CHR '';'' \<and> chr_at q2 0 \<noteq> NUL)")
        case True
        then show ?thesis using 2 nn i Some a st by (auto simp: vcont_loop.simps(2) Let_def)
      next
        case False
        with space have "Suc i + slots_left q2 \<le> n" by auto
        with "2.IH"(2) [OF i Some a [symmetric] nn 2 refl st [symmetric]] False nul2 "2.prems"(2)
        have "vcont_loop H q2 (Suc i) (info[i := r\<lparr>tr_thread := t\<rparr>]) dflt = Ret None \<or>
            (\<exists>j info' dflt'. vcont_loop H q2 (Suc i) (info[i := r\<lparr>tr_thread := t\<rparr>]) dflt =
              Ret (Some (j, info', dflt')) \<and> j \<le> n \<and> length info' = Suc n)"
          by auto
        then show ?thesis using 2 nn i Some a st False by (simp add: vcont_loop.simps(2) Let_def)
      qed
    next
      case 3
      with "2.IH"(3) [OF i Some a [symmetric]] skip nul "2.prems"(2) i Some a show ?thesis
        by (simp add: vcont_loop.simps(2))
    qed
  qed
qed

lemma vcont_parse_total:
  assumes "NUL \<notin> set p"
  shows "vcont_parse H p = Ret None
    \<or> (\<exists>info. vcont_parse H p = Ret (Some info) \<and> length info = Suc (vcont_count p))"
proof -
  have "0 + slots_left p \<le> vcont_count p" by (simp add: slots_left_def vcont_count_def)
  from vcont_loop_bounds [OF this _ assms, of "replicate (vcont_count p + 1) blank_resume" H vcont_default]
  show ?thesis
    by (auto simp: vcont_parse_def Let_def)
qed

subsection \<open>Well-formed packets\<close>

datatype vcont_action = VContAction (va_step: bool) (va_sig: "nat option")

definition action_text :: "vcont_action \<Rightarrow> string" where
  \<comment> \<open>one of the letters c, s, C and S, the last two with a signal\<close>
  "action_text a = (case va_sig a of
      None \<Rightarrow> [if va_step a then CHR ''s'' else CHR ''c'']
    | Some n \<Rightarrow> (if va_step a then CHR ''S'' else CHR ''C'') # hex_digits n)"

definition action_resume :: "host_signals \<Rightarrow> int \<Rightarrow> vcont_action \<Rightarrow> thread_resume" where
  "action_resume H tid a = \<lparr>tr_thread = tid, leave_stopped = False, tr_step = va_step a,
     tr_sig = (case va_sig a of None \<Rightarrow> 0 | Some n \<Rightarrow> target_signal_to_host H (int n))\<rparr>"

definition action_ok :: "host_signals \<Rightarrow> vcont_action \<Rightarrow> bool" where
  "action_ok H a \<longleftrightarrow> (case va_sig a of None \<Rightarrow> True
     | Some n \<Rightarrow> n < 2 ^ 31 \<and> target_signal_to_host_p H (int n))"

definition vcont_text :: "(vcont_action \<times> nat) list \<Rightarrow> vcont_action option \<Rightarrow> string" where
  \<comment> \<open>actions for threads, and perhaps one for all others\<close>
  "vcont_text acts d =
     concat (map (\<lambda>(a, tid). '';'' @ action_text a @ '':'' @ hex_digits tid) acts)
     @ (case d of None \<Rightarrow> [] | Some a \<Rightarrow> '';'' @ action_text a)"

definition stops_number :: "string \<Rightarrow> bool" where
  "stops_number rest \<longleftrightarrow> rest = [] \<or> hd rest \<in> {CHR '':'', CHR '';''}"

lemma strtol_number:
  assumes "n < 2 ^ 31" and "stops_number rest"
  shows "strtol 16 (hex_digits n @ rest) = (int n, rest)"
  using assms
  by (intro strtol_hex) (auto simp: stops_number_def LONG_MAX_def no_digit_start_def digit_value_def split: list.split)

lemma semis_hex_digits [simp]: "filter (\<lambda>c. c = CHR '';'') (hex_digits n) = []"
proof (rule filter_False)
  show "\<forall>c \<in> set (hex_digits n). c \<noteq> CHR '';''"
  proof
    fix c assume "c \<in> set (hex_digits n)"
    from hex_digits_set [OF this] obtain d where "d < 16" "c = hex_digit d" by blast
    with hex_digit_not_special(7) [of d] show "c \<noteq> CHR '';''" by simp
  qed
qed

lemma hd_chr_at: "p = [] \<or> hd p = c \<Longrightarrow> chr_at p 0 = c \<or> chr_at p 0 = NUL"
  by (cases p) auto

lemma semis_action_text [simp]: "semis (action_text a) = 0"
  by (simp add: action_text_def split: option.split)

lemma vcont_signal_action:
  assumes "action_ok H a" and "stops_number rest"
  shows "vcont_signal H (action_text a @ rest) r =
    Some (rest, r\<lparr>tr_step := va_step a, tr_sig := tr_sig (action_resume H 0 a)\<rparr>)"
proof (cases "va_sig a")
  case None
  then show ?thesis by (auto simp: action_text_def vcont_signal_def action_resume_def Let_def)
next
  case (Some n)
  with assms have "strtol 16 (hex_digits n @ rest) = (int n, rest)" "target_signal_to_host_p H (int n)"
    by (auto simp: action_ok_def intro: strtol_number)
  with Some show ?thesis by (auto simp: action_text_def vcont_signal_def action_resume_def Let_def)
qed

lemma vcont_loop_action:
  assumes "action_ok H a" and "tid < 2 ^ 31" and i: "i < length info" and behind: "behind = [] \<or> hd behind = CHR '';''"
  shows "vcont_loop H (CHR '';'' # action_text a @ CHR '':'' # hex_digits tid @ behind) i info dflt =
    vcont_loop H behind (Suc i) (info[i := action_resume H (int tid) a]) dflt"
proof -
  have st: "strtol 16 (hex_digits tid @ behind) = (int tid, behind)"
    using assms(2) behind by (intro strtol_number) (auto simp: stops_number_def)
  have sg: "vcont_signal H (action_text a @ CHR '':'' # hex_digits tid @ behind) r = Some
      (CHR '':'' # hex_digits tid @ behind, r\<lparr>tr_step := va_step a, tr_sig := tr_sig (action_resume H 0 a)\<rparr>)" for r
    using assms(1) by (intro vcont_signal_action) (auto simp: stops_number_def)
  have slot: "(info ! i)\<lparr>leave_stopped := False, tr_step := va_step a, tr_sig := tr_sig (action_resume H 0 a),
      tr_thread := int tid\<rparr> = action_resume H (int tid) a"
    by (cases "info ! i") (simp add: action_resume_def)
  have nul: "CHR '':'' \<noteq> NUL" by (simp add: NUL_def)
  show ?thesis
    using i hd_chr_at [OF behind] st
    by (subst vcont_loop.simps(2)) (auto simp: sg slot Let_def nul)
qed

lemma vcont_loop_actions:
  assumes "\<forall>(a, tid) \<in> set acts. action_ok H a \<and> tid < 2 ^ 31" and "i + length acts \<le> length info"
    and "rest = [] \<or> hd rest = CHR '';''"
  shows "vcont_loop H (concat (map (\<lambda>(a, tid). '';'' @ action_text a @ '':'' @ hex_digits tid) acts) @ rest)
      i info dflt = vcont_loop H rest (i + length acts)
      (take i info @ map (\<lambda>(a, tid). action_resume H (int tid) a) acts @ drop (i + length acts) info) dflt"
  using assms(1,2)
proof (induction acts arbitrary: i info)
  case (Cons x acts)
  obtain a tid where x: "x = (a, tid)" by (cases x)
  define behind where "behind = concat (map (\<lambda>(a, tid). '';'' @ action_text a @ '':'' @ hex_digits tid) acts) @ rest"
  have behind: "behind = [] \<or> hd behind = CHR '';''" using assms(3) unfolding behind_def by (cases acts) auto
  let ?r = "action_resume H (int tid) a"
  have i: "i < length info" using Cons.prems(2) by simp
  have "vcont_loop H (CHR '';'' # action_text a @ CHR '':'' # hex_digits tid @ behind) i info dflt =
      vcont_loop H behind (Suc i) (info[i := ?r]) dflt"
    using Cons.prems(1) x by (intro vcont_loop_action [OF _ _ i behind]) auto
  moreover have "vcont_loop H behind (Suc i) (info[i := ?r]) dflt = vcont_loop H rest (Suc i + length acts)
      (take (Suc i) (info[i := ?r]) @ map (\<lambda>(a, tid). action_resume H (int tid) a) acts
        @ drop (Suc i + length acts) (info[i := ?r])) dflt"
    unfolding behind_def by (rule Cons.IH) (use Cons.prems in simp_all)
  moreover have "take (Suc i) (info[i := ?r]) = take i info @ [?r]"
    using i by (simp add: take_Suc_conv_app_nth)
  ultimately show ?case by (simp add: x behind_def)
qed simp

lemma vcont_count_text:
  assumes "acts \<noteq> [] \<or> d \<noteq> None"
  shows "vcont_count (vcont_text acts d) = length acts + (if d = None then 0 else 1)"
proof -
  have "semis (concat (map (\<lambda>(a, tid). '';'' @ action_text a @ '':'' @ hex_digits tid) acts)) = length acts"
    by (induction acts) auto
  then have all: "semis (vcont_text acts d) = length acts + (if d = None then 0 else 1)"
    by (auto simp: vcont_text_def split: option.split)
  obtain p where p: "vcont_text acts d = CHR '';'' # p"
    using assms by (cases acts) (auto simp: vcont_text_def split: option.splits)
  with all show ?thesis by (simp add: vcont_count_def p)
qed

lemma vcont_parse_text:
  assumes ok: "\<forall>(a, tid) \<in> set acts. action_ok H a \<and> tid < 2 ^ 31" and d: "\<And>a. d = Some a \<Longrightarrow> action_ok H a"
    and ne: "acts \<noteq> [] \<or> d \<noteq> None"
  shows "\<exists>rest. vcont_parse H (vcont_text acts d) = Ret (Some (map (\<lambda>(a, tid). action_resume H (int tid) a) acts
    @ (case d of None \<Rightarrow> vcont_default | Some a \<Rightarrow> action_resume H (- 1) a) # rest))"
proof -
  let ?n = "vcont_count (vcont_text acts d)"
  let ?info = "replicate (?n + 1) blank_resume"
  let ?last = "case d of None \<Rightarrow> [] | Some a \<Rightarrow> '';'' @ action_text a"
  let ?done = "map (\<lambda>(a, tid). action_resume H (int tid) a) acts"
  have n: "?n = length acts + (if d = None then 0 else 1)" using vcont_count_text [OF ne] .
  have loop: "vcont_loop H (vcont_text acts d) 0 ?info vcont_default =
      vcont_loop H ?last (length acts) (?done @ replicate (?n + 1 - length acts) blank_resume) vcont_default"
  proof -
    have "?last = [] \<or> hd ?last = CHR '';''" by (auto split: option.split)
    moreover have "0 + length acts \<le> length ?info" using n by simp
    ultimately show ?thesis
      using vcont_loop_actions [OF ok, of 0 ?info ?last vcont_default]
      by (simp only: vcont_text_def [symmetric] take_0 append_Nil drop_replicate add_0)
  qed
  show ?thesis
  proof (cases d)
    case None
    with loop n show ?thesis
      by (simp add: vcont_parse_def Let_def vcont_loop.simps(1) list_update_append)
  next
    case (Some a)
    have sg: "vcont_signal H (action_text a) r =
        Some ([], r\<lparr>tr_step := va_step a, tr_sig := tr_sig (action_resume H 0 a)\<rparr>)" for r
      using vcont_signal_action [of H a "[]" r] d [OF Some] by (simp add: stops_number_def)
    have slot: "r\<lparr>leave_stopped := False, tr_step := va_step a, tr_sig := tr_sig (action_resume H 0 a),
        tr_thread := - 1\<rparr> = action_resume H (- 1) a" for r
      by (cases r) (simp add: action_resume_def)
    have "vcont_loop H (CHR '';'' # action_text a) (length acts) (?done @ replicate 2 blank_resume) vcont_default =
        Ret (Some (length acts, (?done @ replicate 2 blank_resume)[length acts := action_resume H (- 1) a],
          action_resume H (- 1) a))"
      by (simp add: vcont_loop.simps sg slot)
    with loop n Some show ?thesis
      by (simp add: vcont_parse_def Let_def list_update_append numeral_2_eq_2)
  qed
qed

subsection \<open>The properties\<close>

text \<open>
  C15: Whatever text follows vCont in the packet buffer, parsing it never writes outside the array
  that was allocated for it: it ends with the error reply or with one slot for every semicolon and
  one for the default.
\<close>

theorem vcont_stays_in_bounds:
  "vcont_parse H (cstr buf 5) = Ret None
    \<or> (\<exists>info. vcont_parse H (cstr buf 5) = Ret (Some info) \<and> length info = Suc (vcont_count (cstr buf 5)))"
  by (rule vcont_parse_total [OF NUL_notin_cstr])

text \<open>
  C16: A well-formed packet, with actions for threads and perhaps a last one for all others, is parsed
  to exactly these: every thread with its step flag and the host's signal, then the default, which
  leaves the other threads stopped when the packet has none.
\<close>

theorem vcont_reads_back:
  assumes "\<forall>(a, tid) \<in> set acts. action_ok H a \<and> tid < 2 ^ 31"
    and "\<And>a. d = Some a \<Longrightarrow> action_ok H a" and "acts \<noteq> [] \<or> d \<noteq> None"
  shows "\<exists>rest. vcont_parse H (vcont_text acts d) = Ret (Some (map (\<lambda>(a, tid). action_resume H (int tid) a) acts
    @ (case d of None \<Rightarrow> vcont_default | Some a \<Rightarrow> action_resume H (- 1) a) # rest))"
  by (rule vcont_parse_text [OF assms])

lemma darwin_kill_signal: "target_signal_to_host_p darwin_host 9" "target_signal_to_host darwin_host 9 = 9"
proof -
  have "do_target_signal_to_host darwin_host 9 = (9, True)"
    by (simp add: do_target_signal_to_host_def to_host_tables host_value_darwin) (simp add: darwin_host_def)
  then show "target_signal_to_host_p darwin_host 9" "target_signal_to_host darwin_host 9 = 9"
    by (simp_all add: target_signal_to_host_p_def target_signal_to_host_def)
qed

theorem vcont_reads_back_witness:
  "\<exists>rest. vcont_parse darwin_host (vcont_text [(VContAction False (Some 9), 100)] (Some (VContAction True None))) =
    Ret (Some (\<lparr>tr_thread = 100, leave_stopped = False, tr_step = False, tr_sig = 9\<rparr>
      # \<lparr>tr_thread = - 1, leave_stopped = False, tr_step = True, tr_sig = 0\<rparr> # rest))"
  using vcont_reads_back [of "[(VContAction False (Some 9), 100)]" darwin_host "Some (VContAction True None)"]
    darwin_kill_signal
  by (simp add: action_ok_def action_resume_def)

end
