(* ===== verification/Exchange.thy ===== *)
theory Exchange
  imports Demo
begin

section \<open>One packet and its reply\<close>

text \<open>
  A turn of the packet loop without acknowledgements, from the bytes on the connection to the bytes of the
  reply, given what the handler does with the packet in the buffer.  Stray characters between packets, such as
  the acknowledgement of the last reply before the mode was changed, are skipped.  A damaged packet has no
  place in this mode (theory \<open>WireProps\<close> says what the server does with one).
\<close>

definition next_packet :: "string \<Rightarrow> ('k, 'z) server_state_scheme \<Rightarrow> ('k, 'z) server_state_scheme" where
  \<comment> \<open>the next packet in the buffer\<close>
  "next_packet pkt s = s\<lparr>own_buf := overwrite (own_buf s) 0 (pkt @ [NUL])\<rparr>"

definition stray :: "string \<Rightarrow> bool" where
  \<comment> \<open>characters that neither begin a packet nor interrupt the program\<close>
  "stray cs \<longleftrightarrow> CHR ''$'' \<notin> c7 ` set cs \<and> CHR 0x03 \<notin> set cs"

lemma stray_simps [simp]: "stray []" "stray ''+''"
  by (simp_all add: stray_def c7_ascii)

definition incoming :: "string \<Rightarrow> string \<Rightarrow> string \<Rightarrow> ('k, 'z) server_state_scheme \<Rightarrow> bool" where
  \<comment> \<open>without acknowledgements, stray characters and then this packet are on the connection\<close>
  "incoming cs pkt rest s \<longleftrightarrow> no_ack_mode s \<and> tx_script (net s) = []
     \<and> stream (net s) = cs @ frame pkt @ rest \<and> stray cs"

definition answered ::
  "string \<Rightarrow> string \<Rightarrow> ('k, 'z) server_state_scheme \<Rightarrow> ('k, 'z) server_state_scheme \<Rightarrow> bool"
where
  \<comment> \<open>the frame of the reply is on its way, and nothing else\<close>
  "answered txt rest s t \<longleftrightarrow> no_ack_mode t \<and> stream (net t) = rest \<and> tx_script (net t) = []
     \<and> tx (net t) = tx (net s) @ frame txt"

lemma length_frame: "length (frame s) = length s + 4"
  by (simp add: frame_def)

lemma getpkt_loop_frame:
  assumes "stream nt = cs @ frame s @ rest" and "stray cs" and "payload s" and "length s < length buf"
  shows "\<exists>b nt'. getpkt_loop buf nt = (Ret (int (length s)), b, nt') \<and> stream nt' = rest \<and> same_out nt nt'
    \<and> length b = length buf \<and> cstr b 0 = s"
proof -
  let ?d = "unat (checksum s) div 16" and ?e = "unat (checksum s) mod 16"
  have "?d < 16" using unat_byte_bound [of "checksum s"] by simp
  with getpkt_loop_packet [of nt cs s ?d ?e rest buf] assms obtain nt' where
    "stream nt' = rest" "same_out nt nt'" "getpkt_loop buf nt = (Ret (int (length s)), received buf s, nt')"
    by (auto simp: frame_eq payload_hash payload_c7 stray_def)
  moreover have "cstr (received buf s) 0 = s"
    using assms(3,4) by (simp add: received_def payload_c7 cstr_overwrite payload_NUL)
  ultimately show ?thesis using assms(4) by auto
qed

lemma packet_received:
  assumes i: "incoming cs pkt rest s" and pkt: "payload pkt" "length pkt < length (own_buf s)"
  obtains b nt where "getpkt_own s = (Ret (int (length pkt)), s\<lparr>own_buf := b, net := nt\<rparr>)"
    and "length b = length (own_buf s)" and "cstr b 0 = pkt" and "stream nt = rest" and "tx_script nt = []"
    and "tx nt = tx (net s)"
proof -
  have st: "stream (net s) = cs @ frame pkt @ rest" "stray cs" "tx_script (net s) = []" "no_ack_mode s"
    using i by (simp_all add: incoming_def)
  from getpkt_loop_frame [OF st(1,2) pkt] st(3) obtain b nt where
    l: "getpkt_loop (own_buf s) (net s) = (Ret (int (length pkt)), b, nt)" "stream nt = rest"
      "tx nt = tx (net s)" "tx_script nt = []" "length b = length (own_buf s)" "cstr b 0 = pkt"
    by (auto simp: same_out_def)
  have "getpkt_own s = (Ret (int (length pkt)), s\<lparr>own_buf := b, net := nt\<rparr>)"
    using getpkt_of_loop [OF l(1) _ l(4), of "no_ack_mode s"] st(4) by (simp add: getpkt_own_def)
  with l that show thesis by blast
qed

lemma reply_sent:
  assumes "no_ack_mode t" and "tx_script (net t) = []" and "length (cstr (own_buf t) 0) + 5 \<le> PBUFSIZ t"
  shows "putpkt T t = (Ret 1, t\<lparr>net := (net t)\<lparr>tx := tx (net t) @ frame (cstr (own_buf t) 0)\<rparr>\<rparr>)"
  using assms by (simp add: putpkt_def putpkt_string_def packet_eq length_frame putpkt_no_ack prog_simps)

lemma exchange_reply:
  fixes s :: "('k, 'z) server_state_scheme"
  assumes i: "incoming cs pkt rest s" and pkt: "payload pkt" "pkt \<noteq> []" "length pkt < length (own_buf s)"
    and handled: "\<And>b nt. length b = length (own_buf s) \<Longrightarrow> cstr b 0 = pkt \<Longrightarrow>
      \<exists>t. handle_packet K H T argv (s\<lparr>own_buf := b, net := nt\<rparr>) = (Ret False, t)
        \<and> P t \<and> net t = nt \<and> no_ack_mode t \<and> cstr (own_buf t) 0 = r \<and> length r + 5 \<le> PBUFSIZ t"
    and frame: "\<And>t nt. P t \<Longrightarrow> P (t\<lparr>net := nt\<rparr>)"
  shows "\<exists>t. loop_turn K H T argv s = bind_p (handle_terminated_inferior T argv) (\<lambda>_. return_p True) t
    \<and> P t \<and> answered r rest s t"
proof -
  obtain b nt where g: "getpkt_own s = (Ret (int (length pkt)), s\<lparr>own_buf := b, net := nt\<rparr>)"
      and l: "length b = length (own_buf s)" "cstr b 0 = pkt" "stream nt = rest" "tx_script nt = []" "tx nt = tx (net s)"
    by (rule packet_received [OF i pkt(1,3)])
  from handled [OF l(1,2), of nt] obtain t where
    t: "handle_packet K H T argv (s\<lparr>own_buf := b, net := nt\<rparr>) = (Ret False, t)" "P t" "net t = nt"
      "no_ack_mode t" "cstr (own_buf t) 0 = r" "length r + 5 \<le> PBUFSIZ t" by blast
  let ?u = "t\<lparr>net := nt\<lparr>tx := tx nt @ frame r\<rparr>\<rparr>"
  have "putpkt T t = (Ret 1, ?u)" using reply_sent [of t T] t(3-6) l(4) by simp
  then have "loop_turn K H T argv s = bind_p (handle_terminated_inferior T argv) (\<lambda>_. return_p True) ?u"
    using g t(1) pkt(2) by (simp add: loop_turn_def prog_simps)
  moreover have "answered r rest s ?u" using t(4) l(3-5) by (simp add: answered_def)
  ultimately show ?thesis using frame [OF t(2)] by blast
qed

lemma exchange:
  fixes s :: "('k, 'z) server_state_scheme"
  assumes i: "incoming cs pkt rest s" and pkt: "payload pkt" "pkt \<noteq> []" "length pkt < length (own_buf s)"
    and handled: "\<And>b nt. length b = length (own_buf s) \<Longrightarrow> cstr b 0 = pkt \<Longrightarrow>
      \<exists>t. handle_packet K H T argv (s\<lparr>own_buf := b, net := nt\<rparr>) = (Ret False, t)
        \<and> P t \<and> net t = nt \<and> no_ack_mode t \<and> cstr (own_buf t) 0 = r \<and> status t \<noteq> CHR ''W''
        \<and> status t \<noteq> CHR ''X'' \<and> length r + 5 \<le> PBUFSIZ t"
    and frame: "\<And>t nt. P t \<Longrightarrow> P (t\<lparr>net := nt\<rparr>)"
  shows "\<exists>t. loop_turn K H T argv s = (Ret True, t) \<and> P t \<and> answered r rest s t"
proof -
  let ?P = "\<lambda>t. P t \<and> status t \<noteq> CHR ''W'' \<and> status t \<noteq> CHR ''X''"
  have "\<exists>t. handle_packet K H T argv (s\<lparr>own_buf := b, net := nt\<rparr>) = (Ret False, t) \<and> ?P t \<and> net t = nt
      \<and> no_ack_mode t \<and> cstr (own_buf t) 0 = r \<and> length r + 5 \<le> PBUFSIZ t"
    if "length b = length (own_buf s)" "cstr b 0 = pkt" for b nt
    using handled [OF that, of nt] by blast
  from exchange_reply [where P = ?P, OF i pkt this] frame obtain t where
    "loop_turn K H T argv s = bind_p (handle_terminated_inferior T argv) (\<lambda>_. return_p True) t" "?P t"
    "answered r rest s t" by auto
  moreover from this(2) have "handle_terminated_inferior T argv t = (Ret False, t)"
    by (simp add: handle_terminated_inferior_def)
  ultimately show ?thesis by (auto simp: prog_simps)
qed

end
