(* ===== verification/MemSession.thy ===== *)
theory MemSession
  imports MemProps Exchange
begin

section \<open>Memory requests\<close>

text \<open>
  The handlers of the packets \<^verbatim>\<open>m\<close> and \<^verbatim>\<open>M\<close> (src/server.c) on the Darwin target: from the packet in the
  buffer to the reply in it, through the decoder, the breakpoints and the kernel.
\<close>

definition serves_memory ::
  "('k \<Rightarrow> nat \<Rightarrow> int \<Rightarrow> byte) \<Rightarrow> ('k \<Rightarrow> nat \<Rightarrow> int set) \<Rightarrow> ('k, 'z) server_state_scheme \<Rightarrow> bool" where
  \<comment> \<open>the buffers have their size and the breakpoints are consistent with the memory\<close>
  "serves_memory mem maps s \<longleftrightarrow> breakpoints_ok mem maps s
     \<and> length (own_buf s) = PBUFSIZ s \<and> length (mem_buf s) = PBUFSIZ s \<and> reg_defs s = regs_ppc
     \<and> register_bytes s = 412"

definition m_packet :: "nat \<Rightarrow> nat \<Rightarrow> string" where
  "m_packet a n = ''m'' @ hex_digits a @ '','' @ hex_digits n"

definition M_packet :: "nat \<Rightarrow> byte list \<Rightarrow> string" where
  "M_packet a bs = ''M'' @ hex_digits a @ '','' @ hex_digits (length bs) @ '':'' @ hex_bytes bs"

lemma NUL_notin_packets: "NUL \<notin> set (m_packet a n)" "NUL \<notin> set (M_packet a bs)"
proof -
  have "NUL \<notin> set (hex_digits i)" for i using hex_digits_set hex_digit_not_special(6) by metis
  then show "NUL \<notin> set (m_packet a n)" "NUL \<notin> set (M_packet a bs)"
    using NUL_notin_hex_bytes [of bs] by (simp_all add: m_packet_def M_packet_def NUL_def)
qed

lemma payload_m_packet: "payload (m_packet a n)"
proof -
  have "payload (hex_digits i)" for i
    by (auto simp: payload_def list_all_iff hex_digit_not_special of_char_hex_digit dest!: hex_digits_set)
  then show ?thesis by (simp add: payload_def m_packet_def NUL_def)
qed

lemma m_packet_length:
  assumes "mapped_mem maps s (int a) n" and "n < 1000"
  shows "length (m_packet a n) < 2000"
proof -
  have "length (hex_digits n) \<le> 4" by (rule length_hex_digits) (use assms(2) in simp_all)
  moreover have "length (hex_digits a) \<le> 16"
    by (rule length_hex_digits) (use assms(1) in \<open>simp_all add: mapped_mem_def in_mem_def\<close>)
  ultimately show ?thesis by (simp add: m_packet_def)
qed

lemma serves_memory_size:
  "serves_memory mem maps s \<Longrightarrow> length (own_buf s) = 2000 \<and> length (mem_buf s) = 2000"
  by (simp add: serves_memory_def PBUFSIZ_def registers_length_def)

lemma buffers_apart [simp]:
  "breakpoints_ok mem maps (s\<lparr>own_buf := b\<rparr>) = breakpoints_ok mem maps s"
  "breakpoints_ok mem maps (s\<lparr>mem_buf := m\<rparr>) = breakpoints_ok mem maps s"
  "client_view mem (s\<lparr>own_buf := b\<rparr>) = client_view mem s"
  "client_view mem (s\<lparr>mem_buf := m\<rparr>) = client_view mem s"
  "mapped_mem maps (s\<lparr>own_buf := b\<rparr>) = mapped_mem maps s"
  "mapped_mem maps (s\<lparr>mem_buf := m\<rparr>) = mapped_mem maps s"
  "breakpoints_ok mem maps (s\<lparr>net := nt\<rparr>) = breakpoints_ok mem maps s"
  "client_view mem (s\<lparr>net := nt\<rparr>) = client_view mem s"
  "mapped_mem maps (s\<lparr>net := nt\<rparr>) = mapped_mem maps s"
  "breakpoints_ok mem maps (s\<lparr>no_ack_mode := w\<rparr>) = breakpoints_ok mem maps s"
  "mapped_mem maps (s\<lparr>no_ack_mode := w\<rparr>) = mapped_mem maps s"
  "client_view mem (s\<lparr>no_ack_mode := w\<rparr>) = client_view mem s"
  "task_maps maps (s\<lparr>own_buf := b\<rparr>) = task_maps maps s" "task_maps maps (s\<lparr>mem_buf := m\<rparr>) = task_maps maps s"
  "task_maps maps (s\<lparr>net := nt\<rparr>) = task_maps maps s"
  by (simp_all only: mem_state_defs bp_ok_def task_mem_def task_maps_def shadow_def fun_eq_iff) simp_all

lemma serves_memory_buffers:
  assumes "serves_memory mem maps s" and "length b = length (own_buf s)" and "length m = length (mem_buf s)"
  shows "serves_memory mem maps (s\<lparr>own_buf := b, mem_buf := m\<rparr>)"
  using assms by (simp add: serves_memory_def PBUFSIZ_def registers_length_def)

lemma serves_memory_net [simp]:
  "serves_memory mem maps (s\<lparr>net := nt\<rparr>) = serves_memory mem maps s"
  "serves_memory mem maps (s\<lparr>no_ack_mode := w\<rparr>) = serves_memory mem maps s"
  by (simp_all add: serves_memory_def PBUFSIZ_def registers_length_def)

lemma serves_memory_kept:
  assumes "serves_memory mem maps s" and "breakpoints_ok mem maps t" and "mem_frame s t"
  shows "serves_memory mem maps t" "own_buf t = own_buf s" "mem_buf t = mem_buf s" "connection_of t = connection_of s"
    "breakpoint_len t = breakpoint_len s" "breakpoint_data t = breakpoint_data s"
proof -
  have f: "breakpoint_len t = breakpoint_len s" "breakpoint_data t = breakpoint_data s" "own_buf t = own_buf s" "mem_buf t = mem_buf s" "connection_of t = connection_of s" "reg_defs t = reg_defs s" "register_bytes t = register_bytes s"
    by (subst assms(3) [unfolded mem_frame_def, symmetric], simp add: connection_of_def)+
  then show "own_buf t = own_buf s" "mem_buf t = mem_buf s" "connection_of t = connection_of s"
    "breakpoint_len t = breakpoint_len s" "breakpoint_data t = breakpoint_data s" by simp_all
  from f assms(1,2) show "serves_memory mem maps t"
    by (simp add: serves_memory_def PBUFSIZ_def registers_length_def)
qed

context kernel_memory
begin

lemma m_request:
  assumes s: "serves_memory mem maps s" and p: "cstr (own_buf s) 0 = m_packet a n"
    and m: "mapped_mem maps s (int a) n" and n: "n < 1000"
  shows "\<exists>t. handle_m_read_mem (darwin_ops K) s = (Ret (), t)
    \<and> cstr (own_buf t) 0 = hex_bytes (mem_bytes (client_view mem s) (int a) n)
    \<and> serves_memory mem maps t \<and> client_view mem t = client_view mem s
    \<and> connection_of t = connection_of s \<and> task_maps maps t = task_maps maps s
    \<and> breakpoints t = breakpoints s \<and> breakpoint_len t = breakpoint_len s
    \<and> breakpoint_data t = breakpoint_data s"
proof -
  have a: "a < 2 ^ 63" using m by (simp add: mapped_mem_def in_mem_def)
  have d: "decode_m_packet (drop 1 (cstr (own_buf s) 0)) = Ret (int a, n)"
    using decode_m_packet_hex [OF a, of n] n by (simp add: p m_packet_def)
  obtain t where t: "read_inferior_memory (darwin_ops K) (int a) n s =
      (Ret (mem_bytes (client_view mem s) (int a) n), t)" "breakpoints_ok mem maps t" "mem_frame s t"
      "client_view mem t = client_view mem s" "task_maps maps t = task_maps maps s" "breakpoints t = breakpoints s"
    using memory_target.read_shadow [OF darwin_contract, of s "int a" n] s m
    unfolding mem_state_defs serves_memory_def keeps_memory_def by blast
  note k = serves_memory_kept [OF s t(2,3)]
  let ?bytes = "mem_bytes (client_view mem s) (int a) n"
  let ?u = "t\<lparr>own_buf := overwrite (own_buf t) 0 (hex_bytes ?bytes @ [NUL]),
    mem_buf := overwrite (mem_buf t) 0 ?bytes\<rparr>"
  have z: "length (own_buf t) = 2000" "length (mem_buf t) = 2000"
    using serves_memory_size [OF k(1)] by simp_all
  have "handle_m_read_mem (darwin_ops K) s = (Ret (), ?u)"
    unfolding handle_m_read_mem_def using d t(1) z n
    by (simp add: prog_simps convert_int_to_ascii_eq)
  moreover have "serves_memory mem maps ?u" "client_view mem ?u = client_view mem s"
    using serves_memory_buffers [OF k(1), of "own_buf ?u" "mem_buf ?u"] z n t(4) by simp_all
  moreover have "connection_of ?u = connection_of s" using k(4) by (simp add: connection_of_def)
  moreover have "task_maps maps ?u = task_maps maps s" "breakpoints ?u = breakpoints s"
    "breakpoint_len ?u = breakpoint_len s" "breakpoint_data ?u = breakpoint_data s"
    using t(5,6) k(5,6) by simp_all
  ultimately show ?thesis by (intro exI [of _ ?u]) simp
qed

lemma M_request:
  assumes s: "serves_memory mem maps s" and p: "cstr (own_buf s) 0 = M_packet a bs"
    and m: "mapped_mem maps s (int a) (length bs)" and n: "bs \<noteq> []" "length bs \<le> 2000"
  shows "\<exists>t. handle_M_write_mem (darwin_ops K) s = (Ret (), t) \<and> cstr (own_buf t) 0 = ''OK''
    \<and> serves_memory mem maps t \<and> client_view mem t = write_bytes (client_view mem s) (int a) bs
    \<and> task_maps maps t = task_maps maps s \<and> map bp_pc (breakpoints t) = map bp_pc (breakpoints s)
    \<and> map reinserting (breakpoints t) = map reinserting (breakpoints s)
    \<and> breakpoint_len t = breakpoint_len s \<and> breakpoint_data t = breakpoint_data s"
proof -
  have a: "a < 2 ^ 63" using m by (simp add: mapped_mem_def in_mem_def)
  have l: "length bs < 2 ^ 32" using n by simp
  have d: "decode_M_packet (drop 1 (cstr (own_buf s) 0)) = Ret (int a, length bs, bs, Ret ())"
    using decode_M_packet_hex [OF a l, of "hex_bytes bs"] convert_ascii_to_int_hex [of bs "[]"]
    by (simp add: p M_packet_def)
  let ?s = "s\<lparr>mem_buf := overwrite (mem_buf s) 0 bs\<rparr>"
  have z: "length (own_buf s) = 2000" "length (mem_buf s) = 2000"
    using serves_memory_size [OF s] by simp_all
  have s': "serves_memory mem maps ?s"
    using serves_memory_buffers [OF s refl, of "mem_buf ?s"] z n by simp
  have m': "mapped_mem maps ?s (int a) (length bs)" using m by simp
  obtain t where t: "write_inferior_memory (darwin_ops K) (int a) bs ?s = (Ret 0, t)"
      "breakpoints_ok mem maps t" "client_view mem t = write_bytes (client_view mem ?s) (int a) bs"
      "mem_frame ?s t" "task_maps maps t = task_maps maps ?s"
      "map bp_pc (breakpoints t) = map bp_pc (breakpoints ?s)"
      "map reinserting (breakpoints t) = map reinserting (breakpoints ?s)"
    using memory_target.write_shadow [OF darwin_contract, of ?s "int a" bs] s' m' n(1)
    unfolding mem_state_defs serves_memory_def by blast
  note k = serves_memory_kept [OF s' t(2,4)]
  have zt: "length (own_buf t) = 2000" using serves_memory_size [OF k(1)] by simp
  let ?u = "t\<lparr>own_buf := overwrite (own_buf t) 0 (''OK'' @ [NUL])\<rparr>"
  have "handle_M_write_mem (darwin_ops K) s = (Ret (), ?u)"
    unfolding handle_M_write_mem_def using d t(1) z zt n by (simp add: prog_simps)
  moreover have "serves_memory mem maps ?u"
    using serves_memory_buffers [OF k(1), of "own_buf ?u" "mem_buf t"] zt by simp
  ultimately show ?thesis using t(3,5-7) k(5,6) by (intro exI [of _ ?u]) simp
qed

lemma m_overflow:
  assumes s: "serves_memory mem maps s" and p: "cstr (own_buf s) 0 = m_packet a n"
    and m: "mapped_mem maps s (int a) n" and n: "1000 \<le> n" "n < 16 ^ 4"
  shows "fst (handle_m_read_mem (darwin_ops K) s) = Fault"
proof -
  have a: "a < 2 ^ 63" using m by (simp add: mapped_mem_def in_mem_def)
  have d: "decode_m_packet (drop 1 (cstr (own_buf s) 0)) = Ret (int a, n)"
    using decode_m_packet_hex [OF a n(2)] by (simp add: p m_packet_def)
  obtain t where t: "read_inferior_memory (darwin_ops K) (int a) n s =
      (Ret (mem_bytes (client_view mem s) (int a) n), t)" "breakpoints_ok mem maps t" "mem_frame s t"
    using memory_target.read_shadow [OF darwin_contract, of s "int a" n] s m
    unfolding mem_state_defs serves_memory_def keeps_memory_def by blast
  have z: "length (own_buf t) = 2000" "length (mem_buf t) = 2000"
    using serves_memory_size [OF serves_memory_kept(1) [OF s t(2,3)]] by simp_all
  show ?thesis
    unfolding handle_m_read_mem_def using d t(1) z n
    by (simp add: prog_simps convert_int_to_ascii_eq set_mem_buf_def put_str_def store_def)
qed

end

subsection \<open>A server with a breakpoint\<close>

definition demo_bp_server :: "string \<Rightarrow> flat server_state" where
  \<comment> \<open>the server of theory \<open>Demo\<close> with a breakpoint at 4096\<close>
  "demo_bp_server pkt = (demo_server (demo_cache True) pkt)\<lparr>
     kst := (demo_kernel_state [])\<lparr>fl_mem := write_bytes (\<lambda>_. 0) 4096 (be32 ppc_breakpoint)\<rparr>,
     bp_brk := 1,
     breakpoints := [\<lparr>bp_addr = 0, bp_pc = 4096, old_data = replicate 8 0, reinserting = False,
       breakpoint_to_reinsert = None, handler = None\<rparr>]\<rparr>"

lemma demo_bp_serves:
  assumes "length pkt < 2000"
  shows "serves_memory flat_mem flat_maps (demo_bp_server pkt)"
proof -
  have "mem_bytes (write_bytes (\<lambda>_. 0) 4096 (be32 ppc_breakpoint)) 4096 4 = be32 ppc_breakpoint"
    using mem_bytes_write_bytes [of "\<lambda>_. 0" 4096 "be32 ppc_breakpoint"] by simp
  then have "breakpoints_ok flat_mem flat_maps (demo_bp_server pkt)"
    by (simp add: breakpoints_ok_def bp_ok_def bps_ok_def demo_bp_server_def demo_server_def
        task_mem_def flat_mem_def task_maps_def flat_maps_def bp_range_def MACH_PORT_NULL_def)
  with assms show ?thesis
    by (simp add: serves_memory_def demo_bp_server_def demo_server_def PBUFSIZ_def registers_length_def)
qed

lemma demo_bp_mapped:
  "0 \<le> a \<Longrightarrow> a + int n \<le> 2147483648 \<Longrightarrow> mapped_mem flat_maps (demo_bp_server pkt) a n"
  by (auto simp: mapped_mem_def in_mem_def task_maps_def demo_bp_server_def demo_server_def
      flat_maps_def MACH_PORT_NULL_def)

lemma demo_bp_packet: "NUL \<notin> set pkt \<Longrightarrow> cstr (own_buf (demo_bp_server pkt)) 0 = pkt"
  using demo_packet [of pkt] by (simp add: demo_bp_server_def)

definition demo_waiting_net :: "string \<Rightarrow> net" where
  "demo_waiting_net pkt = \<lparr>rc_buf = [], rx = [Rx_bytes (frame pkt)], tx = [], tx_script = []\<rparr>"

definition demo_waiting :: "string \<Rightarrow> flat server_state" where
  \<comment> \<open>the same, without acknowledgements, with a packet on the connection\<close>
  "demo_waiting pkt = (demo_bp_server [])\<lparr>no_ack_mode := True, net := demo_waiting_net pkt\<rparr>"

subsection \<open>The properties\<close>

text \<open>
  C10: What an \<open>M\<close> packet writes is what the following \<open>m\<close> packet shows: \<open>M\<close> is answered with
  OK, the \<open>m\<close> packet for the same place with the hexadecimal text of the same bytes, wherever
  breakpoints are inserted, and the client's view of all other memory is unchanged.
\<close>

theorem M_then_m:
  assumes "kernel_memory K mem maps writable" and "serves_memory mem maps s"
    and "cstr (own_buf s) 0 = M_packet a bs" and "mapped_mem maps s (int a) (length bs)"
    and "bs \<noteq> []" and "length bs < 1000"
  shows "\<exists>t u. handle_M_write_mem (darwin_ops K) s = (Ret (), t) \<and> cstr (own_buf t) 0 = ''OK''
    \<and> handle_m_read_mem (darwin_ops K) (next_packet (m_packet a (length bs)) t) = (Ret (), u)
    \<and> cstr (own_buf u) 0 = hex_bytes bs
    \<and> client_view mem u = write_bytes (client_view mem s) (int a) bs"
proof -
  obtain t where t: "handle_M_write_mem (darwin_ops K) s = (Ret (), t)" "cstr (own_buf t) 0 = ''OK''"
      "serves_memory mem maps t" "client_view mem t = write_bytes (client_view mem s) (int a) bs"
      "task_maps maps t = task_maps maps s"
    using kernel_memory.M_request [OF assms(1-5)] assms(6) by auto
  let ?t = "next_packet (m_packet a (length bs)) t"
  have z: "length (m_packet a (length bs)) < 2000" using assms(4,6) by (rule m_packet_length)
  have "cstr (own_buf ?t) 0 = m_packet a (length bs)"
    using NUL_notin_packets(1) by (simp add: next_packet_def cstr_overwrite)
  moreover have "serves_memory mem maps ?t"
    using serves_memory_buffers [OF t(3), of "own_buf ?t" "mem_buf t"] z serves_memory_size [OF t(3)]
    by (simp add: next_packet_def)
  moreover have "mapped_mem maps ?t (int a) (length bs)"
    using assms(4) t(5) by (simp add: next_packet_def mapped_mem_def)
  ultimately obtain u where u: "handle_m_read_mem (darwin_ops K) ?t = (Ret (), u)"
      "cstr (own_buf u) 0 = hex_bytes (mem_bytes (client_view mem ?t) (int a) (length bs))"
      "client_view mem u = client_view mem ?t"
    using kernel_memory.m_request [OF assms(1)] assms(6) by blast
  have "client_view mem ?t = write_bytes (client_view mem s) (int a) bs"
    using t(4) by (simp add: next_packet_def)
  with t u show ?thesis by auto
qed

theorem M_then_m_witness:
  "\<exists>t u. handle_M_write_mem (darwin_ops flat_kernel) (demo_bp_server (M_packet 4094 [1, 2, 3, 4])) = (Ret (), t)
     \<and> handle_m_read_mem (darwin_ops flat_kernel) (next_packet (m_packet 4094 4) t) = (Ret (), u)
     \<and> cstr (own_buf u) 0 = hex_bytes [1, 2, 3, 4]"
proof -
  have four: "Suc (Suc (Suc (Suc 0))) = (4 :: nat)" by simp
  have "length (hex_digits (length [1, 2, 3, 4 :: byte])) \<le> 1" "length (hex_digits 4094) \<le> 3"
    by (rule length_hex_digits; simp)+
  then have "length (M_packet 4094 [1, 2, 3, 4]) < 2000" unfolding M_packet_def by simp
  from M_then_m [OF flat.kernel_memory_axioms demo_bp_serves [OF this]
      demo_bp_packet [OF NUL_notin_packets(2)] demo_bp_mapped]
  show ?thesis by (auto simp: four)
qed

text \<open>
  A request for memory from the connection to the connection: in a turn of the packet loop without
  acknowledgements, the packet \<open>m\<close> on the connection, after any stray characters, is answered with the
  frame of the hexadecimal text of the program's own bytes, and the server is ready for the next turn
  with the same memory for the client.  A reply of 998 bytes would not fit the buffer of \<open>putpkt\<close> with
  its frame.
\<close>

theorem m_packet_is_answered:
  assumes "kernel_memory K mem maps writable" and "serves_memory mem maps s"
    and "incoming cs (m_packet a n) rest s" and "mapped_mem maps s (int a) n" and "n < 998"
    and "status s \<noteq> CHR ''W''" and "status s \<noteq> CHR ''X''"
  shows "\<exists>t. loop_turn K H (darwin_ops K) argv s = (Ret True, t)
    \<and> answered (hex_bytes (mem_bytes (client_view mem s) (int a) n)) rest s t
    \<and> serves_memory mem maps t \<and> client_view mem t = client_view mem s"
proof -
  let ?r = "hex_bytes (mem_bytes (client_view mem s) (int a) n)"
  let ?P = "\<lambda>t. serves_memory mem maps t \<and> client_view mem t = client_view mem s"
  have "\<exists>t. handle_packet K H (darwin_ops K) argv (s\<lparr>own_buf := b, net := nt\<rparr>) = (Ret False, t)
      \<and> ?P t \<and> net t = nt \<and> no_ack_mode t \<and> cstr (own_buf t) 0 = ?r \<and> status t \<noteq> CHR ''W''
      \<and> status t \<noteq> CHR ''X'' \<and> length ?r + 5 \<le> PBUFSIZ t"
    if b: "length b = length (own_buf s)" "cstr b 0 = m_packet a n" for b nt
  proof -
    let ?s = "s\<lparr>own_buf := b, net := nt\<rparr>"
    have "serves_memory mem maps ?s"
      using serves_memory_buffers [OF assms(2) b(1), of "mem_buf s"] by simp
    with b(2) assms(1,4,5) obtain t where t: "handle_m_read_mem (darwin_ops K) ?s = (Ret (), t)"
        "cstr (own_buf t) 0 = ?r" "?P t" "connection_of t = connection_of ?s"
      using kernel_memory.m_request [of K mem maps writable ?s a n] by auto
    have "handle_packet K H (darwin_ops K) argv ?s = (Ret False, t)"
      using b(2) t(1) by (simp add: handle_packet_def prog_simps m_packet_def)
    moreover have "length ?r + 5 \<le> PBUFSIZ t" using assms(5) by (simp add: PBUFSIZ_def)
    ultimately show ?thesis
      using t(2-4) assms(3,6,7) by (simp add: connection_of_def incoming_def)
  qed
  moreover have "payload (m_packet a n)" "m_packet a n \<noteq> []" "length (m_packet a n) < length (own_buf s)"
    using payload_m_packet m_packet_length [OF assms(4)] assms(5) serves_memory_size [OF assms(2)]
    by (simp_all add: m_packet_def)
  ultimately show ?thesis
    using exchange [OF assms(3), of K H "darwin_ops K" argv ?P ?r] by (auto simp: answered_def)
qed

theorem m_packet_is_answered_witness:
  "\<exists>t. loop_turn flat_kernel darwin_host (darwin_ops flat_kernel) [] (demo_waiting (m_packet 4094 4)) = (Ret True, t)
     \<and> stream (net t) = [] \<and> tx (net t) = frame (hex_bytes
         (mem_bytes (client_view flat_mem (demo_waiting (m_packet 4094 4))) 4094 4))"
proof -
  let ?s = "demo_waiting (m_packet 4094 4)"
  have "serves_memory flat_mem flat_maps ?s" "mapped_mem flat_maps ?s (int 4094) 4"
    using demo_bp_serves [of "[]"] demo_bp_mapped [of 4094 4 "[]"] by (simp_all add: demo_waiting_def)
  moreover have "status ?s = CHR ''T''" "tx (net ?s) = []" "incoming [] (m_packet 4094 4) [] ?s"
    by (simp_all add: demo_waiting_def demo_waiting_net_def incoming_def stream_def demo_bp_server_def
        demo_server_def frame_def stray_def)
  ultimately show ?thesis
    using m_packet_is_answered [OF flat.kernel_memory_axioms, of ?s "[]" 4094 4 "[]" darwin_host "[]"]
    by (auto simp: answered_def)
qed

text \<open>
  C35: A request for 1000 bytes or more that exist overruns a buffer: \<open>m\<close> takes lengths of four
  digits, but \<open>mem_buf\<close> and \<open>own_buf\<close> have 2000 bytes each and the reply takes two characters for
  each byte.  Nothing checks the length, though the server announces only its packet size.
\<close>

theorem m_overruns_the_buffers:
  assumes "kernel_memory K mem maps writable" and "serves_memory mem maps s"
    and "cstr (own_buf s) 0 = m_packet a n" and "mapped_mem maps s (int a) n"
    and "1000 \<le> n" and "n < 16 ^ 4"
  shows "fst (handle_m_read_mem (darwin_ops K) s) = Fault"
  using assms by (rule kernel_memory.m_overflow)


theorem m_overruns_the_buffers_witness:
  "fst (handle_m_read_mem (darwin_ops flat_kernel) (demo_bp_server (m_packet 4096 1000))) = Fault"
proof -
  have "length (hex_digits 1000) \<le> 3" "length (hex_digits 4096) \<le> 4" by (rule length_hex_digits; simp)+
  then have "length (m_packet 4096 1000) < 2000" by (simp add: m_packet_def)
  from m_overruns_the_buffers [OF flat.kernel_memory_axioms demo_bp_serves [OF this]
      demo_bp_packet [OF NUL_notin_packets(1)] demo_bp_mapped]
  show ?thesis by simp
qed

end
