(* ===== verification/Unmapped.thy ===== *)
theory Unmapped
  imports MemSession
begin

section \<open>Memory that does not exist\<close>

text \<open>
  What \<^verbatim>\<open>darwin_read_memory\<close> and \<^verbatim>\<open>darwin_write_memory\<close> (src/darwin-low.c) do when the Mach calls fail because the task has
  no such memory: they go on word by word with \<^verbatim>\<open>ptrace\<close>, which fails too.  A read then gives zeros, a write
  the error of the first word.  \<open>kernel_unmapped\<close> is what the kernel does with such calls.
\<close>

definition outside :: "int set \<Rightarrow> int \<Rightarrow> nat \<Rightarrow> bool" where
  "outside m a n \<longleftrightarrow> 0 < n \<and> 0 \<le> a \<and> a + int n \<le> 4294967296 \<and> (\<forall>i < n. a + int i \<notin> m)"

lemma outsideD:
  assumes "outside m a n"
  shows "0 < n" "0 \<le> a" "a < 4294967296" "a \<notin> m" "a + int n - 1 \<notin> m"
proof -
  have n: "0 < n" "0 \<le> a" "a + int n \<le> 4294967296" and out: "\<And>i. i < n \<Longrightarrow> a + int i \<notin> m"
    using assms by (auto simp: outside_def)
  then show "0 < n" "0 \<le> a" "a < 4294967296" by simp_all
  show "a \<notin> m" "a + int n - 1 \<notin> m" using out [of 0] out [of "n - 1"] n(1) by (simp_all add: of_nat_diff algebra_simps)
qed

lemma outside_tail:
  assumes "outside m a n" and "4 < n"
  shows "outside m (a + 4) (n - 4)"
proof -
  have "a + 4 + int i \<notin> m" if "i < n - 4" for i
  proof -
    have "4 + i < n" using that by simp
    with assms(1) have "a + int (4 + i) \<notin> m" unfolding outside_def by blast
    then show ?thesis by (simp add: algebra_simps)
  qed
  with assms show ?thesis by (auto simp: outside_def of_nat_diff)
qed

locale kernel_unmapped =
  kernel_memory K mem maps writable for K :: "'k kernel" and mem maps writable +
  fixes pid :: int and task :: nat
  assumes vm_read_fails: "outside (maps k task) a n \<Longrightarrow>
      \<exists>k'. k_vm_read K task a n k = (None, k') \<and> mem k' = mem k \<and> maps k' = maps k"
    and vm_write_fails: "outside (maps k task) a (length bs) \<Longrightarrow>
      \<exists>k'. k_vm_write K task a bs k = (False, k') \<and> mem k' = mem k \<and> maps k' = maps k"
    and vm_protect_fails: "outside (maps k task) a n \<Longrightarrow>
      \<exists>k'. k_vm_protect K task a n k = (False, k') \<and> mem k' = mem k \<and> maps k' = maps k"
    and ptrace_fails: "req \<in> {PT_READ_D, PT_WRITE_D} \<Longrightarrow> a \<notin> maps k task \<Longrightarrow>
      \<exists>w e k'. k_ptrace K req pid a d k = ((w, e), k') \<and> e \<noteq> 0 \<and> mem k' = mem k \<and> maps k' = maps k"

lemma outside_not_in_mem:
  assumes "outside m a n"
  shows "\<not> in_mem m a n"
proof -
  have "a \<in> {a..<a + int n}" using outsideD(1) [OF assms] by simp
  with outsideD(4) [OF assms] show ?thesis unfolding in_mem_def by blast
qed

lemma flat_outside: "outside (flat_maps k task) a n \<Longrightarrow> \<not> fl_range a n"
  using outsideD [of "flat_maps k task" a n] by (auto simp: fl_range_def flat_maps_def)

interpretation flat_unmapped: kernel_unmapped flat_kernel flat_mem flat_maps flat_writable pid task for pid task
proof unfold_locales
  fix k a n and bs :: "byte list" and d :: "32 word" and req
  assume "outside (flat_maps k task) a n"
  then show "\<exists>k'. k_vm_read flat_kernel task a n k = (None, k') \<and> flat_mem k' = flat_mem k \<and> flat_maps k' = flat_maps k"
    "\<exists>k'. k_vm_protect flat_kernel task a n k = (False, k') \<and> flat_mem k' = flat_mem k \<and> flat_maps k' = flat_maps k"
    using flat_outside by (simp_all add: flat_kernel_def)
next
  fix k a and bs :: "byte list"
  assume "outside (flat_maps k task) a (length bs)"
  then show "\<exists>k'. k_vm_write flat_kernel task a bs k = (False, k') \<and> flat_mem k' = flat_mem k \<and> flat_maps k' = flat_maps k"
    using flat_outside by (simp add: flat_kernel_def)
next
  fix k a and d :: "32 word" and req
  assume "req \<in> {PT_READ_D, PT_WRITE_D}" "a \<notin> flat_maps k task"
  then show "\<exists>w e k'. k_ptrace flat_kernel req pid a d k = ((w, e), k') \<and> e \<noteq> 0 \<and> flat_mem k' = flat_mem k
      \<and> flat_maps k' = flat_maps k"
    by (auto simp: flat_kernel_def flat_maps_def fl_range_def)
qed

subsection \<open>The target\<close>

lemma vm_address_inside: "0 \<le> a \<Longrightarrow> a < 4294967296 \<Longrightarrow> vm_address a = a"
  by (simp add: vm_address_def)

context kernel_unmapped
begin

lemma kcall_fails:
  assumes "req \<in> {PT_READ_D, PT_WRITE_D}" and "a \<notin> maps (kst s) task"
  obtains w e k where "kcall (k_ptrace K req pid a d) s = (Ret (w, e), s\<lparr>kst := k\<rparr>)" and "e \<noteq> 0" and "mem k = mem (kst s)"
    and "maps k = maps (kst s)"
proof -
  from ptrace_fails [OF assms] obtain w e k where
    "k_ptrace K req pid a d (kst s) = ((w, e), k)" "e \<noteq> 0" "mem k = mem (kst s)" "maps k = maps (kst s)" by blast
  with that show thesis by (simp add: kcall_def)
qed

lemma ptrace_read_zeros:
  fixes s :: "('k, 'z) darwin_state_scheme"
  assumes "outside (maps (kst s) task) a n"
  shows "\<exists>k. ptrace_read K pid a n s = (Ret (replicate n 0), s\<lparr>kst := k\<rparr>) \<and> mem k = mem (kst s) \<and> maps k = maps (kst s)"
  using assms
proof (induction n arbitrary: a s rule: less_induct)
  case (less n)
  have n: "0 < n" "0 \<le> a" "a < 4294967296" "a \<notin> maps (kst s) task"
    using outsideD [OF less.prems] by simp_all
  obtain w e k where w: "kcall (k_ptrace K PT_READ_D pid a 0) s = (Ret (w, e), s\<lparr>kst := k\<rparr>)" "e \<noteq> 0"
      "mem k = mem (kst s)" "maps k = maps (kst s)"
    using kcall_fails [of PT_READ_D a s 0] n(4) by auto
  have "\<exists>k'. ptrace_read K pid (a + 4) (n - min n 4) (s\<lparr>kst := k\<rparr>) = (Ret (replicate (n - min n 4) 0), s\<lparr>kst := k'\<rparr>)
      \<and> mem k' = mem (kst s) \<and> maps k' = maps (kst s)"
  proof (cases "4 < n")
    case True
    with less.IH [of "n - min n 4" "s\<lparr>kst := k\<rparr>" "a + 4"] outside_tail [OF less.prems True] w(3,4) show ?thesis by auto
  next
    case False
    then have z: "n - min n 4 = 0" by simp
    show ?thesis unfolding z by (subst ptrace_read.simps, rule exI [of _ k]) (use w(3,4) in \<open>simp add: prog_simps\<close>)
  qed
  then obtain k' where k': "ptrace_read K pid (a + 4) (n - min n 4) (s\<lparr>kst := k\<rparr>) = (Ret (replicate (n - min n 4) 0), s\<lparr>kst := k'\<rparr>)"
      "mem k' = mem (kst s)" "maps k' = maps (kst s)" by blast
  have "replicate (min n 4) (0 :: byte) @ replicate (n - min n 4) 0 = replicate n 0"
    by (simp add: replicate_add [symmetric])
  then show ?case
    using k' by (subst ptrace_read.simps, intro exI [of _ k']) (use n w(1,2) in \<open>simp add: prog_simps vm_address_inside\<close>)
qed

lemma ptrace_write_error:
  fixes s :: "('k, 'z) darwin_state_scheme"
  assumes "outside (maps (kst s) task) a (length bs)"
  shows "\<exists>e k. ptrace_write K pid a bs s = (Ret e, s\<lparr>kst := k\<rparr>) \<and> e \<noteq> 0 \<and> mem k = mem (kst s) \<and> maps k = maps (kst s)"
proof -
  have n: "bs \<noteq> []" "0 \<le> a" "a < 4294967296" "a \<notin> maps (kst s) task"
    using outsideD [OF assms] by simp_all
  let ?req = "if length bs < 4 then PT_READ_D else PT_WRITE_D"
  let ?d = "if length bs < 4 then 0 else of_be32 (take 4 bs @ drop (length (take 4 bs)) (be32 0))"
  obtain w e k where w: "kcall (k_ptrace K ?req pid a ?d) s = (Ret (w, e), s\<lparr>kst := k\<rparr>)" "e \<noteq> 0"
      "mem k = mem (kst s)" "maps k = maps (kst s)"
    by (rule kcall_fails [of ?req a s ?d]) (use n(4) in simp_all)
  then show ?thesis
    by (intro exI [of _ e] exI [of _ k], subst ptrace_write.simps)
      (use n in \<open>auto simp: prog_simps vm_address_inside split: if_splits\<close>)
qed

end


definition debugs :: "int \<Rightarrow> nat \<Rightarrow> ('k, 'z) darwin_state_scheme \<Rightarrow> bool" where
  \<comment> \<open>the server holds this process\<close>
  "debugs pid task s \<longleftrightarrow> current_task s = task \<and> task \<noteq> MACH_PORT_NULL
     \<and> (\<exists>p pi. current_proc s p pi \<and> p_pid pi = pid)"

lemma debugs_frame:
  assumes "debugs pid task s" and "current_task t = current_task s" and "current_inferior t = current_inferior s"
    and "threads t = threads s" and "procs t = procs s"
  shows "debugs pid task t"
  using assms by (simp add: debugs_def current_proc_def)

lemma debugs_process:
  assumes "debugs pid task s"
  shows "\<exists>p pi. current_process s = (Ret (p, pi), s) \<and> p_pid pi = pid"
  using assms current_process_eq by (fastforce simp: debugs_def)

context kernel_unmapped
begin

lemma darwin_read_outside:
  assumes d: "debugs pid task s" and o: "outside (maps (kst s) task) a n"
  shows "\<exists>k. darwin_read_memory K a n s = (Ret (replicate n 0), s\<lparr>kst := k\<rparr>) \<and> mem k = mem (kst s) \<and> maps k = maps (kst s)"
proof -
  have task: "current_task s = task" "task \<noteq> MACH_PORT_NULL" using d by (simp_all add: debugs_def)
  obtain k where k: "k_vm_read K task a n (kst s) = (None, k)" "mem k = mem (kst s)" "maps k = maps (kst s)"
    using vm_read_fails [OF o] by blast
  let ?s = "s\<lparr>kst := k\<rparr>"
  have "debugs pid task ?s" by (rule debugs_frame [OF d]) simp_all
  then obtain p pi where p: "current_process ?s = (Ret (p, pi), ?s)" "p_pid pi = pid"
    using debugs_process by blast
  obtain k' where "ptrace_read K pid a n ?s = (Ret (replicate n 0), s\<lparr>kst := k'\<rparr>)" "mem k' = mem (kst s)"
      "maps k' = maps (kst s)"
    using ptrace_read_zeros [of ?s a n] o k(2,3) by auto
  then show ?thesis
    using k(1) p task outsideD(2,3) [OF o]
    by (intro exI [of _ k']) (simp add: darwin_read_memory_def prog_simps kcall_def vm_address_inside)
qed

lemma darwin_write_outside:
  assumes d: "debugs pid task s" and o: "outside (maps (kst s) task) a (length bs)"
  shows "\<exists>e k. darwin_write_memory K a bs s = (Ret e, s\<lparr>kst := k\<rparr>) \<and> e \<noteq> 0 \<and> mem k = mem (kst s) \<and> maps k = maps (kst s)"
proof -
  have task: "current_task s = task" "task \<noteq> MACH_PORT_NULL" using d by (simp_all add: debugs_def)
  obtain k1 where k1: "k_vm_write K task a bs (kst s) = (False, k1)" "mem k1 = mem (kst s)" "maps k1 = maps (kst s)"
    using vm_write_fails [OF o] by blast
  obtain k2 where k2: "k_vm_protect K task a (length bs) k1 = (False, k2)" "mem k2 = mem k1" "maps k2 = maps k1"
    using vm_protect_fails [of k1 a "length bs"] o k1(3) by auto
  let ?s = "s\<lparr>kst := k2\<rparr>"
  have "debugs pid task ?s" by (rule debugs_frame [OF d]) simp_all
  then obtain p pi where p: "current_process ?s = (Ret (p, pi), ?s)" "p_pid pi = pid"
    using debugs_process by blast
  obtain e k' where "ptrace_write K pid a bs ?s = (Ret e, s\<lparr>kst := k'\<rparr>)" "e \<noteq> 0" "mem k' = mem (kst s)"
      "maps k' = maps (kst s)"
    using ptrace_write_error [of ?s a bs] o k1(2,3) k2(2,3) by auto
  then show ?thesis
    using k1(1) k2(1) p task outsideD(2,3) [OF o]
    by (intro exI [of _ e] exI [of _ k']) (simp add: darwin_write_memory_def prog_simps kcall_def vm_address_inside)
qed

end

subsection \<open>Past the breakpoints\<close>

lemma absorb_outside:
  assumes "length (old_data b) = 8" and "\<And>i. i < len \<Longrightarrow> \<not> (a \<le> bp_pc b + int i \<and> bp_pc b + int i < a + int n)"
  shows "absorb len a n w b = b"
proof -
  have "map (\<lambda>i. if i < len \<and> a \<le> bp_pc b + int i \<and> bp_pc b + int i < a + int n then w (bp_pc b + int i)
      else old_data b ! i) [0..<8] = map ((!) (old_data b)) [0..<8]"
    using assms(2) by (intro map_cong) auto
  also have "\<dots> = old_data b" using map_nth [of "old_data b"] assms(1) by simp
  finally show ?thesis by (simp add: absorb_def)
qed

lemma no_breakpoint_outside:
  assumes "bps_ok len d brk v m bps" and "b \<in> set bps" and "outside m a n" and "covers len b x"
  shows "\<not> (a \<le> x \<and> x < a + int n)"
proof
  assume x: "a \<le> x \<and> x < a + int n"
  have "x \<in> bp_range len b" using assms(4) by (simp add: bp_range_def covers_def)
  moreover have "bp_range len b \<subseteq> m" using assms(1,2) unfolding bps_ok_def by blast
  ultimately have "x \<in> m" by blast
  moreover obtain i where "x = a + int i" using x zle_iff_zadd by blast
  ultimately show False using assms(3) x by (auto simp: outside_def)
qed

lemma checks_outside:
  assumes ok: "breakpoints_ok mem maps s" and space: "task_maps maps s \<subseteq> {0..<4294967296}"
    and o: "outside (task_maps maps s) a n"
  shows "check_mem_read a (replicate n 0) s = (Ret (replicate n 0), s)"
    and "length bs = n \<Longrightarrow> check_mem_write a bs s = (Ret bs, s)"
proof -
  let ?len = "breakpoint_len s" and ?bps = "breakpoints s"
  obtain d where d: "breakpoint_data s = Some d"
      "bps_ok ?len d (bp_brk s) (task_mem mem s) (task_maps maps s) ?bps"
    using ok unfolding breakpoints_ok_def bp_ok_def by blast
  have fits: "\<forall>b \<in> set ?bps. bp_fits ?len b" using bps_ok_fits [OF d(2) _ space] by blast
  have a: "0 \<le> a" "a + int n \<le> 4294967296" using o by (auto simp: outside_def)
  note free = no_breakpoint_outside [OF d(2) _ o]
  have "mem_bytes (shadow_of ?len ?bps (\<lambda>_. 0)) a n = mem_bytes (\<lambda>_. 0) a n"
    by (rule mem_bytes_cong, rule shadow_of_uncovered) (use free in fastforce)
  moreover have zeros: "mem_bytes (\<lambda>_. 0) a n = replicate n 0"
    by (simp add: mem_bytes_def map_replicate_const)
  ultimately show "check_mem_read a (replicate n 0) s = (Ret (replicate n 0), s)"
    using check_mem_read_loop_eq [of ?len ?bps a n "\<lambda>_. 0"] bps_okD [OF d(2)] fits a
    by (simp add: check_mem_read_def prog_simps wrap64_space)
  show "check_mem_write a bs s = (Ret bs, s)" if n: "length bs = n"
  proof -
    define w where "w = write_bytes (\<lambda>_. 0) a bs"
    have bs: "mem_bytes w a n = bs" unfolding w_def n [symmetric] by simp
    have "mem_bytes (planted ?len d ?bps w) a n = mem_bytes w a n"
      by (rule mem_bytes_cong, rule planted_unchanged) (use free in fastforce)
    moreover have "map (absorb ?len a n w) ?bps = ?bps"
    proof (rule map_idI, rule absorb_outside)
      fix b assume b: "b \<in> set ?bps"
      then show "length (old_data b) = 8" using d(2) by (simp add: bps_ok_def)
      show "\<not> (a \<le> bp_pc b + int i \<and> bp_pc b + int i < a + int n)" if "i < ?len" for i
        using free [OF b, of "bp_pc b + int i"] that by (simp add: covers_def)
    qed
    ultimately show ?thesis
      using check_mem_write_loop_eq [of ?len ?bps a n d w] bps_okD [OF d(2)] fits a d(1) bs n
      by (simp add: check_mem_write_def prog_simps wrap64_space)
  qed
qed


subsection \<open>The packets\<close>

lemma cstr_behind: "cstr b 0 = pre @ r \<Longrightarrow> cstr b (length pre) = r"
proof (induction pre arbitrary: b)
  case (Cons c pre)
  then obtain b' where "b = c # b'" "takeWhile (\<lambda>c. c \<noteq> NUL) b' = pre @ r"
    by (cases b) (auto simp: cstr_def split: if_splits)
  with Cons.IH [of b'] show ?case by (simp add: cstr_def)
qed simp

lemma strtoul_packet:
  assumes "a < 2 ^ 32"
  shows "fst (strtoul 16 (hex_digits a @ '',4'')) = int a"
  by (subst strtoul_hex) (use assms in \<open>auto simp: no_digit_start_def digit_value_def ULONG_MAX_def\<close>)

lemma serves_memory_kst:
  assumes "serves_memory mem maps s" and "mem k = mem (kst s)" and "maps k = maps (kst s)"
  shows "serves_memory mem maps (s\<lparr>kst := k\<rparr>)" "client_view mem (s\<lparr>kst := k\<rparr>) = client_view mem s"
    "task_maps maps (s\<lparr>kst := k\<rparr>) = task_maps maps s"
proof -
  have "task_mem mem (s\<lparr>kst := k\<rparr>) = task_mem mem s" "task_maps maps (s\<lparr>kst := k\<rparr>) = task_maps maps s"
    using assms(2,3) by (simp_all add: task_mem_def task_maps_def)
  with assms(1) show "serves_memory mem maps (s\<lparr>kst := k\<rparr>)" "client_view mem (s\<lparr>kst := k\<rparr>) = client_view mem s"
    "task_maps maps (s\<lparr>kst := k\<rparr>) = task_maps maps s"
    by (simp_all add: serves_memory_def mem_state_defs bp_ok_def shadow_def PBUFSIZ_def registers_length_def)
qed

context kernel_unmapped
begin

lemma debugs_maps: "debugs pid task s \<Longrightarrow> task_maps maps s = maps (kst s) task"
  by (auto simp: debugs_def task_maps_def)

lemma m_outside:
  assumes s: "serves_memory mem maps s" and d: "debugs pid task s" and p: "cstr (own_buf s) 0 = m_packet a n"
    and o: "outside (task_maps maps s) (int a) n" and n: "n < 1000"
  shows "\<exists>t. handle_m_read_mem (darwin_ops K) s = (Ret (), t) \<and> cstr (own_buf t) 0 = hex_bytes (replicate n 0)
    \<and> serves_memory mem maps t \<and> client_view mem t = client_view mem s
    \<and> connection_of t = connection_of s \<and> task_maps maps t = task_maps maps s
    \<and> breakpoints t = breakpoints s \<and> breakpoint_len t = breakpoint_len s
    \<and> breakpoint_data t = breakpoint_data s"
proof -
  have a: "a < 2 ^ 63" using outsideD(3) [OF o] by simp
  have dec: "decode_m_packet (drop 1 (cstr (own_buf s) 0)) = Ret (int a, n)"
    using decode_m_packet_hex [OF a, of n] n by (simp add: p m_packet_def)
  have "outside (maps (kst s) task) (int a) n" using o debugs_maps [OF d] by simp
  from darwin_read_outside [OF d this] obtain k where
    k: "darwin_read_memory K (int a) n s = (Ret (replicate n 0), s\<lparr>kst := k\<rparr>)" "mem k = mem (kst s)"
      "maps k = maps (kst s)" by blast
  let ?s = "s\<lparr>kst := k\<rparr>"
  note f = serves_memory_kst [OF s k(2,3)]
  have ok: "breakpoints_ok mem maps ?s" using f(1) by (simp add: serves_memory_def)
  have space: "task_maps maps ?s \<subseteq> {0..<4294967296}" using maps_space by (simp add: task_maps_def)
  have r: "read_inferior_memory (darwin_ops K) (int a) n s = (Ret (replicate n 0), ?s)"
    using checks_outside(1) [OF ok space, of "int a" n] o f(3)
    by (simp add: read_inferior_memory_def prog_simps k(1))
  have z: "length (own_buf s) = 2000" "length (mem_buf s) = 2000"
    using serves_memory_size [OF s] by simp_all
  let ?u = "?s\<lparr>own_buf := overwrite (own_buf s) 0 (hex_bytes (replicate n 0) @ [NUL]),
    mem_buf := overwrite (mem_buf s) 0 (replicate n 0)\<rparr>"
  have "handle_m_read_mem (darwin_ops K) s = (Ret (), ?u)"
    unfolding handle_m_read_mem_def using dec n r z by (simp add: prog_simps convert_int_to_ascii_eq)
  moreover have "serves_memory mem maps ?u" "client_view mem ?u = client_view mem s"
    using serves_memory_buffers [OF f(1), of "own_buf ?u" "mem_buf ?u"] z n f(2) by simp_all
  ultimately show ?thesis using f(3) z n by (intro exI [of _ ?u]) (simp add: connection_of_def)
qed

lemma M_outside:
  assumes s: "serves_memory mem maps s" and d: "debugs pid task s" and p: "cstr (own_buf s) 0 = M_packet a bs"
    and o: "outside (task_maps maps s) (int a) (length bs)" and n: "length bs \<le> 2000"
  shows "\<exists>t. handle_M_write_mem (darwin_ops K) s = (Ret (), t) \<and> cstr (own_buf t) 0 = ''E01''
    \<and> serves_memory mem maps t \<and> client_view mem t = client_view mem s
    \<and> connection_of t = connection_of s \<and> task_maps maps t = task_maps maps s
    \<and> breakpoints t = breakpoints s \<and> breakpoint_len t = breakpoint_len s
    \<and> breakpoint_data t = breakpoint_data s"
proof -
  have a: "a < 2 ^ 63" using outsideD(3) [OF o] by simp
  have l: "length bs < 2 ^ 32" using n by simp
  have dec: "decode_M_packet (drop 1 (cstr (own_buf s) 0)) = Ret (int a, length bs, bs, Ret ())"
    using decode_M_packet_hex [OF a l, of "hex_bytes bs"] convert_ascii_to_int_hex [of bs "[]"]
    by (simp add: p M_packet_def)
  have z: "length (own_buf s) = 2000" "length (mem_buf s) = 2000"
    using serves_memory_size [OF s] by simp_all
  let ?s = "s\<lparr>mem_buf := overwrite (mem_buf s) 0 bs\<rparr>"
  have s': "serves_memory mem maps ?s" using serves_memory_buffers [OF s refl, of "mem_buf ?s"] z n by simp
  have d': "debugs pid task ?s" by (rule debugs_frame [OF d]) simp_all
  have o': "outside (task_maps maps ?s) (int a) (length bs)" using o by simp
  have ok: "breakpoints_ok mem maps ?s" using s' by (simp add: serves_memory_def)
  have space: "task_maps maps ?s \<subseteq> {0..<4294967296}" using maps_space by (simp add: task_maps_def)
  have "outside (maps (kst ?s) task) (int a) (length bs)" using o' debugs_maps [OF d'] by simp
  from darwin_write_outside [OF d' this] obtain e k where
    k: "darwin_write_memory K (int a) bs ?s = (Ret e, ?s\<lparr>kst := k\<rparr>)" "e \<noteq> 0" "mem k = mem (kst ?s)"
      "maps k = maps (kst ?s)" by blast
  note f = serves_memory_kst [OF s' k(3,4)]
  have w: "write_inferior_memory (darwin_ops K) (int a) bs ?s = (Ret e, ?s\<lparr>kst := k\<rparr>)"
    using checks_outside(2) [OF ok space o' refl] by (simp add: write_inferior_memory_def prog_simps k(1))
  let ?u = "?s\<lparr>kst := k, own_buf := overwrite (own_buf s) 0 (''E01'' @ [NUL])\<rparr>"
  have "handle_M_write_mem (darwin_ops K) s = (Ret (), ?u)"
    unfolding handle_M_write_mem_def using dec w z n k(2) by (simp add: prog_simps write_enn_def reply_eq)
  moreover have "serves_memory mem maps ?u" "client_view mem ?u = client_view mem s"
    using f(1,2) z by (simp_all add: serves_memory_def PBUFSIZ_def registers_length_def)
  ultimately show ?thesis using f(3) z n by (intro exI [of _ ?u]) (simp add: connection_of_def)
qed

end


context kernel_unmapped
begin

lemma Z_outside:
  assumes s: "serves_memory mem maps s" and d: "debugs pid task s"
    and p: "cstr (own_buf s) 0 = ''Z0,'' @ hex_digits a @ '',4''"
    and o: "outside (task_maps maps s) (int a) (breakpoint_len s)"
  shows "\<exists>t. handle_Z_insert_bp (darwin_ops K) s = (Ret (), t) \<and> cstr (own_buf t) 0 = ''OK''
    \<and> mem (kst t) = mem (kst s) \<and> map bp_pc (breakpoints t) = int a # map bp_pc (breakpoints s)"
proof -
  obtain trap where trap: "breakpoint_data s = Some trap"
      "bps_ok (breakpoint_len s) trap (bp_brk s) (task_mem mem s) (task_maps maps s) (breakpoints s)"
    using s unfolding serves_memory_def breakpoints_ok_def bp_ok_def by blast
  have len: "length trap = breakpoint_len s" "breakpoint_len s \<le> 8" using trap(2) by (simp_all add: bps_ok_def)
  let ?n = "breakpoint_len s" and ?s = "s\<lparr>bp_brk := Suc (bp_brk s)\<rparr>"
  have "outside (maps (kst ?s) task) (int a) ?n" using o debugs_maps [OF d] by simp
  moreover have "debugs pid task ?s" by (rule debugs_frame [OF d]) simp_all
  ultimately obtain k where k: "darwin_read_memory K (int a) ?n ?s = (Ret (replicate ?n 0), ?s\<lparr>kst := k\<rparr>)"
      "mem k = mem (kst s)" "maps k = maps (kst s)"
    using darwin_read_outside [of ?s "int a" ?n] by auto
  let ?s2 = "?s\<lparr>kst := k\<rparr>"
  have "outside (maps (kst ?s2) task) (int a) (length trap)" using o debugs_maps [OF d] k(3) len(1) by simp
  moreover have "debugs pid task ?s2" by (rule debugs_frame [OF d]) simp_all
  ultimately obtain e k' where k': "darwin_write_memory K (int a) trap ?s2 = (Ret e, ?s2\<lparr>kst := k'\<rparr>)"
      "mem k' = mem (kst s)"
    using darwin_write_outside [of ?s2 "int a" trap] k(2) by auto
  have "trap_bytes ?s2 = Ret trap" using trap(1) len(1) by (simp add: trap_bytes_def slice_def)
  then have w: "write_trap (darwin_ops K) (int a) ?s2 = (Ret (), ?s2\<lparr>kst := k'\<rparr>)"
    using k'(1) by (simp add: write_trap_def prog_simps)
  let ?od = "overwrite (replicate MAX_BREAKPOINT_LEN 0) 0 (replicate ?n 0)"
  have "store (replicate MAX_BREAKPOINT_LEN (0 :: byte)) 0 (replicate ?n 0) = Ret ?od"
    using len(2) by (simp add: store_def MAX_BREAKPOINT_LEN_def)
  then obtain b where set: "set_breakpoint_at (darwin_ops K) (int a) None s =
      (Ret (), ?s2\<lparr>kst := k', breakpoints := b # breakpoints s\<rparr>)" "bp_pc b = int a"
    using trap(1) k(1) w by (simp add: set_breakpoint_at_def prog_simps)
  have arg: "cstr (own_buf s) 3 = hex_digits a @ '',4''" using cstr_behind [of "own_buf s" "''Z0,''"] p by (simp add: numeral_3_eq_3)
  have "a < 2 ^ 32" using outsideD(3) [OF o] by simp
  then have "handle_Z_insert_bp (darwin_ops K) s = write_ok (?s2\<lparr>kst := k', breakpoints := b # breakpoints s\<rparr>)"
    using p arg set(1) strtoul_packet [of a] by (simp add: handle_Z_insert_bp_def prog_simps)
  moreover have "length (own_buf s) = 2000" using serves_memory_size [OF s] by simp
  ultimately show ?thesis using set(2) k'(2) by (simp add: prog_simps)
qed

end

subsection \<open>The property\<close>

text \<open>
  C31: The server does not tell the client that memory does not exist: \<^verbatim>\<open>m\<close> is answered with zeros, after \<^verbatim>\<open>ptrace\<close> has
  failed for every word, and \<^verbatim>\<open>Z0\<close> with OK, though the trap was not written; the breakpoint is in the list all the
  same.  Only \<^verbatim>\<open>M\<close> is answered with an error, and writes nothing.
\<close>

theorem missing_memory_goes_unreported:
  assumes "kernel_unmapped K mem maps writable pid task" and "serves_memory mem maps s" and "debugs pid task s"
    and "outside (task_maps maps s) (int a) n" and "n < 998" and "length bs = n" and "breakpoint_len s \<le> n" and "0 < breakpoint_len s"
  shows "(cstr (own_buf s) 0 = m_packet a n \<longrightarrow>
      (\<exists>t. handle_m_read_mem (darwin_ops K) s = (Ret (), t) \<and> cstr (own_buf t) 0 = hex_bytes (replicate n 0)))
    \<and> (cstr (own_buf s) 0 = ''Z0,'' @ hex_digits a @ '',4'' \<longrightarrow>
      (\<exists>t. handle_Z_insert_bp (darwin_ops K) s = (Ret (), t) \<and> cstr (own_buf t) 0 = ''OK''
        \<and> mem (kst t) = mem (kst s) \<and> map bp_pc (breakpoints t) = int a # map bp_pc (breakpoints s)))
    \<and> (cstr (own_buf s) 0 = M_packet a bs \<longrightarrow>
      (\<exists>t. handle_M_write_mem (darwin_ops K) s = (Ret (), t) \<and> cstr (own_buf t) 0 = ''E01''
        \<and> client_view mem t = client_view mem s))"
proof -
  have "outside (task_maps maps s) (int a) (breakpoint_len s)" using assms(4,7,8) by (auto simp: outside_def)
  with kernel_unmapped.m_outside [OF assms(1-3), of a n] kernel_unmapped.Z_outside [OF assms(1-3), of a]
    kernel_unmapped.M_outside [OF assms(1-3), of a bs] assms(4-6)
  show ?thesis by auto
qed

theorem missing_memory_goes_unreported_witness:
  "(\<exists>t. handle_m_read_mem (darwin_ops flat_kernel) (demo_bp_server (m_packet 2147483648 4)) = (Ret (), t)
      \<and> cstr (own_buf t) 0 = ''00000000'')
    \<and> (\<exists>t. handle_Z_insert_bp (darwin_ops flat_kernel) (demo_bp_server (''Z0,'' @ hex_digits 2147483648 @ '',4''))
        = (Ret (), t) \<and> cstr (own_buf t) 0 = ''OK'' \<and> map bp_pc (breakpoints t) = [2147483648, 4096])
    \<and> (\<exists>t. handle_M_write_mem (darwin_ops flat_kernel) (demo_bp_server (M_packet 2147483648 [1, 2, 3, 4])) = (Ret (), t)
        \<and> cstr (own_buf t) 0 = ''E01'')"
proof -
  have hex: "length (hex_digits 2147483648) \<le> 8" "length (hex_digits 4) \<le> 4" "length (hex_digits (length [1, 2, 3, 4 :: byte])) \<le> 4"
    by (rule length_hex_digits; simp)+
  let ?Z = "''Z0,'' @ hex_digits 2147483648 @ '',4''" and ?bs = "[1, 2, 3, 4]"
  have len: "length (m_packet 2147483648 4) < 2000" "length ?Z < 2000" "length (M_packet 2147483648 ?bs) < 2000"
    using hex by (simp_all add: m_packet_def M_packet_def)
  have "NUL \<notin> set (hex_digits i)" for i using hex_digits_set hex_digit_not_special(6) by metis
  then have "NUL \<notin> set ?Z" by (simp add: NUL_def)
  note pkt = demo_bp_packet [OF NUL_notin_packets(1)] demo_bp_packet [OF this] demo_bp_packet [OF NUL_notin_packets(2)]
  have d: "debugs 100 7 (demo_bp_server p)" for p
    by (simp add: debugs_def demo_bp_server_def demo_server_def current_proc_def MACH_PORT_NULL_def demo_proc_def)
  have o: "outside (task_maps flat_maps (demo_bp_server p)) (int 2147483648) 4" for p
    by (simp add: outside_def task_maps_def flat_maps_def)
  have b: "breakpoint_len (demo_bp_server p) = 4" "map bp_pc (breakpoints (demo_bp_server p)) = [4096]" for p
    by (simp_all add: demo_bp_server_def demo_server_def)
  have zeros: "hex_bytes (replicate 4 0) = ''00000000''" by code_simp
  note unreported = missing_memory_goes_unreported [OF flat_unmapped.kernel_unmapped_axioms demo_bp_serves d o, where bs = ?bs]
  show ?thesis
  proof (intro conjI, goal_cases)
    case 1 show ?case using unreported [OF len(1)] b pkt(1) zeros by auto
  next
    case 2 show ?case using unreported [OF len(2)] b pkt(2) by fastforce
  next
    case 3 show ?case using unreported [OF len(3)] b pkt(3) by auto
  qed
qed

end
