(* ===== verification/Client.thy ===== *)
theory Client
  imports Unmapped ResumeProps VContProps
begin

section \<open>The program as its client sees it\<close>

text \<open>
  The abstract specification of the server: a machine with a memory, the places of the breakpoints, the
  registers of the thread and the signal it stopped with, and the reply and effect of every request.
  Saved instructions, caches and buffers are not part of it.  The program itself is a function: from
  memory and registers at the time it is resumed to those when it stops.  It runs on the memory with
  the traps, which the client does not see otherwise.  Three more places show through: the value of
  a \<^verbatim>\<open>P\<close> packet is lost until the registers have been fetched, registers that were written reach the process
  only when it is resumed (\<open>cl_stored\<close>), and breakpoints may not overlap.
  The requests are the packets a client sends while the program is stopped: memory, registers, breakpoints,
  every form of continuing and stepping, queries, settings, and the packets the server answers with an
  empty reply because it does not know them.  Memory that does not exist reads as zeros and is not written.
  A \<^verbatim>\<open>vCont\<close> packet with no action for the process and none for all others is not a request of the machine:
  it says that the process stays stopped, and the server runs it (theory \<open>LeftStopped\<close>).
\<close>

subsection \<open>The program\<close>

record world =
  w_host :: host_signals
  w_pid :: int
  w_task :: nat
  w_thread :: nat
  w_run :: "bool \<Rightarrow> int \<Rightarrow> (int \<Rightarrow> byte) \<Rightarrow> byte list \<Rightarrow> (byte \<times> (int \<Rightarrow> byte) \<times> byte list) option"
    \<comment> \<open>from step or continue, a signal, memory and registers to the signal it stops with, memory and
      registers; \<open>None\<close> where it does not stop\<close>
  w_end :: "bool \<Rightarrow> int \<Rightarrow> (int \<Rightarrow> byte) \<Rightarrow> byte list \<Rightarrow> wait_status option"
    \<comment> \<open>from the same to how it ends; \<open>None\<close> where it does not end\<close>

definition signal_number :: "world \<Rightarrow> byte \<Rightarrow> int" where
  "signal_number W signo = (case target_signal_from_host (w_host W) (uint signo) of Ret ts \<Rightarrow> ts | _ \<Rightarrow> - 1)"

definition has_number :: "world \<Rightarrow> byte \<Rightarrow> bool" where
  \<comment> \<open>the protocol has a number for the signal\<close>
  "has_number W signo \<longleftrightarrow> 0 \<le> signal_number W signo \<and> signal_number W signo < 256"

definition signal_of :: "world \<Rightarrow> byte \<Rightarrow> int" where
  \<comment> \<open>the host's signal for a number of the protocol, no signal where there is none\<close>
  "signal_of W b = (if target_signal_to_host_p (w_host W) (uint b)
     then uint (word_of_int (target_signal_to_host (w_host W) (uint b)) :: byte) else 0)"

subsection \<open>The machine\<close>

record client =
  cl_mem :: "int \<Rightarrow> byte"
  cl_maps :: "int set"
  cl_bps :: "int list"
  cl_regs :: "byte list"
  cl_fetched :: bool
  cl_stored :: bool      \<comment> \<open>the process has these registers, not only the server's cache\<close>
  cl_signo :: byte
  cl_attached :: bool    \<comment> \<open>the process was there before the server\<close>

datatype request =
    Read_memory nat nat
  | Write_memory nat "byte list"
  | Insert_breakpoint nat
  | Remove_breakpoint nat
  | Read_registers
  | Write_registers "byte list"
  | Read_register nat
  | Write_register nat "byte list"
  | Ask_stop
  | Resume bool
  | Resume_signal bool byte
  | Resume_actions "(vcont_action \<times> nat) list" "vcont_action option"
  | Ask_actions
  | Ask_process
  | Ask_features string
  | Ask_attached
  | Offer_symbols
  | First_threads
  | More_threads
  | Select_thread char string
  | Ask_alive nat
  | Ask_extended
  | Pass_signals string
  | Toggle_debug string
  | Unsupported string

fun packet_of :: "request \<Rightarrow> string" where
  "packet_of (Read_memory a n) = m_packet a n"
| "packet_of (Write_memory a bs) = M_packet a bs"
| "packet_of (Insert_breakpoint a) = ''Z0,'' @ hex_digits a @ '',4''"
| "packet_of (Remove_breakpoint a) = ''z0,'' @ hex_digits a @ '',4''"
| "packet_of Read_registers = ''g''"
| "packet_of (Write_registers bs) = ''G'' @ hex_bytes bs"
| "packet_of (Read_register i) = ''p'' @ hex_digits i"
| "packet_of (Write_register i v) = ''P'' @ hex_digits i @ ''='' @ hex_bytes v"
| "packet_of Ask_stop = ''?''"
| "packet_of (Resume step) = (if step then ''s'' else ''c'')"
| "packet_of (Resume_signal step b) = (if step then ''S'' else ''C'') @ hex_bytes [b]"
| "packet_of (Resume_actions acts d) = ''vCont'' @ vcont_text acts d"
| "packet_of Ask_actions = ''vCont?''"
| "packet_of Ask_process = ''qC''"
| "packet_of (Ask_features p) = ''qSupported'' @ p"
| "packet_of Ask_attached = ''qAttached''"
| "packet_of Offer_symbols = ''qSymbol::''"
| "packet_of First_threads = ''qfThreadInfo''"
| "packet_of More_threads = ''qsThreadInfo''"
| "packet_of (Select_thread ch p) = CHR ''H'' # ch # p"
| "packet_of (Ask_alive tid) = ''T'' @ hex_digits tid"
| "packet_of Ask_extended = ''!''"
| "packet_of (Pass_signals p) = ''QPassSignals:'' @ p"
| "packet_of (Toggle_debug p) = CHR ''d'' # p"
| "packet_of (Unsupported p) = p"

definition unsupported :: "string \<Rightarrow> bool" where
  \<comment> \<open>packets the server does not know, or whose variant it does not know\<close>
  "unsupported p \<longleftrightarrow> p \<noteq> [] \<and> (case hd p of ch \<Rightarrow>
     if ch = CHR ''q'' then p \<notin> {''qC'', ''qAttached'', ''qSymbol::'', ''qfThreadInfo'', ''qsThreadInfo''}
       \<and> \<not> starts_with ''qSupported'' p
     else if ch = CHR ''Q'' then p \<noteq> ''QStartNoAckMode'' \<and> \<not> starts_with ''QPassSignals:'' p
     else if ch = CHR ''H'' then chr_at p 1 \<notin> {CHR ''g'', CHR ''c'', CHR ''s''}
     else if ch = CHR ''v'' then \<not> starts_with ''vCont;'' p \<and> \<not> starts_with ''vCont?'' p
     else if ch = CHR ''Z'' \<or> ch = CHR ''z'' then chr_at p 1 \<noteq> CHR ''0''
     else ch \<notin> set ''dD!?gGpPmMCScskT'')"

fun chosen_action :: "world \<Rightarrow> (vcont_action \<times> nat) list \<Rightarrow> vcont_action option \<Rightarrow> (bool \<times> int) option" where
  \<comment> \<open>the action for the process among those for threads, or the one for all others: whether to step, and
    the signal; without any, the process is to stay stopped\<close>
  "chosen_action W [] d = map_option (\<lambda>a. (va_step a, tr_sig (action_resume (w_host W) (- 1) a))) d"
| "chosen_action W ((a, tid) # acts) d = (if int tid = w_pid W
     then Some (va_step a, tr_sig (action_resume (w_host W) (int tid) a)) else chosen_action W acts d)"

definition trapped :: "int list \<Rightarrow> int \<Rightarrow> bool" where
  "trapped bps x \<longleftrightarrow> list_ex (\<lambda>b. b \<le> x \<and> x < b + 4) bps"

definition with_traps :: "int list \<Rightarrow> (int \<Rightarrow> byte) \<Rightarrow> int \<Rightarrow> byte" where
  \<comment> \<open>the memory the program runs on\<close>
  "with_traps bps m x = (case find (\<lambda>b. b \<le> x \<and> x < b + 4) bps of
      Some b \<Rightarrow> be32 ppc_breakpoint ! nat (x - b) | None \<Rightarrow> m x)"

definition run_program :: "world \<Rightarrow> bool \<Rightarrow> int \<Rightarrow> client \<Rightarrow> string \<times> client" where
  \<comment> \<open>the stop reply, and the memory, registers and signal of the stop\<close>
  "run_program W step sg c = (case w_run W step sg (with_traps (cl_bps c) (cl_mem c)) (cl_regs c) of
      None \<Rightarrow> ([], c)
    | Some (signo, v, rs) \<Rightarrow> (stop_text (signal_number W signo) rs (w_pid W),
        c\<lparr>cl_mem := (\<lambda>x. if trapped (cl_bps c) x then cl_mem c x else v x), cl_regs := rs,
          cl_fetched := True, cl_stored := True, cl_signo := signo\<rparr>))"

definition runs_well :: "world \<Rightarrow> bool \<Rightarrow> int \<Rightarrow> client \<Rightarrow> bool" where
  \<comment> \<open>the program stops with a signal the protocol knows and leaves the traps in place\<close>
  "runs_well W step sg c \<longleftrightarrow> (case w_run W step sg (with_traps (cl_bps c) (cl_mem c)) (cl_regs c) of
      None \<Rightarrow> False
    | Some (signo, v, rs) \<Rightarrow> has_number W signo \<and> length rs = 412
        \<and> list_all (\<lambda>b. mem_bytes v b 4 = be32 ppc_breakpoint) (cl_bps c))"

definition resumption :: "world \<Rightarrow> request \<Rightarrow> (bool \<times> int) option" where
  \<comment> \<open>the requests that let the program run: whether to step, and the signal\<close>
  "resumption W r = (case r of Resume step \<Rightarrow> Some (step, 0) | Resume_signal step b \<Rightarrow> Some (step, signal_of W b)
     | Resume_actions acts d \<Rightarrow> chosen_action W acts d | _ \<Rightarrow> None)"

definition well_formed :: "world \<Rightarrow> request \<Rightarrow> bool" where
  \<comment> \<open>a request to run the program that the packet can hold, with known signals\<close>
  "well_formed W r \<longleftrightarrow> (case r of Resume_actions acts d \<Rightarrow>
       (\<forall>(a, tid) \<in> set acts. action_ok (w_host W) a \<and> tid < 2 ^ 31)
         \<and> (case d of None \<Rightarrow> acts \<noteq> [] | Some a \<Rightarrow> action_ok (w_host W) a) \<and> length (vcont_text acts d) < 1900
     | _ \<Rightarrow> True)"

fun serve :: "world \<Rightarrow> request \<Rightarrow> client \<Rightarrow> string \<times> client" where
  \<comment> \<open>the reply to a request and its effect\<close>
  "serve W (Read_memory a n) c =
     (hex_bytes (if in_mem (cl_maps c) (int a) n then mem_bytes (cl_mem c) (int a) n else replicate n 0), c)"
| "serve W (Write_memory a bs) c = (if in_mem (cl_maps c) (int a) (length bs)
     then (''OK'', c\<lparr>cl_mem := write_bytes (cl_mem c) (int a) bs\<rparr>) else (''E01'', c))"
| "serve W (Insert_breakpoint a) c = (''OK'', c\<lparr>cl_bps := int a # cl_bps c\<rparr>)"
| "serve W (Remove_breakpoint a) c = (''OK'', c\<lparr>cl_bps := filter (\<lambda>b. b \<noteq> int a) (cl_bps c)\<rparr>)"
| "serve W Read_registers c = (hex_bytes (cl_regs c), c\<lparr>cl_fetched := True\<rparr>)"
| "serve W (Write_registers bs) c = (''OK'', c\<lparr>cl_regs := bs, cl_fetched := True, cl_stored := False\<rparr>)"
| "serve W (Read_register i) c = (hex_bytes (slot regs_ppc i (cl_regs c)), c\<lparr>cl_fetched := True\<rparr>)"
| "serve W (Write_register i v) c =
     (''OK'', if cl_fetched c then c\<lparr>cl_regs := put_slot regs_ppc i v (cl_regs c), cl_stored := False\<rparr> else c)"
| "serve W Ask_stop c = (stop_text (signal_number W (cl_signo c)) (cl_regs c) (w_pid W), c\<lparr>cl_fetched := True\<rparr>)"
| "serve W (Resume step) c = run_program W step 0 c"
| "serve W (Resume_signal step b) c = run_program W step (signal_of W b) c"
| "serve W (Resume_actions acts d) c = (case chosen_action W acts d of
      None \<Rightarrow> ([], c) | Some (step, sg) \<Rightarrow> run_program W step sg c)"
| "serve W Ask_actions c = (''vCont;c;C;s;S'', c)"
| "serve W Ask_process c = (''QC'' @ fmt_x (w_pid W), c)"
| "serve W (Ask_features p) c = (''PacketSize=7cf'', c)"
| "serve W Ask_attached c = (''0'', c)"
| "serve W Offer_symbols c = (''OK'', c)"
| "serve W First_threads c = (''m'' @ fmt_x (w_pid W), c)"
| "serve W More_threads c = (''l'', c)"
| "serve W (Select_thread ch p) c = (''OK'', c)"
| "serve W (Ask_alive tid) c = (''OK'', c)"
| "serve W Ask_extended c = (''OK'', c)"
| "serve W (Pass_signals p) c = (''OK'', c)"
| "serve W (Toggle_debug p) c = (CHR ''d'' # p, c)"
| "serve W (Unsupported p) c = ([], c)"

fun acceptable :: "world \<Rightarrow> request \<Rightarrow> client \<Rightarrow> bool" where
  \<comment> \<open>the requests a client may make: of memory that exists, or of which no part does, about the thread it
    has been told of, in packets and replies that fit\<close>
  "acceptable W (Read_memory a n) c \<longleftrightarrow> (in_mem (cl_maps c) (int a) n \<or> outside (cl_maps c) (int a) n) \<and> n < 998"
| "acceptable W (Write_memory a bs) c \<longleftrightarrow>
     (in_mem (cl_maps c) (int a) (length bs) \<or> outside (cl_maps c) (int a) (length bs)) \<and> bs \<noteq> []
     \<and> length (M_packet a bs) < 2000"
| "acceptable W (Insert_breakpoint a) c \<longleftrightarrow> in_mem (cl_maps c) (int a) 4
     \<and> list_all (\<lambda>b. int a + 4 \<le> b \<or> b + 4 \<le> int a) (cl_bps c)"
| "acceptable W (Remove_breakpoint a) c \<longleftrightarrow> a < 2 ^ 32"
| "acceptable W (Write_registers bs) c \<longleftrightarrow> length bs = 412"
| "acceptable W (Read_register i) c \<longleftrightarrow> i < 71"
| "acceptable W (Write_register i v) c \<longleftrightarrow> i < 71 \<and> length v = slot_len regs_ppc i"
| "acceptable W Ask_stop c \<longleftrightarrow> has_number W (cl_signo c)"
| "acceptable W (Resume step) c \<longleftrightarrow> runs_well W step 0 c"
| "acceptable W (Resume_signal step b) c \<longleftrightarrow> runs_well W step (signal_of W b) c"
| "acceptable W (Resume_actions acts d) c \<longleftrightarrow> well_formed W (Resume_actions acts d)
     \<and> (case chosen_action W acts d of None \<Rightarrow> False | Some (step, sg) \<Rightarrow> runs_well W step sg c)"
| "acceptable W (Ask_features p) c \<longleftrightarrow> payload p \<and> length p < 1900"
| "acceptable W (Select_thread ch p) c \<longleftrightarrow> ch \<in> {CHR ''g'', CHR ''c'', CHR ''s''} \<and> payload p \<and> length p < 1900"
| "acceptable W (Ask_alive tid) c \<longleftrightarrow> int tid = w_pid W \<and> tid < 2 ^ 31 \<and> cl_maps c \<noteq> {}"
| "acceptable W (Pass_signals p) c \<longleftrightarrow> payload p \<and> length p < 1900"
| "acceptable W (Toggle_debug p) c \<longleftrightarrow> payload p \<and> length p < 1900"
| "acceptable W (Unsupported p) c \<longleftrightarrow> unsupported p \<and> payload p \<and> length p < 2000"
| "acceptable W r c \<longleftrightarrow> True"

fun serve_all :: "world \<Rightarrow> request list \<Rightarrow> client \<Rightarrow> string list \<times> client" where
  "serve_all W [] c = ([], c)"
| "serve_all W (r # rs) c =
     (let (txt, c1) = serve W r c; (txts, c2) = serve_all W rs c1 in (txt # txts, c2))"

fun acceptable_all :: "world \<Rightarrow> request list \<Rightarrow> client \<Rightarrow> bool" where
  "acceptable_all W [] c \<longleftrightarrow> True"
| "acceptable_all W (r # rs) c \<longleftrightarrow> acceptable W r c \<and> acceptable_all W rs (snd (serve W r c))"

lemma served_by_running:
  assumes "resumption W r = Some (step, sg)"
  shows "serve W r c = run_program W step sg c" and "acceptable W r c \<longleftrightarrow> well_formed W r \<and> runs_well W step sg c"
  using assms by (cases r; simp add: resumption_def well_formed_def)+

lemma length_serve_all [simp]: "length (fst (serve_all W rs c)) = length rs"
  by (induction rs arbitrary: c) (auto simp: case_prod_beta Let_def)

lemma serve_all_attached: "cl_attached (snd (serve_all W rs c)) = cl_attached c"
proof (induction rs arbitrary: c)
  case (Cons r rs)
  have "cl_attached (snd (serve W r c)) = cl_attached c"
    by (cases r) (auto simp: run_program_def split: option.split)
  with Cons show ?case by (simp add: case_prod_beta Let_def)
qed simp

subsection \<open>Packets that can be sent\<close>

lemma payload_append [simp]: "payload (s @ t) \<longleftrightarrow> payload s \<and> payload t"
  by (simp add: payload_def)

lemma payload_Cons [simp]:
  "payload (c # s) \<longleftrightarrow> (of_char c :: nat) < 128 \<and> c \<noteq> CHR ''#'' \<and> c \<noteq> NUL \<and> payload s" "payload []"
  by (simp_all add: payload_def)

lemma payload_hex [simp]: "payload (hex_digits i)" "payload (hex_bytes bs)"
  by (auto simp: payload_def list_all_iff hex_digit_not_special of_char_hex_digit
      dest!: hex_digits_set hex_bytes_chars)

lemma payload_hex_byte [simp]: "payload (hex_byte b)"
  using payload_hex(2) [of "[b]"] by simp

lemma payload_action [simp]: "payload (action_text a)"
  by (simp add: action_text_def NUL_def split: option.split)

lemma payload_vcont [simp]: "payload (vcont_text acts d)"
proof -
  have "payload (concat (map (\<lambda>(a, tid). '';'' @ action_text a @ '':'' @ hex_digits tid) acts))"
    by (induction acts) (auto simp: NUL_def)
  then show ?thesis by (simp add: vcont_text_def NUL_def split: option.split)
qed

lemma resumption_sendable:
  assumes "resumption W r \<noteq> None" and "well_formed W r"
  shows "payload (packet_of r)" and "packet_of r \<noteq> []" and "length (packet_of r) < 2000"
  using assms by (cases r; simp add: resumption_def well_formed_def NUL_def)+

lemma packet_of_sendable:
  assumes "acceptable W r c" and "cl_maps c \<subseteq> {0..<4294967296}"
  shows "payload (packet_of r)" and "packet_of r \<noteq> []" and "length (packet_of r) < 2000"
proof -
  show "payload (packet_of r)"
    using assms(1) by (cases r) (auto simp: m_packet_def M_packet_def NUL_def)
  show "packet_of r \<noteq> []" using assms(1) by (cases r) (simp_all add: m_packet_def M_packet_def unsupported_def)
  have addr: "length (hex_digits a) \<le> 16" if "int a < 2 ^ 33" for a
    by (rule length_hex_digits) (use that in simp_all)
  have small: "length (hex_digits n) \<le> 4" if "n < 1000" for n
    by (rule length_hex_digits) (use that in simp_all)
  show "length (packet_of r) < 2000"
  proof (cases r)
    case (Read_memory a n)
    with assms(1) addr [of a] small [of n] show ?thesis by (auto simp: m_packet_def in_mem_def outside_def)
  next
    case (Insert_breakpoint a) with assms(1) addr [of a] show ?thesis by (simp add: in_mem_def)
  next
    case (Remove_breakpoint a) with assms(1) addr [of a] show ?thesis by simp
  next
    case (Read_register i) with assms(1) small [of i] show ?thesis by simp
  next
    case (Write_register i v) with assms(1) small [of i] slot_ppc(2) [of i] show ?thesis by simp
  next
    case (Resume_actions acts d) with assms(1) show ?thesis by (simp add: well_formed_def)
  next
    case (Ask_alive tid) with assms(1) addr [of tid] show ?thesis by simp
  qed (use assms(1) in simp_all)
qed

lemma NUL_notin_packet: "acceptable W r c \<Longrightarrow> cl_maps c \<subseteq> {0..<4294967296} \<Longrightarrow> NUL \<notin> set (packet_of r)"
  using packet_of_sendable(1) [of W r c] by (auto simp: payload_def list_all_iff)

lemma serve_keeps:
  "acceptable W r c \<Longrightarrow> length (cl_regs c) = 412 \<Longrightarrow> length (cl_regs (snd (serve W r c))) = 412"
  "cl_maps (snd (serve W r c)) = cl_maps c"
  using regs_wf_ppc
  by (cases r; simp add: put_slot(1) run_program_def runs_well_def split: option.splits prod.splits)+

lemma length_run_reply: "runs_well W step sg c \<Longrightarrow> length (fst (run_program W step sg c)) \<le> 80"
  using length_stop_text by (auto simp: runs_well_def run_program_def split: option.splits)

lemma length_reply:
  assumes "acceptable W r c" and "length (cl_regs c) = 412"
  shows "length (fst (serve W r c)) \<le> 1995"
proof (cases r)
  case (Read_register i)
  with assms length_slot_ppc [of "cl_regs c" i] slot_ppc(2) [of i] show ?thesis by simp
next
  case Ask_stop
  with length_stop_text [OF assms(2), of "signal_number W (cl_signo c)" "w_pid W"] show ?thesis by simp
next
  case (Resume step)
  with assms(1) length_run_reply [of W step 0 c] show ?thesis by simp
next
  case (Resume_signal step b)
  with assms(1) length_run_reply [of W step "signal_of W b" c] show ?thesis by simp
next
  case (Resume_actions acts d)
  with assms(1) length_run_reply [of W _ _ c] show ?thesis by (cases "chosen_action W acts d") fastforce+
qed (use assms length_fmt_x [of "w_pid W"] in simp_all)

end
