(* ===== verification/ClientSession.thy ===== *)
theory ClientSession
  imports Client
begin

section \<open>The server serves the program its client sees\<close>

text \<open>
  The handlers, the packet loop and the whole session simulate the machine of theory \<open>Client\<close>, on the
  Darwin target over a kernel that does what is documented of its calls for memory and for registers
  (\<open>debugged_program\<close>).  \<open>represents\<close> relates a state of the server to the machine; what the handlers
  for memory leave of the registers, and those for registers of the memory, comes from the locales
  of theory \<open>Observers\<close>.
\<close>

subsection \<open>The kernel\<close>

locale debugged_program =
  kernel_memory K mem maps writable + kernel_registers K regs fregs
  for K :: "'k kernel" and mem maps writable regs fregs +
  assumes memory_calls_apart:
      "regs (snd (k_vm_read K task a n k)) = regs k" "fregs (snd (k_vm_read K task a n k)) = fregs k"
      "regs (snd (k_vm_write K task a bs k)) = regs k" "fregs (snd (k_vm_write K task a bs k)) = fregs k"
      "regs (snd (k_vm_protect K task a n k)) = regs k" "fregs (snd (k_vm_protect K task a n k)) = fregs k"
      "req \<in> {PT_READ_D, PT_WRITE_D} \<Longrightarrow> regs (snd (k_ptrace K req pid a w k)) = regs k"
      "req \<in> {PT_READ_D, PT_WRITE_D} \<Longrightarrow> fregs (snd (k_ptrace K req pid a w k)) = fregs k"
    and register_calls_apart:
      "mem (snd (k_get_state K th k)) = mem k" "maps (snd (k_get_state K th k)) = maps k"
      "mem (snd (k_get_float K th k)) = mem k" "maps (snd (k_get_float K th k)) = maps k"
      "mem (snd (k_set_state K th st k)) = mem k" "maps (snd (k_set_state K th st k)) = maps k"
      "mem (snd (k_set_float K th fs k)) = mem k" "maps (snd (k_set_float K th fs k)) = maps k"

locale running_program =
  debugged_program K mem maps writable regs fregs + kernel_unmapped K mem maps writable "w_pid W" "w_task W"
  for K :: "'k kernel" and mem maps writable regs fregs and W :: world +
  assumes program_runs:
    "w_run W step sg (mem k (w_task W)) (ppc_image (regs k (w_thread W)) (fregs k (w_thread W))) =
        Some (signo, v, after) \<Longrightarrow>
     k_ptrace K (if step then PT_STEP else PT_CONTINUE) (w_pid W) 1 (word_of_int sg) k = (ret, k2) \<Longrightarrow>
     \<exists>k3 k4 ts. wait_loop K (w_pid W) k2 = Some (WaitDone (WStopped signo), k3)
       \<and> k_task_threads K (w_task W) k3 = (Some (w_thread W # ts), k4)
       \<and> ppc_image (regs k4 (w_thread W)) (fregs k4 (w_thread W)) = after
       \<and> mem k4 (w_task W) = v \<and> maps k4 (w_task W) = maps k (w_task W)"
    and program_ends:
    "w_end W step sg (mem k (w_task W)) (ppc_image (regs k (w_thread W)) (fregs k (w_thread W))) = Some w \<Longrightarrow>
     k_ptrace K (if step then PT_STEP else PT_CONTINUE) (w_pid W) 1 (word_of_int sg) k = (ret, k2) \<Longrightarrow>
     \<exists>k3. wait_loop K (w_pid W) k2 = Some (WaitDone w, k3)"
    and program_exists: "maps k (w_task W) \<noteq> {} \<Longrightarrow> k_kill K (w_pid W) 0 k = (True, k)"

interpretation flat_program: debugged_program flat_kernel flat_mem flat_maps flat_writable fl_regs fl_fregs
  by unfold_locales (auto simp: flat_kernel_def flat_mem_def flat_maps_def split: if_splits)

subsection \<open>The two halves of the state\<close>

definition register_half ::
  "('k \<Rightarrow> nat \<Rightarrow> ppc_thread_state) \<Rightarrow> ('k \<Rightarrow> nat \<Rightarrow> ppc_float_state) \<Rightarrow> ('k, 'z) server_state_scheme \<Rightarrow> _" where
  \<comment> \<open>what the selected thread and its registers rest on\<close>
  "register_half regs fregs s = (regs (kst s), fregs (kst s), entries s, all_threads s, general_thread s,
     threads s, procs s, reg_defs s, register_bytes s, length (own_buf s), connection_of s, using_threads s,
     gdbserver_expedite_regs s, current_task s, current_inferior s, sig s, thread_ptr s, extended_protocol s, signal_pid s, attached s)"

definition memory_half ::
  "('k \<Rightarrow> nat \<Rightarrow> int \<Rightarrow> byte) \<Rightarrow> ('k \<Rightarrow> nat \<Rightarrow> int set) \<Rightarrow> ('k, 'z) server_state_scheme \<Rightarrow> _" where
  \<comment> \<open>what memory and the breakpoints rest on\<close>
  "memory_half mem maps s = (mem (kst s), maps (kst s), current_task s, breakpoints s, bp_brk s,
     breakpoint_data s, breakpoint_len s, length (own_buf s), length (mem_buf s), reg_defs s,
     register_bytes s, connection_of s, entries s, all_threads s, using_threads s,
     gdbserver_expedite_regs s, sig s, thread_ptr s, extended_protocol s, signal_pid s, attached s)"

lemma chosen_thread_of:
  "chosen_thread True s ts = chosen_thread True t ts"
  if "entries s = entries t" "general_thread s = general_thread t"
  using that by (rule chosen_thread_cong)

lemma reg_ready_half:
  assumes "register_half regs fregs t = register_half regs fregs s"
  shows "reg_ready t a pi rc = reg_ready s a pi rc"
    and "thread_regs regs fregs t pi rc = thread_regs regs fregs s pi rc"
proof -
  have f: "entries t = entries s" "general_thread t = general_thread s" "all_threads t = all_threads s"
      "threads t = threads s" "procs t = procs s" "reg_defs t = reg_defs s"
      "register_bytes t = register_bytes s" "length (own_buf t) = length (own_buf s)"
      "regs (kst t) = regs (kst s)" "fregs (kst t) = fregs (kst s)"
    using assms by (simp_all add: register_half_def)
  show "reg_ready t a pi rc = reg_ready s a pi rc"
    unfolding reg_ready_def chosen_thread_of [OF f(1,2)] by (simp add: f PBUFSIZ_def registers_length_def)
  show "thread_regs regs fregs t pi rc = thread_regs regs fregs s pi rc"
    by (simp add: thread_regs_def f)
qed

lemma serves_memory_half:
  assumes "memory_half mem maps t = memory_half mem maps s"
  shows "serves_memory mem maps t = serves_memory mem maps s" "client_view mem t = client_view mem s"
    "task_maps maps t = task_maps maps s" "breakpoints t = breakpoints s" "breakpoint_len t = breakpoint_len s"
proof -
  have f: "mem (kst t) = mem (kst s)" "maps (kst t) = maps (kst s)" "current_task t = current_task s"
      "breakpoints t = breakpoints s" "bp_brk t = bp_brk s" "breakpoint_data t = breakpoint_data s"
      "breakpoint_len t = breakpoint_len s" "length (own_buf t) = length (own_buf s)"
      "length (mem_buf t) = length (mem_buf s)" "reg_defs t = reg_defs s" "register_bytes t = register_bytes s"
    using assms by (simp_all add: memory_half_def)
  then show "task_maps maps t = task_maps maps s" "breakpoints t = breakpoints s"
      "breakpoint_len t = breakpoint_len s"
    by (simp_all add: task_maps_def)
  have "task_mem mem t = task_mem mem s" by (simp add: task_mem_def f)
  moreover have "task_maps maps t = task_maps maps s" by (simp add: task_maps_def f)
  ultimately show "serves_memory mem maps t = serves_memory mem maps s" "client_view mem t = client_view mem s"
    by (simp_all add: serves_memory_def breakpoints_ok_def bp_ok_def client_view_def shadow_def f PBUFSIZ_def
        registers_length_def)
qed

context debugged_program
begin

lemma kcall_apart:
  "preserves (register_half regs fregs) (kcall (k_vm_read K task a n))"
  "preserves (register_half regs fregs) (kcall (k_vm_write K task a bs))"
  "preserves (register_half regs fregs) (kcall (k_vm_protect K task a n))"
  "preserves (register_half regs fregs) (kcall (k_ptrace K PT_READ_D pid a w))"
  "preserves (register_half regs fregs) (kcall (k_ptrace K PT_WRITE_D pid a w))"
  "preserves (memory_half mem maps) (kcall (k_get_state K th))"
  "preserves (memory_half mem maps) (kcall (k_get_float K th))"
  by (simp_all add: preserves_def kcall_def register_half_def memory_half_def connection_of_def
      memory_calls_apart register_calls_apart split_beta)

end

sublocale debugged_program \<subseteq> registers_beside: memory_observer "register_half regs fregs" K
  by unfold_locales (simp_all add: kcall_apart, simp_all add: register_half_def connection_of_def)

sublocale debugged_program \<subseteq> memory_beside: stop_observer "memory_half mem maps" K
  by unfold_locales (simp_all add: kcall_apart, simp_all add: memory_half_def connection_of_def)

subsection \<open>Simulation of one request\<close>

definition ready_thread ::
  "('k \<Rightarrow> nat \<Rightarrow> ppc_thread_state) \<Rightarrow> ('k \<Rightarrow> nat \<Rightarrow> ppc_float_state) \<Rightarrow> world \<Rightarrow>
     ('k, 'z) server_state_scheme \<Rightarrow> byte list \<Rightarrow> bool \<Rightarrow> bool" where
  \<comment> \<open>the one thread of the process, its registers as the client is to see them, and whether its cache
    is valid\<close>
  "ready_thread regs fregs W s bytes valid \<longleftrightarrow> (\<exists>a pi rc. reg_ready s a pi rc
     \<and> wf_list (entries s) (all_threads s) [a] \<and> current_inferior s = Some a
     \<and> id_at (entries s) a = w_pid W \<and> p_pid pi = w_pid W \<and> p_thread pi = w_thread W
     \<and> bytes = thread_regs regs fregs s pi rc \<and> valid = registers_valid rc)"

definition kernel_regs ::
  "('k \<Rightarrow> nat \<Rightarrow> ppc_thread_state) \<Rightarrow> ('k \<Rightarrow> nat \<Rightarrow> ppc_float_state) \<Rightarrow> world \<Rightarrow> 'k \<Rightarrow> byte list" where
  \<comment> \<open>the registers the thread has in the kernel\<close>
  "kernel_regs regs fregs W k = ppc_image (regs k (w_thread W)) (fregs k (w_thread W))"

definition represents ::
  "('k \<Rightarrow> nat \<Rightarrow> int \<Rightarrow> byte) \<Rightarrow> ('k \<Rightarrow> nat \<Rightarrow> int set) \<Rightarrow> ('k \<Rightarrow> nat \<Rightarrow> ppc_thread_state) \<Rightarrow>
     ('k \<Rightarrow> nat \<Rightarrow> ppc_float_state) \<Rightarrow> world \<Rightarrow> ('k, 'z) server_state_scheme \<Rightarrow> client \<Rightarrow> bool" where
  \<comment> \<open>the state of the server is one of the machine \<open>c\<close>: the program is stopped, no breakpoint is lifted\<close>
  "represents mem maps regs fregs W s c \<longleftrightarrow> serves_memory mem maps s
     \<and> breakpoint_data s = Some (be32 ppc_breakpoint) \<and> breakpoint_len s = 4
     \<and> list_all (\<lambda>b. \<not> reinserting b) (breakpoints s)
     \<and> status s = CHR ''T'' \<and> current_task s = w_task W \<and> w_task W \<noteq> MACH_PORT_NULL \<and> 0 < w_pid W
     \<and> using_threads s \<and> gdbserver_expedite_regs s = expedite_regs_ppc
     \<and> thread_ptr s = None \<and> \<not> extended_protocol s \<and> signal_pid s = w_pid W
     \<and> cl_mem c = client_view mem s \<and> cl_maps c = task_maps maps s
     \<and> cl_bps c = map bp_pc (breakpoints s) \<and> cl_signo c = sig s \<and> cl_attached c = attached s
     \<and> ready_thread regs fregs W s (cl_regs c) (cl_fetched c)
     \<and> (cl_stored c \<longrightarrow> kernel_regs regs fregs W (kst s) = cl_regs c)"

lemma represents_regs: "represents mem maps regs fregs W s c \<Longrightarrow> length (cl_regs c) = 412"
  by (auto simp: represents_def ready_thread_def thread_regs_def reg_ready_def)

lemma represents_size: "represents mem maps regs fregs W s c \<Longrightarrow> length (own_buf s) = 2000"
  using serves_memory_size [of mem maps s] by (simp add: represents_def)

lemma ready_thread_half:
  assumes "register_half regs fregs t = register_half regs fregs s"
  shows "ready_thread regs fregs W t bytes valid = ready_thread regs fregs W s bytes valid"
proof -
  have "entries t = entries s" "all_threads t = all_threads s" "current_inferior t = current_inferior s"
    using assms by (simp_all add: register_half_def)
  then show ?thesis unfolding ready_thread_def by (simp add: reg_ready_half [OF assms])
qed

lemma represents_buffer:
  assumes "represents mem maps regs fregs W s c" and "length b = length (own_buf s)"
  shows "represents mem maps regs fregs W (s\<lparr>own_buf := b, net := nt\<rparr>) c"
proof -
  let ?t = "s\<lparr>own_buf := b, net := nt\<rparr>"
  have "chosen_thread True ?t ts = chosen_thread True s ts" for ts by (rule chosen_thread_of) simp_all
  then have "reg_ready ?t a pi rc = reg_ready s a pi rc" for a pi rc
    using assms(2) by (simp add: reg_ready_def PBUFSIZ_def registers_length_def)
  moreover have "serves_memory mem maps ?t"
    using assms serves_memory_buffers [of mem maps s b "mem_buf s"] by (simp add: represents_def)
  moreover have "thread_regs regs fregs ?t pi rc = thread_regs regs fregs s pi rc" for pi rc
    by (simp add: thread_regs_def)
  ultimately show ?thesis using assms(1) by (simp add: represents_def ready_thread_def)
qed

lemma represents_net: "represents mem maps regs fregs W s c \<Longrightarrow> represents mem maps regs fregs W (s\<lparr>net := nt\<rparr>) c"
  using represents_buffer [of mem maps regs fregs W s c "own_buf s" nt] by simp

lemma represents_frame:
  assumes "represents mem maps regs fregs W s c"
    and "\<And>bytes valid. ready_thread regs fregs W s bytes valid \<Longrightarrow> ready_thread regs fregs W t bytes valid"
    and "serves_memory mem maps t = serves_memory mem maps s" "client_view mem t = client_view mem s"
      "task_maps maps t = task_maps maps s" "kst t = kst s"
    and "breakpoint_data t = breakpoint_data s" "breakpoint_len t = breakpoint_len s" "breakpoints t = breakpoints s"
      "status t = status s" "current_task t = current_task s" "using_threads t = using_threads s"
      "gdbserver_expedite_regs t = gdbserver_expedite_regs s" "sig t = sig s" "thread_ptr t = thread_ptr s"
      "extended_protocol t = extended_protocol s" "signal_pid t = signal_pid s" "attached t = attached s"
  shows "represents mem maps regs fregs W t c"
  using assms by (simp add: represents_def)

lemma represents_modes:
  assumes "represents mem maps regs fregs W s c"
  shows "represents mem maps regs fregs W (s\<lparr>no_ack_mode := m\<rparr>) c"
    and "represents mem maps regs fregs W (s\<lparr>no_ack_mode_pending := m\<rparr>) c"
    and "represents mem maps regs fregs W (s\<lparr>remote_debug := m\<rparr>) c"
    and "represents mem maps regs fregs W (s\<lparr>sigio_action := sa\<rparr>) c"
    and "represents mem maps regs fregs W (s\<lparr>cont_thread := n\<rparr>) c"
    and "represents mem maps regs fregs W (s\<lparr>step_thread := n\<rparr>) c"
proof -
  note mem = client_view_def shadow_def serves_memory_def breakpoints_ok_def bp_ok_def task_mem_def task_maps_def
    PBUFSIZ_def registers_length_def
  have "chosen_thread True (s\<lparr>no_ack_mode := m\<rparr>) ts = chosen_thread True s ts"
    "chosen_thread True (s\<lparr>no_ack_mode_pending := m\<rparr>) ts = chosen_thread True s ts"
    "chosen_thread True (s\<lparr>remote_debug := m\<rparr>) ts = chosen_thread True s ts"
    "chosen_thread True (s\<lparr>sigio_action := sa\<rparr>) ts = chosen_thread True s ts"
    "chosen_thread True (s\<lparr>cont_thread := n\<rparr>) ts = chosen_thread True s ts"
    "chosen_thread True (s\<lparr>step_thread := n\<rparr>) ts = chosen_thread True s ts" for ts
    by (rule chosen_thread_of; simp)+
  then have "reg_ready (s\<lparr>no_ack_mode := m\<rparr>) x pi rc = reg_ready s x pi rc"
    "reg_ready (s\<lparr>no_ack_mode_pending := m\<rparr>) x pi rc = reg_ready s x pi rc"
    "reg_ready (s\<lparr>remote_debug := m\<rparr>) x pi rc = reg_ready s x pi rc"
    "reg_ready (s\<lparr>sigio_action := sa\<rparr>) x pi rc = reg_ready s x pi rc"
    "reg_ready (s\<lparr>cont_thread := n\<rparr>) x pi rc = reg_ready s x pi rc"
    "reg_ready (s\<lparr>step_thread := n\<rparr>) x pi rc = reg_ready s x pi rc" for x pi rc
    by (simp_all add: reg_ready_def PBUFSIZ_def registers_length_def)
  moreover have "thread_regs regs fregs (s\<lparr>no_ack_mode := m\<rparr>) pi rc = thread_regs regs fregs s pi rc"
    "thread_regs regs fregs (s\<lparr>no_ack_mode_pending := m\<rparr>) pi rc = thread_regs regs fregs s pi rc"
    "thread_regs regs fregs (s\<lparr>remote_debug := m\<rparr>) pi rc = thread_regs regs fregs s pi rc"
    "thread_regs regs fregs (s\<lparr>sigio_action := sa\<rparr>) pi rc = thread_regs regs fregs s pi rc"
    "thread_regs regs fregs (s\<lparr>cont_thread := n\<rparr>) pi rc = thread_regs regs fregs s pi rc"
    "thread_regs regs fregs (s\<lparr>step_thread := n\<rparr>) pi rc = thread_regs regs fregs s pi rc" for pi rc
    by (simp_all add: thread_regs_def)
  ultimately have ready: "ready_thread regs fregs W (s\<lparr>no_ack_mode := m\<rparr>) = ready_thread regs fregs W s"
    "ready_thread regs fregs W (s\<lparr>no_ack_mode_pending := m\<rparr>) = ready_thread regs fregs W s"
    "ready_thread regs fregs W (s\<lparr>remote_debug := m\<rparr>) = ready_thread regs fregs W s"
    "ready_thread regs fregs W (s\<lparr>sigio_action := sa\<rparr>) = ready_thread regs fregs W s"
    "ready_thread regs fregs W (s\<lparr>cont_thread := n\<rparr>) = ready_thread regs fregs W s"
    "ready_thread regs fregs W (s\<lparr>step_thread := n\<rparr>) = ready_thread regs fregs W s"
    by (simp_all add: ready_thread_def fun_eq_iff)
  show "represents mem maps regs fregs W (s\<lparr>no_ack_mode := m\<rparr>) c"
    by (rule represents_frame [OF assms]) (simp add: ready, simp_all add: mem)
  show "represents mem maps regs fregs W (s\<lparr>no_ack_mode_pending := m\<rparr>) c"
    by (rule represents_frame [OF assms]) (simp add: ready, simp_all add: mem)
  show "represents mem maps regs fregs W (s\<lparr>remote_debug := m\<rparr>) c"
    by (rule represents_frame [OF assms]) (simp add: ready, simp_all add: mem)
  show "represents mem maps regs fregs W (s\<lparr>sigio_action := sa\<rparr>) c"
    by (rule represents_frame [OF assms]) (simp add: ready, simp_all add: mem)
  show "represents mem maps regs fregs W (s\<lparr>cont_thread := n\<rparr>) c"
    by (rule represents_frame [OF assms]) (simp add: ready, simp_all add: mem)
  show "represents mem maps regs fregs W (s\<lparr>step_thread := n\<rparr>) c"
    by (rule represents_frame [OF assms]) (simp add: ready, simp_all add: mem)
qed

lemma memory_served:
  assumes rep: "represents mem maps regs fregs W s c"
    and run: "h s = (Ret (), t)" and beside: "preserves (register_half regs fregs) h"
    and after: "serves_memory mem maps t" "breakpoint_len t = breakpoint_len s" "task_maps maps t = task_maps maps s"
      "breakpoint_data t = breakpoint_data s" "list_all (\<lambda>b. \<not> reinserting b) (breakpoints t)"
    and c': "c' = c\<lparr>cl_mem := client_view mem t, cl_bps := map bp_pc (breakpoints t)\<rparr>"
  shows "represents mem maps regs fregs W t c' \<and> connection_of t = connection_of s"
proof -
  have half: "register_half regs fregs t = register_half regs fregs s" using preservesD [OF beside run] .
  then have "connection_of t = connection_of s" "using_threads t = using_threads s" "sig t = sig s"
      "gdbserver_expedite_regs t = gdbserver_expedite_regs s" "current_task t = current_task s"
      "thread_ptr t = thread_ptr s" "extended_protocol t = extended_protocol s" "signal_pid t = signal_pid s" "attached t = attached s"
    by (simp_all add: register_half_def)
  moreover have "kernel_regs regs fregs W (kst t) = kernel_regs regs fregs W (kst s)"
    using half by (simp add: register_half_def kernel_regs_def)
  ultimately show ?thesis
    using rep after c' ready_thread_half [OF half] by (simp add: represents_def connection_of_def)
qed

lemma registers_served:
  assumes rep: "represents mem maps regs fregs W s c"
    and run: "h s = (Ret (), t)" and beside: "preserves (memory_half mem maps) h"
    and after: "ready_thread regs fregs W t bytes valid"
    and stored: "stored \<Longrightarrow> kernel_regs regs fregs W (kst t) = bytes"
    and c': "c' = c\<lparr>cl_regs := bytes, cl_fetched := valid, cl_stored := stored\<rparr>"
  shows "represents mem maps regs fregs W t c' \<and> connection_of t = connection_of s"
proof -
  have half: "memory_half mem maps t = memory_half mem maps s" using preservesD [OF beside run] .
  then have "connection_of t = connection_of s" "using_threads t = using_threads s" "sig t = sig s"
      "gdbserver_expedite_regs t = gdbserver_expedite_regs s" "current_task t = current_task s"
      "breakpoint_data t = breakpoint_data s"
      "thread_ptr t = thread_ptr s" "extended_protocol t = extended_protocol s" "signal_pid t = signal_pid s" "attached t = attached s"
    by (simp_all add: memory_half_def)
  with rep after stored c' serves_memory_half [OF half] show ?thesis by (simp add: represents_def connection_of_def)
qed

lemma not_lifted: "list_all (\<lambda>b. \<not> reinserting b) bps \<longleftrightarrow> True \<notin> set (map reinserting bps)"
  by (auto simp: list_all_iff)

definition simulates ::
  "('k \<Rightarrow> nat \<Rightarrow> int \<Rightarrow> byte) \<Rightarrow> ('k \<Rightarrow> nat \<Rightarrow> int set) \<Rightarrow> ('k \<Rightarrow> nat \<Rightarrow> ppc_thread_state) \<Rightarrow>
     ('k \<Rightarrow> nat \<Rightarrow> ppc_float_state) \<Rightarrow> world \<Rightarrow> (('k, 'z) server_state_scheme, 'a) prog \<Rightarrow> 'a \<Rightarrow>
     ('k, 'z) server_state_scheme \<Rightarrow> string \<times> client \<Rightarrow> bool" where
  \<comment> \<open>the program returns \<open>x\<close>, the reply in the buffer and the state are those of the machine, and the
    connection is as before\<close>
  "simulates mem maps regs fregs W m x s rc \<longleftrightarrow> (\<exists>t. m s = (Ret x, t) \<and> cstr (own_buf t) 0 = fst rc
     \<and> represents mem maps regs fregs W t (snd rc) \<and> connection_of t = connection_of s)"

context debugged_program
begin

lemma read_memory_served:
  assumes "represents mem maps regs fregs W s c" and "acceptable W (Read_memory a n) c"
    and "in_mem (cl_maps c) (int a) n" and "cstr (own_buf s) 0 = packet_of (Read_memory a n)"
  shows "simulates mem maps regs fregs W (handle_m_read_mem (darwin_ops K)) () s (serve W (Read_memory a n) c)"
proof -
  from assms obtain t where t: "handle_m_read_mem (darwin_ops K) s = (Ret (), t)"
      "cstr (own_buf t) 0 = hex_bytes (mem_bytes (client_view mem s) (int a) n)"
      "serves_memory mem maps t" "client_view mem t = client_view mem s" "task_maps maps t = task_maps maps s"
      "breakpoints t = breakpoints s" "breakpoint_len t = breakpoint_len s" "breakpoint_data t = breakpoint_data s"
    using m_request [of s a n] by (auto simp: represents_def mapped_mem_def)
  moreover have "c\<lparr>cl_mem := client_view mem t, cl_bps := map bp_pc (breakpoints t)\<rparr> = c"
    using assms(1) t(4,6) by (simp add: represents_def)
  ultimately show ?thesis
    using memory_served [OF assms(1) t(1) registers_beside.handlers(1) t(3,7,5,8)] assms(1,3)
    by (auto simp: simulates_def represents_def)
qed

lemma write_memory_served:
  assumes "represents mem maps regs fregs W s c" and "acceptable W (Write_memory a bs) c"
    and "in_mem (cl_maps c) (int a) (length bs)" and "cstr (own_buf s) 0 = packet_of (Write_memory a bs)"
  shows "simulates mem maps regs fregs W (handle_M_write_mem (darwin_ops K)) () s (serve W (Write_memory a bs) c)"
proof -
  have "length bs \<le> 2000" using assms(2) by (simp add: M_packet_def)
  with assms obtain t where t: "handle_M_write_mem (darwin_ops K) s = (Ret (), t)"
      "cstr (own_buf t) 0 = ''OK''" "serves_memory mem maps t"
      "client_view mem t = write_bytes (client_view mem s) (int a) bs" "task_maps maps t = task_maps maps s"
      "map bp_pc (breakpoints t) = map bp_pc (breakpoints s)" "breakpoint_len t = breakpoint_len s"
      "breakpoint_data t = breakpoint_data s" "map reinserting (breakpoints t) = map reinserting (breakpoints s)"
    using M_request [of s a bs] by (auto simp: represents_def mapped_mem_def)
  moreover have "c\<lparr>cl_mem := client_view mem t, cl_bps := map bp_pc (breakpoints t)\<rparr>
      = snd (serve W (Write_memory a bs) c)"
    using assms(1,3) t(4,6) by (simp add: represents_def)
  moreover have "list_all (\<lambda>b. \<not> reinserting b) (breakpoints t)"
    using t(9) assms(1) by (simp add: represents_def not_lifted)
  ultimately show ?thesis
    using memory_served [OF assms(1) t(1) registers_beside.handlers(2) t(3,7,5,8)] assms(3)
    by (auto simp: simulates_def)
qed

end

lemma breakpoint_kept:
  assumes rep: "represents mem maps regs fregs W s c" and op: "op s = (Ret (), t)"
    and keeps: "keeps_memory (task_mem mem) (task_maps maps) s t"
    and lifted: "list_all (\<lambda>b. \<not> reinserting b) (breakpoints t)" and beside: "preserves (register_half regs fregs) op"
  shows "represents mem maps regs fregs W t (c\<lparr>cl_bps := map bp_pc (breakpoints t)\<rparr>)
    \<and> connection_of t = connection_of s"
proof -
  have s: "serves_memory mem maps s" using rep by (simp add: represents_def)
  have k: "breakpoints_ok mem maps t" "client_view mem t = client_view mem s" "mem_frame s t"
      "task_maps maps t = task_maps maps s"
    using keeps by (simp_all add: keeps_memory_def breakpoints_ok_def client_view_def)
  note f = serves_memory_kept [OF s k(1,3)]
  have "c\<lparr>cl_bps := map bp_pc (breakpoints t)\<rparr>
      = c\<lparr>cl_mem := client_view mem t, cl_bps := map bp_pc (breakpoints t)\<rparr>"
    using rep k(2) by (simp add: represents_def)
  from memory_served [OF rep op beside f(1) f(5) k(4) f(6) lifted this] show ?thesis .
qed

lemma ok_served:
  assumes "op s = (Ret (), t)" and "represents mem maps regs fregs W t c'" and "connection_of t = connection_of s"
    and "h s = seq_p op write_ok s"
  shows "simulates mem maps regs fregs W h () s (''OK'', c')"
proof -
  let ?u = "t\<lparr>own_buf := overwrite (own_buf t) 0 (''OK'' @ [NUL])\<rparr>"
  have l: "length (own_buf t) = 2000" using represents_size [OF assms(2)] .
  then have "represents mem maps regs fregs W ?u c'"
    using represents_buffer [OF assms(2), of "overwrite (own_buf t) 0 (''OK'' @ [NUL])" "net t"] by simp
  with assms l show ?thesis by (simp add: simulates_def prog_simps connection_of_def)
qed

context debugged_program
begin

lemma breakpoint_inserted:
  assumes "represents mem maps regs fregs W s c" and "in_mem (cl_maps c) a 4"
    and "list_all (\<lambda>b. a + 4 \<le> b \<or> b + 4 \<le> a) (cl_bps c)"
  shows "\<exists>t. set_breakpoint_at (darwin_ops K) a None s = (Ret (), t)
    \<and> represents mem maps regs fregs W t (c\<lparr>cl_bps := a # cl_bps c\<rparr>) \<and> connection_of t = connection_of s"
proof -
  have b: "bp_ok (task_mem mem) (task_maps maps) s" "breakpoint_len s = 4" "cl_bps c = map bp_pc (breakpoints s)"
      "cl_maps c = task_maps maps s"
    using assms(1) by (simp_all add: represents_def serves_memory_def breakpoints_ok_def)
  have "clear_of (breakpoint_len s) (breakpoints s) a" "{a..<a + int (breakpoint_len s)} \<subseteq> task_maps maps s"
    using assms(2,3) b by (simp_all add: clear_of_def in_mem_def list_all_iff)
  from memory_target.set_breakpoint_at_keeps [OF darwin_contract b(1) this, of None] obtain t b where
    t: "set_breakpoint_at (darwin_ops K) a None s = (Ret (), t)"
      "keeps_memory (task_mem mem) (task_maps maps) s t" "breakpoints t = b # breakpoints s" "bp_pc b = a"
      "\<not> reinserting b"
    by blast
  have l: "list_all (\<lambda>b. \<not> reinserting b) (breakpoints t)" using t(3,5) assms(1) by (simp add: represents_def)
  have "map bp_pc (breakpoints t) = a # cl_bps c" using t(3,4) b(3) by simp
  with breakpoint_kept [OF assms(1) t(1,2) l registers_beside.breakpoints(1)] t(1) show ?thesis by auto
qed

lemma breakpoint_removed:
  assumes "represents mem maps regs fregs W s c"
  shows "\<exists>t. delete_breakpoint_at (darwin_ops K) a s = (Ret (), t)
    \<and> represents mem maps regs fregs W t (c\<lparr>cl_bps := filter (\<lambda>b. b \<noteq> a) (cl_bps c)\<rparr>)
    \<and> connection_of t = connection_of s"
proof -
  have "bp_ok (task_mem mem) (task_maps maps) s"
    using assms by (simp add: represents_def serves_memory_def breakpoints_ok_def)
  from memory_target.delete_breakpoint_at_keeps [OF darwin_contract this, of a] obtain t where
    t: "delete_breakpoint_at (darwin_ops K) a s = (Ret (), t)" "keeps_memory (task_mem mem) (task_maps maps) s t"
      "breakpoints t = filter (\<lambda>b. bp_pc b \<noteq> a) (breakpoints s)"
    by blast
  have l: "list_all (\<lambda>b. \<not> reinserting b) (breakpoints t)"
    using t(3) assms by (simp add: represents_def list_all_iff)
  have "map bp_pc (breakpoints t) = filter (\<lambda>b. b \<noteq> a) (cl_bps c)"
    using t(3) assms by (simp add: represents_def filter_map comp_def)
  with breakpoint_kept [OF assms t(1,2) l registers_beside.breakpoints(2)] t(1) show ?thesis by auto
qed

lemma insert_breakpoint_served:
  assumes "represents mem maps regs fregs W s c" and "acceptable W (Insert_breakpoint a) c"
    and "cstr (own_buf s) 0 = packet_of (Insert_breakpoint a)"
  shows "simulates mem maps regs fregs W (handle_Z_insert_bp (darwin_ops K)) () s (serve W (Insert_breakpoint a) c)"
proof -
  from breakpoint_inserted [OF assms(1), of "int a"] assms(2) obtain t where
    t: "set_breakpoint_at (darwin_ops K) (int a) None s = (Ret (), t)"
      "represents mem maps regs fregs W t (c\<lparr>cl_bps := int a # cl_bps c\<rparr>)" "connection_of t = connection_of s" by auto
  have "fst (strtoul 16 (cstr (own_buf s) 3)) = int a"
    using cstr_behind [of "own_buf s" "''Z0,''"] strtoul_packet [of a] assms(2,3)
    by (simp add: in_mem_def numeral_3_eq_3)
  then have "handle_Z_insert_bp (darwin_ops K) s =
      seq_p (set_breakpoint_at (darwin_ops K) (int a) None) write_ok s"
    using assms(3) by (simp add: handle_Z_insert_bp_def prog_simps)
  from ok_served [where h = "handle_Z_insert_bp (darwin_ops K)", OF t this] show ?thesis by simp
qed

lemma remove_breakpoint_served:
  assumes "represents mem maps regs fregs W s c" and "acceptable W (Remove_breakpoint a) c"
    and "cstr (own_buf s) 0 = packet_of (Remove_breakpoint a)"
  shows "simulates mem maps regs fregs W (handle_z_remove_bp (darwin_ops K)) () s (serve W (Remove_breakpoint a) c)"
proof -
  from breakpoint_removed [OF assms(1), of "int a"] obtain t where
    t: "delete_breakpoint_at (darwin_ops K) (int a) s = (Ret (), t)"
      "represents mem maps regs fregs W t (c\<lparr>cl_bps := filter (\<lambda>b. b \<noteq> int a) (cl_bps c)\<rparr>)"
      "connection_of t = connection_of s" by auto
  have "fst (strtoul 16 (cstr (own_buf s) 3)) = int a"
    using cstr_behind [of "own_buf s" "''z0,''"] strtoul_packet [of a] assms(2,3)
    by (simp add: numeral_3_eq_3)
  then have "handle_z_remove_bp (darwin_ops K) s = seq_p (delete_breakpoint_at (darwin_ops K) (int a)) write_ok s"
    using assms(3) by (simp add: handle_z_remove_bp_def prog_simps)
  from ok_served [where h = "handle_z_remove_bp (darwin_ops K)", OF t this] show ?thesis by simp
qed

lemma thread_regs_valid [simp]: "thread_regs regs fregs t pi (valid_cache bs) = bs"
  by (simp add: thread_regs_def)

lemma register_requests_served:
  assumes rep: "represents mem maps regs fregs W s c" and ac: "acceptable W r c" and p: "cstr (own_buf s) 0 = packet_of r"
  shows "r = Read_registers \<Longrightarrow> simulates mem maps regs fregs W (handle_g_read_regs (darwin_ops K)) () s (serve W r c)"
    and "r = Write_registers bs \<Longrightarrow> simulates mem maps regs fregs W (handle_G_write_regs (darwin_ops K)) () s (serve W r c)"
    and "r = Read_register i \<Longrightarrow> simulates mem maps regs fregs W (handle_p_read_reg (darwin_ops K)) () s (serve W r c)"
    and "r = Write_register i v \<Longrightarrow> simulates mem maps regs fregs W handle_P_write_reg () s (serve W r c)"
proof -
  from rep obtain a pi rc where ready: "reg_ready s a pi rc"
    and wf: "wf_list (entries s) (all_threads s) [a]" and a: "id_at (entries s) a = w_pid W"
    and pi: "p_pid pi = w_pid W" "p_thread pi = w_thread W"
    and c: "cl_regs c = thread_regs regs fregs s pi rc" "cl_fetched c = registers_valid rc"
    unfolding represents_def ready_thread_def by blast
  let ?sim = "\<lambda>h. simulates mem maps regs fregs W h () s (serve W r c)"
  have stored: "cl_stored c \<Longrightarrow> kernel_regs regs fregs W (kst s) = cl_regs c" using rep by (simp add: represents_def)
  have sim: "?sim h"
    if run: "h s = (Ret (), t)" and beside: "preserves (memory_half mem maps) h" and keep: "preserves (kernel_half regs fregs) h"
      and t: "reg_ready t a pi rc'" "current_inferior t = Some a" "cstr (own_buf t) 0 = fst (serve W r c)"
      and st: "st \<Longrightarrow> cl_stored c \<and> thread_regs regs fregs t pi rc' = cl_regs c"
      and s: "snd (serve W r c) =
        c\<lparr>cl_regs := thread_regs regs fregs t pi rc', cl_fetched := registers_valid rc', cl_stored := st\<rparr>"
    for h t rc' st
  proof -
    have kept: "st \<Longrightarrow> kernel_regs regs fregs W (kst t) = thread_regs regs fregs t pi rc'"
      using st stored preservesD [OF keep run] by (simp add: kernel_regs_def kernel_half_def)
    have "entries t = entries s" "all_threads t = all_threads s"
      using preservesD [OF beside run] by (simp_all add: memory_half_def)
    then have "ready_thread regs fregs W t (thread_regs regs fregs t pi rc') (registers_valid rc')"
      unfolding ready_thread_def using t(1,2) wf a pi by auto
    from registers_served [OF rep run beside this kept s] run t(3) show ?thesis by (simp add: simulates_def)
  qed
  show "?sim (handle_g_read_regs (darwin_ops K))" if r: "r = Read_registers"
  proof -
    from g_request [OF ready] obtain t where
      t: "handle_g_read_regs (darwin_ops K) s = (Ret (), t)" "cstr (own_buf t) 0 = hex_bytes (cl_regs c)"
        "reg_ready t a pi (valid_cache (cl_regs c))" "current_inferior t = Some a" unfolding c(1) by blast
    from sim [OF t(1) memory_beside.handlers(1) registers_in_kernel.handlers(1) t(3,4), of "cl_stored c"] t(2) r
    show ?thesis by simp
  qed
  show "?sim (handle_G_write_regs (darwin_ops K))" if r: "r = Write_registers bs"
  proof -
    from G_request [OF ready, of bs] p ac r obtain t where
      t: "handle_G_write_regs (darwin_ops K) s = (Ret (), t)" "cstr (own_buf t) 0 = ''OK''"
        "reg_ready t a pi (valid_cache bs)" "current_inferior t = Some a" by auto
    from sim [OF t(1) memory_beside.handlers(2) registers_in_kernel.handlers(2) t(3,4), of False] t(2) r
    show ?thesis by simp
  qed
  show "?sim (handle_p_read_reg (darwin_ops K))" if r: "r = Read_register i"
  proof -
    from p_request [OF ready, of i] p ac c(1) r obtain t where
      t: "handle_p_read_reg (darwin_ops K) s = (Ret (), t)"
        "cstr (own_buf t) 0 = hex_bytes (slot regs_ppc i (cl_regs c))"
        "reg_ready t a pi (valid_cache (cl_regs c))" "current_inferior t = Some a" by auto
    from sim [OF t(1) memory_beside.handlers(3) registers_in_kernel.handlers(3) t(3,4), of "cl_stored c"] t(2) r
    show ?thesis by simp
  qed
  show "?sim handle_P_write_reg" if r: "r = Write_register i v"
  proof -
    let ?rc = "rc\<lparr>registers := put_slot regs_ppc i v (registers rc)\<rparr>"
    from P_request [OF ready, of i v] p ac r obtain t where
      t: "handle_P_write_reg s = (Ret (), t)" "cstr (own_buf t) 0 = ''OK''" "kst t = kst s"
        "reg_ready t a pi ?rc" "current_inferior t = Some a" by auto
    let ?st = "cl_stored c \<and> \<not> cl_fetched c"
    have "snd (serve W r c) = c\<lparr>cl_regs := thread_regs regs fregs t pi ?rc, cl_fetched := registers_valid ?rc, cl_stored := ?st\<rparr>"
      using r c t(3) by (simp add: thread_regs_def)
    moreover have "?st \<Longrightarrow> thread_regs regs fregs t pi ?rc = cl_regs c" using c t(3) by (simp add: thread_regs_def)
    ultimately show ?thesis
      using sim [OF t(1) memory_beside.handlers(4) registers_in_kernel.handlers(4) t(4,5), of ?st] t(2) r by simp
  qed
qed

lemma unsupported_served:
  assumes "represents mem maps regs fregs W s c"
  shows "simulates mem maps regs fregs W empty_reply () s ([], c)"
proof -
  have "length (own_buf s) = 2000" using represents_size [OF assms] .
  with represents_buffer [OF assms, of "overwrite (own_buf s) 0 [NUL]" "net s"]
  show ?thesis by (simp add: simulates_def prog_simps connection_of_def)
qed

end

end
