(* ===== verification/ClientQueries.thy ===== *)
theory ClientQueries
  imports ClientSession
begin

section \<open>Questions about the server and its thread\<close>

text \<open>
  The packets that leave program, memory and registers alone: the queries \<^verbatim>\<open>q\<close>, the settings \<^verbatim>\<open>Q\<close>, \<^verbatim>\<open>H\<close>, \<^verbatim>\<open>!\<close> and
  \<^verbatim>\<open>d\<close>, and every packet the server does not know (src/server.c).  On the Darwin target they simulate the
  machine of theory \<open>Client\<close>.  The process has one thread, so that it is selected whatever a client asks for.
\<close>

subsection \<open>The thread\<close>

lemma has_numberD:
  assumes "has_number W signo"
  shows "target_signal_from_host (w_host W) (uint signo) = Ret (signal_number W signo)"
    "0 \<le> signal_number W signo" "signal_number W signo < 256"
  using assms by (auto simp: has_number_def signal_number_def split: outcome.splits)

lemma reg_ready_single:
  assumes "wf_list (entries s) (all_threads s) [a]" and "ppc_cache (s\<lparr>current_inferior := Some a\<rparr>) a rc"
    and "current_proc (s\<lparr>current_inferior := Some a\<rparr>) p pi" and "length (own_buf s) = PBUFSIZ s"
  shows "reg_ready s a pi rc"
proof -
  have "chosen_thread True s [a] = Some a"
    using chosen_thread_some [of "[a]" True s] chosen_thread_in [of True s "[a]"] by auto
  with assms show ?thesis
    unfolding reg_ready_def by (auto simp: ppc_cache_def current_cache_def cache_at_def current_proc_def)
qed

lemma represents_session:
  assumes "represents mem maps regs fregs W s c"
  obtains a p pi rc where "session_ready s a p pi rc" and "current_inferior s = Some a"
    and "p_pid pi = w_pid W" and "p_thread pi = w_thread W" and "cl_regs c = thread_regs regs fregs s pi rc"
    and "cl_fetched c = registers_valid rc"
proof -
  from assms obtain a pi rc where ready: "reg_ready s a pi rc"
    and a: "wf_list (entries s) (all_threads s) [a]" "id_at (entries s) a = w_pid W" "current_inferior s = Some a"
    and pi: "p_pid pi = w_pid W" "p_thread pi = w_thread W"
    and c: "cl_regs c = thread_regs regs fregs s pi rc" "cl_fetched c = registers_valid rc"
    unfolding represents_def ready_thread_def by blast
  from reg_readyD(3) [OF ready] obtain p where "current_proc (s\<lparr>current_inferior := Some a\<rparr>) p pi" by blast
  then have "session_ready s a p pi rc"
    using assms reg_readyD(2) [OF ready] a pi ready
    by (simp add: session_ready_def resume_ready_def represents_def reg_ready_def)
  with a(3) pi c that show thesis by blast
qed

lemma session_ready_thread:
  assumes "session_ready u a p pi rc" and "current_inferior u = Some a" and "p_pid pi = w_pid W"
    and "p_thread pi = w_thread W"
  shows "ready_thread regs fregs W u (thread_regs regs fregs u pi rc) (registers_valid rc)"
proof -
  have "reg_ready u a pi rc"
    using assms(1) reg_ready_single [of u a rc p pi] by (auto simp: session_ready_def resume_ready_def)
  with assms show ?thesis by (auto simp: ready_thread_def session_ready_def resume_ready_def)
qed

lemma the_thread:
  assumes "represents mem maps regs fregs W s c"
  obtains a e where "current_inferior s = Some a" and "wf_list (entries s) (all_threads s) [a]"
    and "head (all_threads s) = Some a" and "entries s a = Some e" and "ent_id e = w_pid W" and "next_ptr e = None"
proof -
  from assms obtain a where a: "wf_list (entries s) (all_threads s) [a]" "id_at (entries s) a = w_pid W"
      "current_inferior s = Some a"
    unfolding represents_def ready_thread_def by blast
  from wf_list_alloc [OF a(1)] obtain e where e: "entries s a = Some e" by auto
  moreover have "head (all_threads s) = Some a" "next_ptr e = None" using a(1) e by (simp_all add: wf_list_def)
  ultimately show thesis using that a by (simp add: id_at_def)
qed

lemma chosen_single: "chosen_thread g s [a] = Some a"
  using chosen_thread_some [of "[a]" g s] chosen_thread_in [of g s "[a]"] by auto

lemma thread_stays_selected:
  assumes "represents mem maps regs fregs W s c"
  shows "set_desired_inferior g s = (Ret (), s)"
proof -
  from assms obtain a where "current_inferior s = Some a" "wf_list (entries s) (all_threads s) [a]"
    by (rule the_thread)
  then show ?thesis using set_desired_inferior_eq [of s "[a]" g] same_inferior [of s "Some a"] by (simp add: chosen_single)
qed

lemma represents_general:
  assumes "represents mem maps regs fregs W s c"
  shows "represents mem maps regs fregs W (s\<lparr>general_thread := n\<rparr>) c"
proof -
  obtain a p pi rc where s: "session_ready s a p pi rc" "current_inferior s = Some a" "p_pid pi = w_pid W"
      "p_thread pi = w_thread W" and c: "cl_regs c = thread_regs regs fregs s pi rc" "cl_fetched c = registers_valid rc"
    using represents_session [OF assms] by metis
  let ?t = "s\<lparr>general_thread := n\<rparr>"
  have "session_ready ?t a p pi rc"
    using s(1) regs_wf_ppc by (simp add: session_ready_def resume_ready_def ppc_cache_def current_cache_def cache_at_def
        current_proc_def PBUFSIZ_def registers_length_def)
  moreover have "thread_regs regs fregs ?t pi rc = cl_regs c" by (simp add: c thread_regs_def)
  ultimately have t: "ready_thread regs fregs W ?t (cl_regs c) (cl_fetched c)"
    using session_ready_thread [of ?t a p pi rc W regs fregs] s(2-4) c(2) by simp
  note mem = client_view_def shadow_def serves_memory_def breakpoints_ok_def bp_ok_def task_mem_def task_maps_def
    PBUFSIZ_def registers_length_def
  have "serves_memory mem maps ?t = serves_memory mem maps s" "client_view mem ?t = client_view mem s"
    "task_maps maps ?t = task_maps maps s" by (simp_all add: mem)
  with t assms show ?thesis by (simp add: represents_def)
qed

subsection \<open>Replies that need no more\<close>

lemma text_served:
  assumes "represents mem maps regs fregs W t c'" and "connection_of t = connection_of s" and "h s = reply txt t"
    and "NUL \<notin> set txt" and "length txt < 2000"
  shows "simulates mem maps regs fregs W h () s (txt, c')"
proof -
  let ?b = "overwrite (own_buf t) 0 (txt @ [NUL])"
  have l: "length (own_buf t) = 2000" using represents_size [OF assms(1)] .
  with assms(3,5) have "h s = (Ret (), t\<lparr>own_buf := ?b\<rparr>)" by (simp add: reply_eq)
  moreover have "length ?b = length (own_buf t)" using l assms(5) by simp
  from represents_buffer [OF assms(1) this, of "net t"] have "represents mem maps regs fregs W (t\<lparr>own_buf := ?b\<rparr>) c'" by simp
  ultimately show ?thesis
    using assms(2,4) by (simp add: simulates_def cstr_overwrite connection_of_def)
qed

lemma texts_without_NUL:
  "NUL \<notin> set ''OK''" "NUL \<notin> set ''0''" "NUL \<notin> set ''l''" "NUL \<notin> set ''PacketSize=7cf''" "NUL \<notin> set ''vCont;c;C;s;S''"
  "NUL \<notin> set (''QC'' @ fmt_x n)" "NUL \<notin> set (''m'' @ fmt_x n)" "NUL \<notin> set []"
  using NUL_notin_fmt_x by (simp_all add: NUL_def)

lemma packet_size: "''PacketSize='' @ fmt_x (int 2000 - 1) = ''PacketSize=7cf''"
  by (simp add: fmt_x_def hex_digits.simps [of 1999] hex_digits.simps [of 124] hex_digits.simps [of 7] hex_digit_def
      char_of_def bit_0)

subsection \<open>Queries\<close>

lemma darwin_ops_queries [simp]: "look_up_symbols (darwin_ops K) = None" "read_auxv (darwin_ops K) = None"
  by (simp_all add: darwin_ops_def)

lemma entry_at_eq: "entries s a = Some e \<Longrightarrow> entry_at (Some a) s = (Ret e, s)"
  by (simp add: entry_at_def deref_p_def)

lemma thread_info_eq:
  assumes "thread_ptr s = Some a" and "entries s a = Some e" and "length (own_buf s) = 2000"
  shows "thread_info_reply s = (Ret (), s\<lparr>own_buf := overwrite (own_buf s) 0 (''m'' @ fmt_x (ent_id e) @ [NUL]),
    thread_ptr := next_ptr e\<rparr>)"
proof -
  have "reply (''m'' @ fmt_x (ent_id e)) s = (Ret (), s\<lparr>own_buf := overwrite (own_buf s) 0 (''m'' @ fmt_x (ent_id e) @ [NUL])\<rparr>)"
    using reply_eq [of "''m'' @ fmt_x (ent_id e)" s] length_fmt_x [of "ent_id e"] assms(3) by simp
  then show ?thesis
    using entry_at_eq [OF assms(2)] assms(1) by (simp add: thread_info_reply_def prog_simps del: reply_eq)
qed

lemma same_thread_ptr: "thread_ptr s = p \<Longrightarrow> (s :: ('k, 'z) server_state_scheme)\<lparr>thread_ptr := p\<rparr> = s"
  by (cases s) simp

lemma queries_served:
  assumes rep: "represents mem maps regs fregs W s c" and p: "cstr (own_buf s) 0 = packet_of r"
    and r: "r \<in> {Ask_process, Ask_features f, Ask_attached, Offer_symbols, First_threads, More_threads}"
  shows "simulates mem maps regs fregs W (handle_query (darwin_ops K)) () s (serve W r c)"
proof -
  obtain a e where h: "head (all_threads s) = Some a" and e: "entries s a = Some e" "ent_id e = w_pid W" "next_ptr e = None"
    using the_thread [OF rep] by metis
  have size: "length (own_buf s) = 2000" "PBUFSIZ s = 2000" and tp: "thread_ptr s = None"
    using represents_size [OF rep] rep by (simp_all add: represents_def serves_memory_def)
  have says: "simulates mem maps regs fregs W (handle_query (darwin_ops K)) () s (str, c)"
    if "handle_query (darwin_ops K) s = reply str s" "NUL \<notin> set str" "length str < 2000" for str
    by (rule text_served [where h = "handle_query (darwin_ops K)", OF rep refl that])
  note q = handle_query_def prog_simps starts_with_def
  from r consider "r = Ask_process" | "r = Ask_features f" | "r = Ask_attached" | "r = Offer_symbols"
    | "r = First_threads" | "r = More_threads" by blast
  then show ?thesis
  proof cases
    case 1
    with p h e(1) have "handle_query (darwin_ops K) s = reply (''QC'' @ fmt_x (w_pid W)) s"
      by (simp add: q entry_at_eq e(2))
    from says [OF this texts_without_NUL(6)] 1 length_fmt_x [of "w_pid W"] show ?thesis by simp
  next
    case 2
    with p size(2) have "handle_query (darwin_ops K) s = reply (''PacketSize='' @ fmt_x (int 2000 - 1)) s"
      by (simp add: q)
    from says [OF this] 2 show ?thesis unfolding packet_size using texts_without_NUL(4) by simp
  next
    case 3
    with p have "handle_query (darwin_ops K) s = reply ''0'' s" by (simp add: q)
    from says [OF this] 3 texts_without_NUL(2) show ?thesis by simp
  next
    case 4
    with p have "handle_query (darwin_ops K) s = reply ''OK'' s" by (simp add: q)
    from says [OF this] 4 texts_without_NUL(1) show ?thesis by simp
  next
    case 5
    let ?txt = "''m'' @ fmt_x (w_pid W)" and ?s = "s\<lparr>thread_ptr := Some a\<rparr>"
    have "thread_info_reply ?s = (Ret (), ?s\<lparr>own_buf := overwrite (own_buf s) 0 (?txt @ [NUL]), thread_ptr := None\<rparr>)"
      using thread_info_eq [of ?s a e] e size(1) by simp
    moreover have "?s\<lparr>own_buf := b, thread_ptr := None\<rparr> = s\<lparr>own_buf := b\<rparr>" for b
      using tp by (cases s) simp
    moreover have "reply ?txt s = (Ret (), s\<lparr>own_buf := overwrite (own_buf s) 0 (?txt @ [NUL])\<rparr>)"
      using length_fmt_x [of "w_pid W"] size(1) by (intro reply_eq) simp
    ultimately have "handle_query (darwin_ops K) s = reply ?txt s" using p 5 h by (simp add: q)
    from says [OF this texts_without_NUL(7)] 5 length_fmt_x [of "w_pid W"] show ?thesis by simp
  next
    case 6
    with p tp have "handle_query (darwin_ops K) s = reply ''l'' s" by (simp add: q)
    from says [OF this] 6 texts_without_NUL(3) show ?thesis by simp
  qed
qed

subsection \<open>Settings\<close>

lemma select_thread_served:
  assumes rep: "represents mem maps regs fregs W s c" and p: "cstr (own_buf s) 0 = packet_of (Select_thread ch str)"
    and ch: "ch \<in> {CHR ''g'', CHR ''c'', CHR ''s''}"
  shows "simulates mem maps regs fregs W handle_H_set_thread () s (serve W (Select_thread ch str) c)"
proof -
  let ?n = "fst (strtol 16 str)"
  have says: "simulates mem maps regs fregs W handle_H_set_thread () s (''OK'', c)"
    if "represents mem maps regs fregs W t c" "connection_of t = connection_of s" "handle_H_set_thread s = reply ''OK'' t" for t
    by (rule text_served [where h = handle_H_set_thread, OF that]) (simp_all add: NUL_def)
  note q = handle_H_set_thread_def prog_simps Let_def write_ok_def
  consider "ch = CHR ''g''" | "ch = CHR ''c''" | "ch = CHR ''s''" using ch by blast
  then have "simulates mem maps regs fregs W handle_H_set_thread () s (''OK'', c)"
  proof cases
    case 1
    let ?s = "s\<lparr>general_thread := ?n\<rparr>"
    let ?t = "?s\<lparr>own_buf := overwrite (own_buf s) 0 (''OK'' @ [NUL])\<rparr>"
    have g: "represents mem maps regs fregs W ?s c" using represents_general [OF rep] .
    have size: "length (own_buf s) = 2000" using represents_size [OF rep] .
    then have r: "reply ''OK'' ?s = (Ret (), ?t)" by (simp add: reply_eq)
    have "represents mem maps regs fregs W ?t c"
      using represents_buffer [OF g, of "overwrite (own_buf s) 0 (''OK'' @ [NUL])" "net s"] size by simp
    from thread_stays_selected [OF this, of True] r p 1 have "handle_H_set_thread s = reply ''OK'' ?s"
      by (simp add: q numeral_2_eq_2)
    with says [OF g] show ?thesis by (simp add: connection_of_def)
  next
    case 2
    with p have "handle_H_set_thread s = reply ''OK'' (s\<lparr>cont_thread := ?n\<rparr>)" by (simp add: q numeral_2_eq_2)
    with says [OF represents_modes(5) [OF rep]] show ?thesis by (simp add: connection_of_def)
  next
    case 3
    with p have "handle_H_set_thread s = reply ''OK'' (s\<lparr>step_thread := ?n\<rparr>)" by (simp add: q numeral_2_eq_2)
    with says [OF represents_modes(6) [OF rep]] show ?thesis by (simp add: connection_of_def)
  qed
  then show ?thesis by simp
qed

lemma settings_served:
  assumes rep: "represents mem maps regs fregs W s c" and p: "cstr (own_buf s) 0 = packet_of r"
  shows "r = Pass_signals str \<Longrightarrow> simulates mem maps regs fregs W handle_set () s (serve W r c)"
    and "r = Ask_extended \<Longrightarrow> simulates mem maps regs fregs W write_ok () s (serve W r c)"
    and "r = Toggle_debug str \<Longrightarrow> simulates mem maps regs fregs W handle_d_toggle_debug () s (serve W r c)"
    and "r = Ask_actions \<Longrightarrow> simulates mem maps regs fregs W (handle_v_requests H (darwin_ops K)) () s (serve W r c)"
proof -
  show "simulates mem maps regs fregs W handle_set () s (serve W r c)" if "r = Pass_signals str"
  proof -
    have "handle_set s = reply ''OK'' s"
      using p that by (simp add: handle_set_def prog_simps starts_with_def write_ok_def)
    from text_served [where h = handle_set, OF rep refl this] that show ?thesis by (simp add: NUL_def)
  qed
  show "simulates mem maps regs fregs W write_ok () s (serve W r c)" if "r = Ask_extended"
    using text_served [where h = write_ok, OF rep refl, of "''OK''"] that by (simp add: NUL_def write_ok_def)
  show "simulates mem maps regs fregs W handle_d_toggle_debug () s (serve W r c)" if "r = Toggle_debug str"
    using represents_modes(3) [OF rep] p that
    by (simp add: simulates_def handle_d_toggle_debug_def connection_of_def)
  show "simulates mem maps regs fregs W (handle_v_requests H (darwin_ops K)) () s (serve W r c)" if "r = Ask_actions"
  proof -
    have "handle_v_requests H (darwin_ops K) s = reply ''vCont;c;C;s;S'' s"
      using p that by (simp add: handle_v_requests_def prog_simps starts_with_def)
    from text_served [where h = "handle_v_requests H (darwin_ops K)", OF rep refl this] that show ?thesis by (simp add: NUL_def)
  qed
qed

subsection \<open>Packets the server does not know\<close>

lemma unsupported_packet:
  assumes p: "cstr (own_buf s) 0 = pkt" and u: "unsupported pkt" and ext: "\<not> extended_protocol s"
  shows "handle_packet K H (darwin_ops K) argv s = seq_p empty_reply (return_p False) s"
proof -
  obtain ch str where pkt: "pkt = ch # str" using u by (cases pkt) (auto simp: unsupported_def)
  note run = handle_packet_def prog_simps p pkt
  consider "ch = CHR ''q''" | "ch = CHR ''Q''" | "ch = CHR ''H''" | "ch = CHR ''v''" | "ch = CHR ''Z''" | "ch = CHR ''z''"
    | "ch = CHR ''R''" | "ch \<notin> set ''qQHvZzR''" by auto
  then show ?thesis
  proof cases
    case 1
    with u pkt have "pkt \<notin> {''qC'', ''qAttached'', ''qSymbol::'', ''qfThreadInfo'', ''qsThreadInfo''}"
      "\<not> starts_with ''qSupported'' pkt" by (simp_all add: unsupported_def)
    then have "handle_query (darwin_ops K) s = empty_reply s" using p by (simp add: handle_query_def prog_simps)
    with 1 show ?thesis by (simp add: run seq_p_def bind_p_def)
  next
    case 2
    with u pkt have "pkt \<noteq> ''QStartNoAckMode''" "\<not> starts_with ''QPassSignals:'' pkt" by (simp_all add: unsupported_def)
    then have "handle_set s = empty_reply s" using p by (simp add: handle_set_def prog_simps)
    with 2 show ?thesis by (simp add: run seq_p_def bind_p_def)
  next
    case 3
    with u pkt have "chr_at pkt 1 \<notin> {CHR ''g'', CHR ''c'', CHR ''s''}" by (simp add: unsupported_def)
    then have "handle_H_set_thread s = empty_reply s" using p by (simp add: handle_H_set_thread_def prog_simps Let_def)
    with 3 show ?thesis by (simp add: run seq_p_def bind_p_def)
  next
    case 4
    with u pkt have "\<not> starts_with ''vCont;'' pkt" "\<not> starts_with ''vCont?'' pkt" by (simp_all add: unsupported_def)
    then have "handle_v_requests H (darwin_ops K) s = empty_reply s" using p by (simp add: handle_v_requests_def prog_simps)
    with 4 show ?thesis by (simp add: run seq_p_def bind_p_def)
  next
    case 5
    with u pkt have "chr_at pkt 1 \<noteq> CHR ''0''" by (simp add: unsupported_def)
    then have "handle_Z_insert_bp (darwin_ops K) s = empty_reply s" using p by (simp add: handle_Z_insert_bp_def prog_simps)
    with 5 show ?thesis by (simp add: run seq_p_def bind_p_def)
  next
    case 6
    with u pkt have "chr_at pkt 1 \<noteq> CHR ''0''" by (simp add: unsupported_def)
    then have "handle_z_remove_bp (darwin_ops K) s = empty_reply s" using p by (simp add: handle_z_remove_bp_def prog_simps)
    with 6 show ?thesis by (simp add: run seq_p_def bind_p_def)
  next
    case 7
    with ext show ?thesis by (simp add: run handle_R_restart_def)
  next
    case 8
    with u pkt have "ch \<notin> set ''qQdD!?HgGpPmMCScskTRvZz''" by (auto simp: unsupported_def)
    then show ?thesis by (simp add: run)
  qed
qed

end
