(* ===== verification/ClientRun.thy ===== *)
theory ClientRun
  imports ClientQueries
begin

section \<open>Running the program for the client\<close>

text \<open>
  The requests to continue and step, \<^verbatim>\<open>vCont\<close> among them, and the question for the last stop, simulate the machine of theory
  \<open>Client\<close>, over a kernel that runs the program as the machine's world says (\<open>running_program\<close>).  The
  program runs on memory with the traps; if it leaves them in place, the breakpoints are consistent
  with memory again when it stops.
\<close>

subsection \<open>Memory after a run\<close>

lemma planted_view:
  assumes "bps_ok 4 (be32 ppc_breakpoint) brk v m bps" and "list_all (\<lambda>b. \<not> reinserting b) bps"
  shows "with_traps (map bp_pc bps) (shadow_of 4 bps v) = v"
proof
  fix x
  show "with_traps (map bp_pc bps) (shadow_of 4 bps v) x = v x"
  proof (cases "find (\<lambda>a. a \<le> x \<and> x < a + 4) (map bp_pc bps)")
    case None
    then have "\<And>b. b \<in> set bps \<Longrightarrow> \<not> covers 4 b x" by (auto simp: find_None_iff covers_def)
    with None shadow_byte(2) [OF assms(1)] show ?thesis by (simp add: with_traps_def)
  next
    case (Some a)
    then obtain b where b: "b \<in> set bps" "a = bp_pc b" "covers 4 b x"
      by (auto simp: find_Some_iff covers_def) (metis nth_mem)
    then have "v x = be32 ppc_breakpoint ! nat (x - bp_pc b)"
      using bps_ok_byte [OF assms(1) b(1,3)] assms(2) by (auto simp: list_all_iff)
    with Some b(2) show ?thesis by (simp add: with_traps_def)
  qed
qed

lemma breakpoints_after_run:
  assumes "bps_ok 4 d brk v m bps" and "list_all (\<lambda>b. \<not> reinserting b) bps"
    and "list_all (\<lambda>a. mem_bytes v' a 4 = d) (map bp_pc bps)"
  shows "bps_ok 4 d brk v' m bps"
    and "shadow_of 4 bps v' = (\<lambda>x. if trapped (map bp_pc bps) x then shadow_of 4 bps v x else v' x)"
proof -
  show ok: "bps_ok 4 d brk v' m bps" using assms by (auto simp: bps_ok_def list_all_iff)
  have "shadow_of 4 bps v' x = (if trapped (map bp_pc bps) x then shadow_of 4 bps v x else v' x)" for x
  proof (cases "\<exists>b \<in> set bps. covers 4 b x")
    case True
    then obtain b where b: "b \<in> set bps" "covers 4 b x" by blast
    then have "trapped (map bp_pc bps) x" by (auto simp: trapped_def list_ex_iff covers_def)
    then show ?thesis using shadow_byte(1) [OF ok b] shadow_byte(1) [OF assms(1) b] by simp
  next
    case False
    then have "\<not> trapped (map bp_pc bps) x" by (auto simp: trapped_def list_ex_iff covers_def)
    then show ?thesis using shadow_byte(2) [OF ok] False by auto
  qed
  then show "shadow_of 4 bps v' = (\<lambda>x. if trapped (map bp_pc bps) x then shadow_of 4 bps v x else v' x)" by blast
qed

subsection \<open>The question for the last stop\<close>

context debugged_program
begin

lemma ask_stop_served:
  assumes rep: "represents mem maps regs fregs W s c" and num: "has_number W (cl_signo c)"
  shows "simulates mem maps regs fregs W (handle_question (w_host W) (darwin_ops K)) () s (serve W Ask_stop c)"
proof -
  obtain a p pi rc where ready: "session_ready s a p pi rc" and a: "current_inferior s = Some a"
    and pi: "p_pid pi = w_pid W" "p_thread pi = w_thread W"
    and c: "cl_regs c = thread_regs regs fregs s pi rc"
    using represents_session [OF rep] by metis
  let ?bytes = "thread_regs regs fregs s pi rc"
  have s: "status s = CHR ''T''" "sig s = cl_signo c" "using_threads s" "gdbserver_expedite_regs s = expedite_regs_ppc"
    using rep by (simp_all add: represents_def)
  have "s\<lparr>current_inferior := Some a\<rparr> = s" using a by simp
  then have wf: "wf_list (entries s) (all_threads s) [a]" and cache: "ppc_cache s a rc" and pr: "current_proc s p pi"
    and id: "id_at (entries s) a = w_pid W"
    using ready pi by (simp_all add: session_ready_def resume_ready_def)
  obtain e where e: "entries s a = Some e" using wf_list_alloc [OF wf, of a] by auto
  with id have ide: "ent_id e = w_pid W" by (simp add: id_at_def)
  from stop_reply [OF cache pr s(4,3) e represents_size [OF rep], of "w_host W" "sig s" "signal_number W (sig s)"]
    has_numberD [of W "sig s"] num s(2) obtain k b where
    u: "prepare_resume_reply (w_host W) (darwin_ops K) CHR ''T'' (sig s) s =
          (Ret (), replied (w_pid W) b ((set_cache a (valid_cache ?bytes) s)\<lparr>kst := k\<rparr>))"
      "cstr b 0 = stop_text (signal_number W (sig s)) ?bytes (w_pid W)" "length b = length (own_buf s)"
    unfolding stop_text_def ide by auto
  let ?u = "replied (w_pid W) b ((set_cache a (valid_cache ?bytes) s)\<lparr>kst := k\<rparr>)"
  have run: "handle_question (w_host W) (darwin_ops K) s = (Ret (), ?u)"
    using u(1) s(1) by (simp add: handle_question_def prog_simps)
  have l: "length ?bytes = 412" using represents_regs [OF rep] c by simp
  have sr: "session_ready ?u a p pi (valid_cache ?bytes)"
    using ready l u(3) by (auto simp: session_ready_def resume_ready_def ppc_cache_def current_cache_def
        cache_at_def current_proc_def replied_def set_cache_def PBUFSIZ_def registers_length_def)
  have "current_inferior ?u = Some a" using a by (simp add: replied_def)
  from session_ready_thread [OF sr this pi, of regs fregs]
  have t: "ready_thread regs fregs W ?u (cl_regs c) True" using c by simp
  have beside: "preserves (memory_half mem maps) (handle_question (w_host W) (darwin_ops K))"
    and "preserves (kernel_half regs fregs) (handle_question (w_host W) (darwin_ops K))"
    unfolding handle_question_def by (intro preserves_intros)+
  from preservesD [OF this(2) run] rep have stored: "cl_stored c \<Longrightarrow> kernel_regs regs fregs W (kst ?u) = cl_regs c"
    by (simp add: represents_def kernel_regs_def kernel_half_def)
  from registers_served [OF rep run beside t stored, of "cl_stored c" "snd (serve W Ask_stop c)"] run u(2) s(2) c
  show ?thesis by (simp add: simulates_def replied_def)
qed

end

subsection \<open>Continue and step\<close>

definition run_by ::
  "host_signals \<Rightarrow> 'k kernel \<Rightarrow> (('k, 'z) server_state_scheme, unit) prog \<Rightarrow> (('k, 'z) server_state_scheme, unit) prog"
where
  \<comment> \<open>a thread is chosen, the process resumed in some way, and waited for\<close>
  "run_by H K m = seq_p (set_desired_inferior False) (seq_p m (wait_and_reply H (darwin_ops K)))"

context running_program
begin

lemma runs:
  assumes "p_pid pi = w_pid W" and "p_thread pi = w_thread W"
    and "w_run W step sg v before = Some (signo, v', after)"
  shows "runs_to K regs fregs (\<lambda>k. (mem k (w_task W), maps k (w_task W))) pi (w_task W) step sg
    (before, v, m) signo (w_thread W) (after, v', m)"
  unfolding runs_to_def
proof (intro allI impI)
  fix k1 ret k2
  assume "(ppc_image (regs k1 (p_thread pi)) (fregs k1 (p_thread pi)), mem k1 (w_task W), maps k1 (w_task W)) =
      (before, v, m)"
    and k2: "k_ptrace K (if step then PT_STEP else PT_CONTINUE) (p_pid pi) 1 (word_of_int sg) k1 = (ret, k2)"
  then have "w_run W step sg (mem k1 (w_task W)) (ppc_image (regs k1 (w_thread W)) (fregs k1 (w_thread W))) =
      Some (signo, v', after)" "maps k1 (w_task W) = m"
    using assms by auto
  from program_runs [OF this(1) k2 [unfolded assms(1)]] this(2) assms(1)
  show "\<exists>k3 k4 ts. wait_loop K (p_pid pi) k2 = Some (WaitDone (WStopped signo), k3)
      \<and> k_task_threads K (w_task W) k3 = (Some (w_thread W # ts), k4)
      \<and> (ppc_image (regs k4 (w_thread W)) (fregs k4 (w_thread W)), mem k4 (w_task W), maps k4 (w_task W)) =
        (after, v', m)"
    by auto
qed

lemma kcall_watched:
  fixes f :: "('k, 'z) server_state_scheme \<Rightarrow> (int \<Rightarrow> byte) \<times> int set" and task :: nat
  defines "f \<equiv> \<lambda>s. (mem (kst s) task, maps (kst s) task)"
  shows "preserves f (kcall (k_get_state K th))" "preserves f (kcall (k_get_float K th))"
    "preserves f (darwin_store_registers K r)"
proof -
  show g: "preserves f (kcall (k_get_state K th))" "preserves f (kcall (k_get_float K th))" for th
    by (simp_all add: f_def preserves_def kcall_def register_calls_apart split_beta)
  show "preserves f (darwin_store_registers K r)"
    by (rule preserves_store_calls)
      (simp_all add: g, simp_all add: f_def preserves_def kcall_def register_calls_apart split_beta)
qed

lemma represents_traps:
  assumes "represents mem maps regs fregs W s c"
  shows "with_traps (cl_bps c) (cl_mem c) = mem (kst s) (w_task W)"
proof -
  have s: "current_task s = w_task W" "breakpoint_data s = Some (be32 ppc_breakpoint)" "breakpoint_len s = 4"
      "list_all (\<lambda>b. \<not> reinserting b) (breakpoints s)" "cl_bps c = map bp_pc (breakpoints s)"
      "cl_mem c = client_view mem s" "serves_memory mem maps s"
    using assms by (simp_all add: represents_def)
  have ok: "bps_ok 4 (be32 ppc_breakpoint) (bp_brk s) (task_mem mem s) (task_maps maps s) (breakpoints s)"
    using s by (simp add: serves_memory_def breakpoints_ok_def bp_ok_def)
  show ?thesis
    using planted_view [OF ok s(4)] s(1,3,5,6) by (simp add: task_mem_def client_view_def shadow_def)
qed

lemma runs_from:
  assumes rep: "represents mem maps regs fregs W s c" and well: "runs_well W step sg c"
    and pi: "p_pid pi = w_pid W" "p_thread pi = w_thread W" and c: "cl_regs c = thread_regs regs fregs s pi rc"
  obtains signo v' after where
    "w_run W step sg (with_traps (cl_bps c) (cl_mem c)) (cl_regs c) = Some (signo, v', after)"
    and "runs_to K regs fregs (\<lambda>k. (mem k (w_task W), maps k (w_task W))) pi (current_task s) step sg
      (thread_regs regs fregs s pi rc, mem (kst s) (w_task W), maps (kst s) (w_task W)) signo (w_thread W)
      (after, v', maps (kst s) (w_task W))"
    and "has_number W signo"
proof -
  have task: "current_task s = w_task W" using rep by (simp add: represents_def)
  from well obtain signo v' after where
    r: "w_run W step sg (with_traps (cl_bps c) (cl_mem c)) (cl_regs c) = Some (signo, v', after)" "has_number W signo"
    by (auto simp: runs_well_def split: option.splits)
  with that runs [OF pi r(1) [unfolded represents_traps [OF rep]]] c task show thesis by simp
qed

lemma represents_after_run:
  assumes rep: "represents mem maps regs fregs W s c" and well: "runs_well W step sg c"
    and run: "w_run W step sg (with_traps (cl_bps c) (cl_mem c)) (cl_regs c) = Some (signo, v', after)"
    and u: "session_ready u a p pi rc" "current_inferior u = Some a" "p_pid pi = w_pid W" "p_thread pi = w_thread W"
      "thread_regs regs fregs u pi rc = after"
      "(mem (kst u) (w_task W), maps (kst u) (w_task W)) = (v', maps (kst s) (w_task W))"
      "kept_by_run u = kept_by_run s" "status u = CHR ''T''" "sig u = signo" "kernel_regs regs fregs W (kst u) = after"
  shows "represents mem maps regs fregs W u ((snd (run_program W step sg c))\<lparr>cl_fetched := registers_valid rc\<rparr>)"
proof -
  have s: "current_task s = w_task W" "breakpoint_data s = Some (be32 ppc_breakpoint)" "breakpoint_len s = 4"
      "list_all (\<lambda>b. \<not> reinserting b) (breakpoints s)" "cl_bps c = map bp_pc (breakpoints s)"
      "cl_mem c = client_view mem s" "cl_maps c = task_maps maps s" "w_task W \<noteq> MACH_PORT_NULL" "0 < w_pid W"
      "serves_memory mem maps s"
    using rep by (simp_all add: represents_def)
  have ok: "bps_ok 4 (be32 ppc_breakpoint) (bp_brk s) (task_mem mem s) (task_maps maps s) (breakpoints s)"
    using s by (simp add: serves_memory_def breakpoints_ok_def bp_ok_def)
  have view: "cl_mem c = shadow_of 4 (breakpoints s) (task_mem mem s)" using s(3,6) by (simp add: client_view_def shadow_def)
  have r: "list_all (\<lambda>b. mem_bytes v' b 4 = be32 ppc_breakpoint) (cl_bps c)"
    using well by (simp add: runs_well_def run)
  have f: "current_task u = w_task W" "breakpoints u = breakpoints s" "bp_brk u = bp_brk s"
      "breakpoint_data u = breakpoint_data s" "breakpoint_len u = breakpoint_len s" "mem_buf u = mem_buf s"
    using u(7) s(1) by (simp_all add: kept_by_run_def)
  have g: "thread_ptr u = None" "\<not> extended_protocol u" "signal_pid u = w_pid W" "attached u = cl_attached c"
    using u(7) rep by (simp_all add: kept_by_run_def represents_def)
  have maps_u: "task_maps maps u = task_maps maps s" using u(6) f(1) s(1) by (simp add: task_maps_def)
  have mem_u: "task_mem mem u = v'" using u(6) f(1) by (simp add: task_mem_def)
  note after_run = breakpoints_after_run [OF ok s(4) r [unfolded s(5)]]
  have res: "run_program W step sg c = (stop_text (signal_number W signo) after (w_pid W),
      c\<lparr>cl_mem := (\<lambda>x. if trapped (cl_bps c) x then cl_mem c x else v' x), cl_regs := after,
        cl_fetched := True, cl_stored := True, cl_signo := signo\<rparr>)"
    by (simp add: run_program_def run)
  have rdy: "ready_thread regs fregs W u after (registers_valid rc)"
    using session_ready_thread [OF u(1-4), of regs fregs] u(5) by simp
  have "serves_memory mem maps u"
  proof -
    have "length (own_buf u) = PBUFSIZ u" "reg_defs u = regs_ppc" "register_bytes u = 412"
      using u(1) by (simp_all add: session_ready_def resume_ready_def ppc_cache_def)
    moreover have "breakpoints_ok mem maps u"
      using after_run(1) f s(2,3) maps_u mem_u by (simp add: breakpoints_ok_def bp_ok_def)
    ultimately show ?thesis
      using s(10) f(6) by (simp add: serves_memory_def PBUFSIZ_def registers_length_def)
  qed
  moreover have "client_view mem u = (\<lambda>x. if trapped (cl_bps c) x then cl_mem c x else v' x)"
    using after_run(2) f s(3,5) mem_u view by (simp add: client_view_def shadow_def cong: if_cong)
  moreover have "using_threads u" "gdbserver_expedite_regs u = expedite_regs_ppc"
    using u(1) by (simp_all add: session_ready_def)
  ultimately show ?thesis
    using f g s(2-5,7-9) maps_u rdy u(8-10) unfolding represents_def res by simp
qed

lemma resume_served:
  assumes rep: "represents mem maps regs fregs W s c" and well: "runs_well W step sg c"
    and m: "resumes_as K m step sg (w_pid W) s"
  shows "simulates mem maps regs fregs W
    (seq_p (set_desired_inferior False) (seq_p m (wait_and_reply (w_host W) (darwin_ops K)))) () s (run_program W step sg c)"
proof -
  let ?h = "seq_p (set_desired_inferior False) (seq_p m (wait_and_reply (w_host W) (darwin_ops K)))"
  obtain a p pi rc where ready: "session_ready s a p pi rc" and cur: "current_inferior s = Some a" and pi: "p_pid pi = w_pid W" "p_thread pi = w_thread W"
    and c: "cl_regs c = thread_regs regs fregs s pi rc"
    using represents_session [OF rep] by metis
  obtain signo v' after where
    r: "w_run W step sg (with_traps (cl_bps c) (cl_mem c)) (cl_regs c) = Some (signo, v', after)"
    and rt: "runs_to K regs fregs (\<lambda>k. (mem k (w_task W), maps k (w_task W))) pi (current_task s) step sg
      (thread_regs regs fregs s pi rc, mem (kst s) (w_task W), maps (kst s) (w_task W)) signo (w_thread W)
      (after, v', maps (kst s) (w_task W))"
    and num: "has_number W signo"
    using runs_from [OF rep well pi c] by blast
  have "resumes_as K m step sg (p_pid pi) (s\<lparr>current_inferior := Some a\<rparr>)" using m pi(1) same_inferior [OF cur] by simp
  note run = run_reports [OF ready this, where watch = "\<lambda>k. (mem k (w_task W), maps k (w_task W))"]
  let ?pi = "pi\<lparr>p_thread := w_thread W, p_stopped := True\<rparr>"
  obtain u where
    u: "?h s = (Ret (), u)"
      "cstr (own_buf u) 0 = stop_text (signal_number W signo) after (p_pid pi)"
      "session_ready u a p ?pi (valid_cache after)" "connection_of u = (net s, no_ack_mode s, CHR ''T'')"
      "(mem (kst u) (w_task W), maps (kst u) (w_task W)) = (v', maps (kst s) (w_task W))"
      "kept_by_run u = kept_by_run s" "current_inferior u = Some a" "sig u = signo"
      "kernel_regs regs fregs W (kst u) = after" unfolding kernel_regs_def
    using run [OF rt kcall_watched(3,1,2) has_numberD [OF num]] by blast
  have "status u = CHR ''T''" using u(4) by (simp add: connection_of_def)
  have eq: "(snd (run_program W step sg c))\<lparr>cl_fetched := True\<rparr> = snd (run_program W step sg c)"
    and reported: "fst (run_program W step sg c) = stop_text (signal_number W signo) after (w_pid W)"
    by (simp_all add: run_program_def r)
  have "thread_regs regs fregs u ?pi (valid_cache after) = after" by simp
  from represents_after_run [OF rep well r u(3,7) _ _ this u(5,6) \<open>status u = CHR ''T''\<close> u(8,9)] pi
  have "represents mem maps regs fregs W u (snd (run_program W step sg c))" by (simp add: eq)
  moreover have "connection_of u = connection_of s" using u(4) rep by (simp add: connection_of_def represents_def)
  ultimately show ?thesis using u(1,2) pi(1) reported by (simp add: simulates_def)
qed

lemma select_actions:
  assumes "0 < w_pid W"
  shows "select_resume (w_pid W) (map (\<lambda>(a, tid). action_resume (w_host W) (int tid) a) acts
    @ (case d of None \<Rightarrow> vcont_default | Some a \<Rightarrow> action_resume (w_host W) (- 1) a) # rest) =
    Ret (case chosen_action W acts d of None \<Rightarrow> (False, 0) | Some r \<Rightarrow> r)"
  by (induction acts) (auto simp: action_resume_def vcont_default_def split: option.splits)

lemma actions_dispatched:
  assumes rep: "represents mem maps regs fregs W s c" and ok: "well_formed W (Resume_actions acts d)"
    and p: "cstr (own_buf s) 0 = packet_of (Resume_actions acts d)"
    and ch: "(case chosen_action W acts d of None \<Rightarrow> (False, 0) | Some r \<Rightarrow> r) = (step, sg)"
  shows "\<exists>m n. handle_packet K (w_host W) (darwin_ops K) argv s =
      seq_p (run_by (w_host W) K m) (return_p False) (s\<lparr>cont_thread := n\<rparr>)
    \<and> resumes_as K m step sg (w_pid W) (s\<lparr>cont_thread := n\<rparr>)"
proof -
  let ?cont = "\<lambda>info. if vcont_count (vcont_text acts d) = 1 \<and> tr_thread (info ! 0) \<noteq> - 1 then tr_thread (info ! 0) else - 1"
  have ok': "\<forall>(a, tid) \<in> set acts. action_ok (w_host W) a \<and> tid < 2 ^ 31" "\<And>a. d = Some a \<Longrightarrow> action_ok (w_host W) a"
      "acts \<noteq> [] \<or> d \<noteq> None"
    using ok by (auto simp: well_formed_def split: option.splits)
  from vcont_parse_text [OF this] obtain rest where parse: "vcont_parse (w_host W) (vcont_text acts d) = Ret (Some
      (map (\<lambda>(a, tid). action_resume (w_host W) (int tid) a) acts
        @ (case d of None \<Rightarrow> vcont_default | Some a \<Rightarrow> action_resume (w_host W) (- 1) a) # rest))" by blast
  then obtain info where info: "vcont_parse (w_host W) (vcont_text acts d) = Ret (Some info)"
      "select_resume (w_pid W) info = Ret (step, sg)"
    using select_actions [of acts d rest] rep ch by (auto simp: represents_def)
  obtain str where "vcont_text acts d = CHR '';'' # str"
    using ok'(3) by (cases acts) (auto simp: vcont_text_def split: option.splits)
  then have "starts_with ''vCont;'' (cstr (own_buf s) 0)" by (simp add: p starts_with_def)
  moreover have "cstr (own_buf s) 5 = vcont_text acts d"
    using cstr_behind [of "own_buf s" "''vCont''"] p by (simp add: eval_nat_numeral)
  ultimately have "handle_v_requests (w_host W) (darwin_ops K) s =
      run_by (w_host W) K (darwin_resume K info) (s\<lparr>cont_thread := ?cont info\<rparr>)"
    using info(1) by (simp add: handle_v_requests_def handle_v_cont_def prog_simps run_by_def)
  moreover have "handle_packet K (w_host W) (darwin_ops K) argv s =
      seq_p (handle_v_requests (w_host W) (darwin_ops K)) (return_p False) s"
    using p by (simp add: handle_packet_def prog_simps)
  ultimately have "handle_packet K (w_host W) (darwin_ops K) argv s =
      seq_p (run_by (w_host W) K (darwin_resume K info)) (return_p False) (s\<lparr>cont_thread := ?cont info\<rparr>)"
    by (simp only: seq_p_def bind_p_def)
  moreover have "resumes_as K (darwin_resume K info) step sg (w_pid W) (s\<lparr>cont_thread := ?cont info\<rparr>)"
    using info(2) by (auto simp: resumes_as_def)
  ultimately show ?thesis by blast
qed

lemma resumption_dispatched:
  fixes s :: "('k, 'z) server_state_scheme"
  assumes rep: "represents mem maps regs fregs W s c" and r: "resumption W r = Some (step, sg)" "well_formed W r"
    and p: "cstr (own_buf s) 0 = packet_of r"
  obtains m s' where "handle_packet K (w_host W) (darwin_ops K) argv s = seq_p (run_by (w_host W) K m) (return_p False) s'"
    and "resumes_as K m step sg (w_pid W) s'" and "represents mem maps regs fregs W s' c"
    and "connection_of s' = connection_of s"
proof -
  note run = handle_packet_def prog_simps
  obtain a q pi rc where ready: "session_ready s a q pi rc" and "current_inferior s = Some a" "p_pid pi = w_pid W"
    using represents_session [OF rep] by metis
  with myresume_as [OF ready, of K step sg] have my: "resumes_as K (myresume (darwin_ops K) step sg) step sg (w_pid W) s"
    by (simp add: same_inferior)
  have raw: "resume_and_wait (w_host W) (darwin_ops K) step sg =
      (run_by (w_host W) K (myresume (darwin_ops K) step sg) :: (('k, 'z) server_state_scheme, unit) prog)"
    by (simp add: run_by_def resume_and_wait_def)
  consider "r = Resume step" "sg = 0" | b where "r = Resume_signal step b" "sg = signal_of W b"
    | acts d where "r = Resume_actions acts d" "chosen_action W acts d = Some (step, sg)"
    using r(1) by (cases r) (auto simp: resumption_def)
  then show thesis
  proof cases
    case 1
    with p have "handle_packet K (w_host W) (darwin_ops K) argv s =
        seq_p (resume_and_wait (w_host W) (darwin_ops K) step sg) (return_p False) s"
      by (cases step) (simp_all add: run)
    from that [OF this [unfolded raw] my rep refl] show thesis .
  next
    case 2
    have sg: "parse_signal_byte (w_host W) (hex_byte b) = Ret (word_of_int (signal_of W b))"
      using convert_ascii_to_int_hex [of "[b]" "[]"] by (simp add: parse_signal_byte_def signal_of_def)
    have u: "uint (word_of_int (signal_of W b) :: byte) = signal_of W b" by (simp add: signal_of_def)
    have "handle_CS_signal (w_host W) (darwin_ops K) step s =
        resume_and_wait (w_host W) (darwin_ops K) step (signal_of W b) s"
      using p 2 sg u by (simp add: handle_CS_signal_def prog_simps split: if_splits)
    with 2 p have "handle_packet K (w_host W) (darwin_ops K) argv s =
        seq_p (resume_and_wait (w_host W) (darwin_ops K) step sg) (return_p False) s"
      by (cases step) (simp_all add: run bind_p_def seq_p_def)
    from that [OF this [unfolded raw] my rep refl] show thesis .
  next
    case 3
    with actions_dispatched [OF rep, of acts d step sg argv] r(2) p obtain m n where
      "handle_packet K (w_host W) (darwin_ops K) argv s =
        seq_p (run_by (w_host W) K m) (return_p False) (s\<lparr>cont_thread := n\<rparr>)"
      "resumes_as K m step sg (w_pid W) (s\<lparr>cont_thread := n\<rparr>)" by auto
    with that [OF _ _ represents_modes(5) [OF rep]] show thesis by (simp add: connection_of_def)
  qed
qed

lemma run_simulated:
  assumes "handle_packet K (w_host W) (darwin_ops K) argv s = seq_p (run_by (w_host W) K m) (return_p False) s'"
    and "resumes_as K m step sg (w_pid W) s'" and "represents mem maps regs fregs W s' c"
    and "connection_of s' = connection_of s" and "runs_well W step sg c"
  shows "simulates mem maps regs fregs W (handle_packet K (w_host W) (darwin_ops K) argv) False s (run_program W step sg c)"
  using resume_served [OF assms(3,5,2)] assms(1,4) unfolding run_by_def [symmetric]
  by (auto simp: simulates_def prog_simps)

lemma running_served:
  assumes rep: "represents mem maps regs fregs W s c" and r: "resumption W r = Some (step, sg)"
    and ac: "acceptable W r c" and p: "cstr (own_buf s) 0 = packet_of r"
  shows "simulates mem maps regs fregs W (handle_packet K (w_host W) (darwin_ops K) argv) False s (serve W r c)"
proof -
  have well: "well_formed W r" "runs_well W step sg c" and serve: "serve W r c = run_program W step sg c"
    using served_by_running [OF r, of c] ac by simp_all
  from resumption_dispatched [OF rep r well(1) p, of argv] obtain m s' where
    m: "handle_packet K (w_host W) (darwin_ops K) argv s = seq_p (run_by (w_host W) K m) (return_p False) s'"
      "resumes_as K m step sg (w_pid W) s'" "represents mem maps regs fregs W s' c" "connection_of s' = connection_of s"
    by blast
  from run_simulated [OF this well(2)] show ?thesis unfolding serve .
qed

end

subsection \<open>Every request\<close>

context running_program
begin

lemma represents_debugs:
  assumes "represents mem maps regs fregs W s c"
  shows "debugs (w_pid W) (w_task W) s"
proof -
  obtain a p pi rc where "session_ready s a p pi rc" "current_inferior s = Some a" "p_pid pi = w_pid W"
    using represents_session [OF assms] by metis
  then show ?thesis
    using assms by (auto simp: debugs_def represents_def session_ready_def resume_ready_def same_inferior)
qed

lemma outside_served:
  assumes rep: "represents mem maps regs fregs W s c" and p: "cstr (own_buf s) 0 = packet_of r"
  shows "r = Read_memory a n \<Longrightarrow> outside (cl_maps c) (int a) n \<Longrightarrow> n < 998 \<Longrightarrow>
      simulates mem maps regs fregs W (handle_m_read_mem (darwin_ops K)) () s (serve W r c)"
    and "r = Write_memory a bs \<Longrightarrow> outside (cl_maps c) (int a) (length bs) \<Longrightarrow> length bs \<le> 2000 \<Longrightarrow>
      simulates mem maps regs fregs W (handle_M_write_mem (darwin_ops K)) () s (serve W r c)"
proof -
  have s: "serves_memory mem maps s" "cl_maps c = task_maps maps s" "cl_mem c = client_view mem s"
      "cl_bps c = map bp_pc (breakpoints s)" "list_all (\<lambda>b. \<not> reinserting b) (breakpoints s)"
    using rep by (simp_all add: represents_def)
  note d = represents_debugs [OF rep]
  have same: "c = c\<lparr>cl_mem := client_view mem s, cl_bps := map bp_pc (breakpoints s)\<rparr>" using s(3,4) by simp
  show "simulates mem maps regs fregs W (handle_m_read_mem (darwin_ops K)) () s (serve W r c)"
    if r: "r = Read_memory a n" and o: "outside (cl_maps c) (int a) n" and n: "n < 998"
  proof -
    from m_outside [OF s(1) d _ o [unfolded s(2)]] p r n obtain t where
      t: "handle_m_read_mem (darwin_ops K) s = (Ret (), t)" "cstr (own_buf t) 0 = hex_bytes (replicate n 0)"
        "serves_memory mem maps t" "client_view mem t = client_view mem s" "task_maps maps t = task_maps maps s"
        "breakpoints t = breakpoints s" "breakpoint_len t = breakpoint_len s" "breakpoint_data t = breakpoint_data s"
      by auto
    have "c = c\<lparr>cl_mem := client_view mem t, cl_bps := map bp_pc (breakpoints t)\<rparr>" using same t(4,6) by simp
    from memory_served [OF rep t(1) registers_beside.handlers(1) t(3,7,5,8) _ this] s(5) t(6)
    show ?thesis using t(1,2) r outside_not_in_mem [OF o] by (auto simp: simulates_def)
  qed
  show "simulates mem maps regs fregs W (handle_M_write_mem (darwin_ops K)) () s (serve W r c)"
    if r: "r = Write_memory a bs" and o: "outside (cl_maps c) (int a) (length bs)" and n: "length bs \<le> 2000"
  proof -
    from M_outside [OF s(1) d _ o [unfolded s(2)] n] p r obtain t where
      t: "handle_M_write_mem (darwin_ops K) s = (Ret (), t)" "cstr (own_buf t) 0 = ''E01''"
        "serves_memory mem maps t" "client_view mem t = client_view mem s" "task_maps maps t = task_maps maps s"
        "breakpoints t = breakpoints s" "breakpoint_len t = breakpoint_len s" "breakpoint_data t = breakpoint_data s"
      by auto
    have "c = c\<lparr>cl_mem := client_view mem t, cl_bps := map bp_pc (breakpoints t)\<rparr>" using same t(4,6) by simp
    from memory_served [OF rep t(1) registers_beside.handlers(2) t(3,7,5,8) _ this] s(5) t(6)
    show ?thesis using t(1,2) r outside_not_in_mem [OF o] by (auto simp: simulates_def)
  qed
qed

lemma alive_served:
  assumes rep: "represents mem maps regs fregs W s c" and p: "cstr (own_buf s) 0 = packet_of (Ask_alive tid)"
    and ac: "acceptable W (Ask_alive tid) c"
  shows "simulates mem maps regs fregs W (handle_T_thread_alive (darwin_ops K)) () s (serve W (Ask_alive tid) c)"
proof -
  have "cl_maps c = maps (kst s) (w_task W)" using rep by (simp add: represents_def task_maps_def)
  then have "k_kill K (w_pid W) 0 (kst s) = (True, kst s)" using program_exists ac by simp
  moreover have "fst (strtol 16 (hex_digits tid)) = w_pid W"
    using ac strtol_hex [of "[]" tid] by (simp add: no_digit_start_def LONG_MAX_def)
  ultimately have "handle_T_thread_alive (darwin_ops K) s = reply ''OK'' s"
    using p by (simp add: handle_T_thread_alive_def darwin_ops_def darwin_thread_alive_def prog_simps kcall_def write_ok_def)
  from text_served [where h = "handle_T_thread_alive (darwin_ops K)", OF rep refl this] show ?thesis by (simp add: NUL_def)
qed

lemma request_served:
  assumes rep: "represents mem maps regs fregs W s c" and ac: "acceptable W r c"
    and p: "cstr (own_buf s) 0 = packet_of r"
  shows "simulates mem maps regs fregs W (handle_packet K (w_host W) (darwin_ops K) argv) False s (serve W r c)"
proof -
  have via: "simulates mem maps regs fregs W (handle_packet K (w_host W) (darwin_ops K) argv) False s (serve W r c)"
    if "simulates mem maps regs fregs W h () s (serve W r c)"
      and "handle_packet K (w_host W) (darwin_ops K) argv s = seq_p h (return_p False) s" for h
    using that by (auto simp: simulates_def prog_simps)
  note run = handle_packet_def prog_simps
  show ?thesis
  proof (cases r)
    case (Read_memory a n)
    have "simulates mem maps regs fregs W (handle_m_read_mem (darwin_ops K)) () s (serve W r c)"
      using outside_served(1) [OF rep p Read_memory] read_memory_served [OF rep, of a n] ac p Read_memory by auto
    with via p Read_memory show ?thesis by (simp add: run m_packet_def)
  next
    case (Write_memory a bs)
    have "length bs \<le> 2000" using ac Write_memory by (simp add: M_packet_def)
    then have "simulates mem maps regs fregs W (handle_M_write_mem (darwin_ops K)) () s (serve W r c)"
      using outside_served(2) [OF rep p Write_memory] write_memory_served [OF rep, of a bs] ac p Write_memory by auto
    with via p Write_memory show ?thesis by (simp add: run M_packet_def)
  next
    case (Insert_breakpoint a)
    show ?thesis
      by (rule via, unfold Insert_breakpoint, rule insert_breakpoint_served [OF rep])
        (use ac p Insert_breakpoint in \<open>simp_all add: run\<close>)
  next
    case (Remove_breakpoint a)
    show ?thesis
      by (rule via, unfold Remove_breakpoint, rule remove_breakpoint_served [OF rep])
        (use ac p Remove_breakpoint in \<open>simp_all add: run\<close>)
  next
    case Read_registers
    from via [OF register_requests_served(1) [OF rep ac p this]] p this show ?thesis by (simp add: run)
  next
    case (Write_registers bs)
    from via [OF register_requests_served(2) [OF rep ac p this]] p this show ?thesis by (simp add: run)
  next
    case (Read_register i)
    from via [OF register_requests_served(3) [OF rep ac p this]] p this show ?thesis by (simp add: run)
  next
    case (Write_register i v)
    from via [OF register_requests_served(4) [OF rep ac p this]] p this show ?thesis by (simp add: run)
  next
    case Ask_stop
    with via [of "handle_question (w_host W) (darwin_ops K)"] ask_stop_served [OF rep] ac p
    show ?thesis by (simp add: run)
  next
    case (Resume step)
    then have "resumption W r = Some (step, 0)" by (simp add: resumption_def)
    from running_served [OF rep this ac p] show ?thesis .
  next
    case (Resume_signal step b)
    then have "resumption W r = Some (step, signal_of W b)" by (simp add: resumption_def)
    from running_served [OF rep this ac p] show ?thesis .
  next
    case (Resume_actions acts d)
    with ac obtain step sg where "resumption W r = Some (step, sg)"
      by (auto simp: resumption_def split: option.splits)
    from running_served [OF rep this ac p] show ?thesis .
  next
    case Ask_actions
    from via [OF settings_served(4) [OF rep p this]] p this show ?thesis by (simp add: run)
  next
    case (Select_thread ch str)
    show ?thesis
      by (rule via, unfold Select_thread, rule select_thread_served [OF rep]) (use ac p Select_thread in \<open>simp_all add: run\<close>)
  next
    case (Ask_alive tid)
    from via [of "handle_T_thread_alive (darwin_ops K)"] alive_served [OF rep, of tid] ac p Ask_alive show ?thesis
      by (simp add: run)
  next
    case Ask_extended
    from via [OF settings_served(2) [OF rep p this]] p this show ?thesis by (simp add: run)
  next
    case (Pass_signals str)
    from via [OF settings_served(1) [OF rep p this]] p this show ?thesis by (simp add: run)
  next
    case (Toggle_debug str)
    from via [OF settings_served(3) [OF rep p this]] p this show ?thesis by (simp add: run)
  next
    case (Unsupported pkt)
    have ext: "\<not> extended_protocol s" using rep by (simp add: represents_def)
    have "simulates mem maps regs fregs W empty_reply () s (serve W r c)" using unsupported_served [OF rep] Unsupported by simp
    with via unsupported_packet [OF _ _ ext, of pkt K "w_host W" argv] ac p Unsupported show ?thesis by simp
  next
    case Ask_process
    from via [OF queries_served [OF rep p, of _]] p this show ?thesis by (simp add: run)
  next
    case (Ask_features str)
    from via [OF queries_served [OF rep p, of str]] p this show ?thesis by (simp add: run)
  next
    case Ask_attached
    from via [OF queries_served [OF rep p, of _]] p this show ?thesis by (simp add: run)
  next
    case Offer_symbols
    from via [OF queries_served [OF rep p, of _]] p this show ?thesis by (simp add: run)
  next
    case First_threads
    from via [OF queries_served [OF rep p, of _]] p this show ?thesis by (simp add: run)
  next
    case More_threads
    from via [OF queries_served [OF rep p, of _]] p this show ?thesis by (simp add: run)
  qed
qed

end

end
