(* ===== verification/Transport.thy ===== *)
theory Transport
  imports Exchange
begin

section \<open>Sessions over a connection\<close>

text \<open>
  What a session needs of the connection, whether packets are acknowledged or not.  \<open>turns\<close>: a turn of the
  packet loop takes the next packet, sends the reply that the handler leaves, and is ready for the packets that
  follow; \<open>heard\<close> and \<open>said\<close> are what goes out for the packet and for the reply.  \<open>transport\<close>: after the last packet
  the loop ends.  Both modes of the protocol provide them.
\<close>

subsection \<open>Chunks that follow\<close>

definition followed :: "rx_event list \<Rightarrow> net \<Rightarrow> net" where
  \<comment> \<open>more chunks behind those that are to be read\<close>
  "followed evs nt = nt\<lparr>rx := rx nt @ evs\<rparr>"

definition chunk :: "rx_event \<Rightarrow> bool" where
  "chunk e \<longleftrightarrow> (case e of Rx_bytes bs \<Rightarrow> bs \<noteq> [] | Rx_error \<Rightarrow> False)"

definition chunks_only :: "net \<Rightarrow> bool" where
  "chunks_only nt \<longleftrightarrow> list_all chunk (rx nt)"

lemma followed_simps [simp]:
  "rx (followed evs nt) = rx nt @ evs" "tx (followed evs nt) = tx nt" "rc_buf (followed evs nt) = rc_buf nt"
  "tx_script (followed evs nt) = tx_script nt"
  by (simp_all add: followed_def)

lemma sock_write_followed [simp]:
  "sock_write d (followed evs nt) = (fst (sock_write d nt), followed evs (snd (sock_write d nt)))"
  by (simp add: sock_write_def followed_def split: list.split)

lemma chunks_only_write [simp]: "chunks_only (snd (sock_write d nt)) = chunks_only nt"
  by (simp add: chunks_only_def)

lemma flat_rx_append: "list_all chunk es \<Longrightarrow> flat_rx (es @ evs) = flat_rx es @ flat_rx evs"
  by (induction es) (auto simp: chunk_def split: rx_event.splits)

lemma chunks_read: "stream nt = [] \<Longrightarrow> chunks_only nt \<Longrightarrow> rc_buf nt = [] \<and> rx nt = []"
  by (cases "rx nt") (auto simp: chunks_only_def chunk_def stream_def split: rx_event.splits)

lemma readchar_followed:
  assumes "readchar nt = (c, nt')" and "0 \<le> c"
  shows "readchar (followed evs nt) = (c, followed evs nt')" and "chunks_only nt \<Longrightarrow> chunks_only nt'"
proof -
  have "readchar (followed evs nt) = (c, followed evs nt') \<and> (chunks_only nt \<longrightarrow> chunks_only nt')"
  proof (cases "rc_buf nt")
    case Nil
    with assms show ?thesis
      by (auto simp: readchar_def sock_read_def chunks_only_def chunk_def followed_def
          split: list.splits rx_event.splits if_splits)
  qed (use assms in \<open>auto simp: readchar_def followed_def chunks_only_def\<close>)
  then show "readchar (followed evs nt) = (c, followed evs nt')" "chunks_only nt \<Longrightarrow> chunks_only nt'" by simp_all
qed

lemma scan_start_followed:
  "scan_start nt = (True, nt') \<Longrightarrow>
     scan_start (followed evs nt) = (True, followed evs nt') \<and> (chunks_only nt \<longrightarrow> chunks_only nt')"
proof (induction nt rule: scan_start.induct)
  case (1 nt)
  obtain c nt1 where r: "readchar nt = (c, nt1)" by fastforce
  have "0 \<le> c" using 1(2) r by (subst (asm) scan_start.simps) (auto split: if_splits)
  note f = readchar_followed [OF r this]
  show ?case
    using 1(1) [OF r [symmetric] refl] 1(2) f(2) r
    by (simp add: scan_start.simps [of nt] scan_start.simps [of "followed evs nt"] f(1) split: if_splits)
qed

lemma read_body_followed:
  "read_body buf pos csum nt = (Body_end n cs, buf', nt') \<Longrightarrow>
     read_body buf pos csum (followed evs nt) = (Body_end n cs, buf', followed evs nt')
     \<and> (chunks_only nt \<longrightarrow> chunks_only nt')"
proof (induction buf pos csum nt rule: read_body.induct)
  case (1 buf pos csum nt)
  obtain c nt1 where r: "readchar nt = (c, nt1)" by fastforce
  have "0 \<le> c" using 1(2) r by (subst (asm) read_body.simps) (auto split: if_splits)
  note f = readchar_followed [OF r this]
  show ?case
    using 1(1) [OF r [symmetric] refl] 1(2) f(2) r
    by (simp add: read_body.simps [of buf pos csum nt] read_body.simps [of buf pos csum "followed evs nt"] f(1)
        split: if_splits)
qed

lemma fromhex_nonneg: "fromhex c = Ret n \<Longrightarrow> 0 \<le> c"
  by (auto simp: fromhex_def split: if_splits)

lemma getpkt_loop_followed:
  "getpkt_loop buf nt = (Ret n, buf', nt') \<Longrightarrow> 0 \<le> n \<Longrightarrow>
     getpkt_loop buf (followed evs nt) = (Ret n, buf', followed evs nt') \<and> (chunks_only nt \<longrightarrow> chunks_only nt')"
proof (induction buf nt rule: getpkt_loop.induct)
  case (1 buf nt)
  obtain ok nt1 where s: "scan_start nt = (ok, nt1)" by fastforce
  obtain bd buf1 nt2 where b: "read_body buf 0 0 nt1 = (bd, buf1, nt2)" by (metis prod_cases3)
  obtain d1 nt3 where c1: "readchar nt2 = (d1, nt3)" by fastforce
  obtain d2 nt4 where c2: "readchar nt3 = (d2, nt4)" by fastforce
  note unfolds = getpkt_loop.simps [of buf nt] getpkt_loop.simps [of buf "followed evs nt"]
  have ok: ok using 1(2,3) s by (simp add: unfolds split: bool.splits)
  obtain k csum where bd: "bd = Body_end k csum" "k < length buf1"
    using 1(2,3) s ok b by (cases bd) (auto simp: unfolds split: if_splits)
  obtain h1 h2 where h: "fromhex d1 = Ret h1" "fromhex d2 = Ret h2"
    using 1(2,3) s ok b bd c1 c2 by (auto simp: unfolds Let_def split: outcome.splits)
  have s': "scan_start nt = (True, nt1)" and b': "read_body buf 0 0 nt1 = (Body_end k csum, buf1, nt2)"
    using s ok b bd(1) by simp_all
  note fs = scan_start_followed [OF s', of evs] and fb = read_body_followed [OF b', of evs]
  note f1 = readchar_followed [OF c1 fromhex_nonneg [OF h(1)]]
  note f2 = readchar_followed [OF c2 fromhex_nonneg [OF h(2)]]
  note run = s' b' bd(2) c1 c2 h fs fb f1(1) f2(1)
  show ?case
  proof (cases "uint csum = h1 * 16 + h2")
    case True
    with 1(2,3) run f1(2) f2(2) show ?thesis by (auto simp: unfolds)
  next
    case False
    have f: "ok = True" "\<not> length buf1 \<le> k" using ok bd(2) by simp_all
    note IH = 1(1) [OF s [symmetric] f(1) b [symmetric] bd(1) refl f(2) refl refl c1 [symmetric] h(1) refl
      c2 [symmetric] h(2) False]
    with False 1(2,3) run f1(2) f2(2) show ?thesis by (auto simp: unfolds)
  qed
qed

subsection \<open>The interface\<close>

definition handled ::
  "'k kernel \<Rightarrow> host_signals \<Rightarrow> ('k, 'z) server_state_scheme target_ops \<Rightarrow> string list \<Rightarrow> string \<Rightarrow> string \<Rightarrow>
     (('k, 'z) server_state_scheme \<Rightarrow> bool) \<Rightarrow> ('k, 'z) server_state_scheme \<Rightarrow> bool" where
  \<comment> \<open>the packet's handler leaves the reply \<open>r\<close> in a state with \<open>P\<close> and the connection alone\<close>
  "handled K H T argv pkt r P s \<longleftrightarrow> (\<forall>b nt. length b = length (own_buf s) \<longrightarrow> cstr b 0 = pkt \<longrightarrow>
     (\<exists>t. handle_packet K H T argv (s\<lparr>own_buf := b, net := nt\<rparr>) = (Ret False, t) \<and> P t \<and> net t = nt
       \<and> no_ack_mode t = no_ack_mode s \<and> length (own_buf t) = length (own_buf s)
       \<and> cstr (own_buf t) 0 = r \<and> status t \<noteq> CHR ''W'' \<and> status t \<noteq> CHR ''X''
       \<and> length r + 5 \<le> PBUFSIZ t))"

definition sends_reply ::
  "(('k, 'z) server_state_scheme \<Rightarrow> bool) \<Rightarrow> (string \<Rightarrow> string) \<Rightarrow> ('k, 'z) server_state_scheme \<Rightarrow> net \<Rightarrow> bool" where
  \<comment> \<open>with this connection, any reply in the buffer that fits a packet is sent, and what is to hold then
    holds\<close>
  "sends_reply after said s nt \<longleftrightarrow> (\<forall>T t. net t = nt \<longrightarrow> no_ack_mode t = no_ack_mode s \<longrightarrow>
     length (own_buf t) = length (own_buf s) \<longrightarrow> length (cstr (own_buf t) 0) + 5 \<le> PBUFSIZ t \<longrightarrow>
     (\<exists>nt'. putpkt T t = (Ret 1, t\<lparr>net := nt'\<rparr>) \<and> after (t\<lparr>net := nt'\<rparr>) \<and> tx nt' = tx nt @ said (cstr (own_buf t) 0)))"

locale turns =
  fixes waiting :: "('d \<times> string) list \<Rightarrow> ('k, 'z) server_state_scheme \<Rightarrow> bool"
    and heard :: "'d \<Rightarrow> string" and said answer :: "'d \<Rightarrow> string \<Rightarrow> string"
  assumes exchange: "waiting ((d, pkt) # ins) s \<Longrightarrow> payload pkt \<Longrightarrow> length pkt < length (own_buf s) \<Longrightarrow>
      \<exists>b nt. getpkt_own s = (Ret (int (length pkt)), s\<lparr>own_buf := b, net := nt\<rparr>)
        \<and> length b = length (own_buf s) \<and> cstr b 0 = pkt \<and> tx nt = tx (net s) @ heard d
        \<and> sends_reply (waiting ins) (said d) s nt"
    and answer: "answer d r = heard d @ said d r"

locale transport = turns waiting heard said answer
  for waiting :: "('d \<times> string) list \<Rightarrow> ('k, 'z) server_state_scheme \<Rightarrow> bool" and heard said answer +
  assumes last_turn: "waiting [] s \<Longrightarrow>
      \<exists>nt. loop_turn K H T argv s = (Ret False, s\<lparr>net := nt\<rparr>) \<and> tx nt = tx (net s)"

lemma loop_turn_answers:
  assumes "getpkt_own s = (Ret n, s1)" and "0 < n" and "handle_packet K H T argv s1 = (Ret False, t)"
    and "putpkt T t = (Ret m, u)" and "status u \<noteq> CHR ''W''" and "status u \<noteq> CHR ''X''"
  shows "loop_turn K H T argv s = (Ret True, u)"
  using assms by (simp add: loop_turn_def handle_terminated_inferior_def prog_simps)

context turns
begin

lemma next_turn:
  assumes "waiting ((d, pkt) # ins) s" and pkt: "payload pkt" "pkt \<noteq> []" "length pkt < length (own_buf s)"
    and h: "handled K H T argv pkt r P s" and frame: "\<And>t nt. P t \<Longrightarrow> P (t\<lparr>net := nt\<rparr>)"
  shows "\<exists>t. loop_turn K H T argv s = (Ret True, t) \<and> P t \<and> waiting ins t \<and> tx (net t) = tx (net s) @ answer d r"
proof -
  from exchange [OF assms(1) pkt(1,3)] obtain b nt where
    g: "getpkt_own s = (Ret (int (length pkt)), s\<lparr>own_buf := b, net := nt\<rparr>)" "length b = length (own_buf s)"
      "cstr b 0 = pkt" "tx nt = tx (net s) @ heard d" "sends_reply (waiting ins) (said d) s nt" by blast
  from h [unfolded handled_def, rule_format, OF g(2,3)] obtain t where
    t: "handle_packet K H T argv (s\<lparr>own_buf := b, net := nt\<rparr>) = (Ret False, t)" "P t" "net t = nt"
      "no_ack_mode t = no_ack_mode s" "length (own_buf t) = length (own_buf s)" "cstr (own_buf t) 0 = r"
      "status t \<noteq> CHR ''W''" "status t \<noteq> CHR ''X''" "length r + 5 \<le> PBUFSIZ t" by metis
  from g(5) [unfolded sends_reply_def, rule_format, OF t(3-5)] t(6,9) obtain nt' where
    u: "putpkt T t = (Ret 1, t\<lparr>net := nt'\<rparr>)" "waiting ins (t\<lparr>net := nt'\<rparr>)" "tx nt' = tx nt @ said d r" by blast
  have "loop_turn K H T argv s = (Ret True, t\<lparr>net := nt'\<rparr>)"
    by (rule loop_turn_answers [OF g(1) _ t(1) u(1)]) (use t(7,8) pkt(2) in simp_all)
  with u(2,3) g(4) frame [OF t(2)] show ?thesis by (auto simp: answer)
qed

end

lemma scan_start_end:
  assumes "CHR ''$'' \<notin> c7 ` set (stream nt)"
  shows "\<exists>nt'. scan_start nt = (False, nt') \<and> same_out nt nt'"
  using assms
proof (induction "stream nt" arbitrary: nt)
  case Nil
  from readchar_end [OF Nil(1) [symmetric]] show ?case by (auto simp: scan_start.simps [of nt])
next
  case (Cons c cs)
  from readchar_stream [OF Cons.hyps(2) [symmetric]] obtain nt1 where
    r: "readchar nt = (of_char (c7 c), nt1)" "stream nt1 = cs" "same_out nt nt1" by blast
  have st: "stream nt = c # cs" using Cons.hyps(2) by simp
  have "c7 c \<noteq> CHR ''$''" using Cons.prems unfolding st by auto
  with r(1) have "scan_start nt = scan_start nt1" by (simp add: scan_start.simps [of nt] of_char_dollar)
  moreover have "CHR ''$'' \<notin> c7 ` set (stream nt1)" using Cons.prems unfolding st r(2) by simp
  ultimately show ?case using Cons.hyps(1) [OF r(2) [symmetric]] r(3) same_out_trans by fastforce
qed

lemma turn_at_end:
  assumes "CHR ''$'' \<notin> c7 ` set (stream (net s))"
  shows "\<exists>nt. loop_turn K H T argv s = (Ret False, s\<lparr>net := nt\<rparr>) \<and> tx nt = tx (net s)"
proof -
  obtain nt where r: "scan_start (net s) = (False, nt)" "same_out (net s) nt"
    using scan_start_end [OF assms] by blast
  then have "getpkt (no_ack_mode s) (own_buf s) (net s) = (Ret (- 1), own_buf s, nt)"
    by (simp add: getpkt_def getpkt_loop.simps [of "own_buf s"])
  with r(2) show ?thesis
    by (intro exI [of _ nt]) (simp add: loop_turn_def getpkt_own_def prog_simps same_out_def)
qed

subsection \<open>Without acknowledgements\<close>

primrec plain_stream :: "(string \<times> string) list \<Rightarrow> string \<Rightarrow> bool" where
  \<comment> \<open>packets, each after these stray characters, and any stray characters after the last one\<close>
  "plain_stream [] bytes \<longleftrightarrow> stray bytes"
| "plain_stream (i # ins) bytes \<longleftrightarrow> stray (fst i)
     \<and> take (length (fst i @ frame (snd i))) bytes = fst i @ frame (snd i)
     \<and> plain_stream ins (drop (length (fst i @ frame (snd i))) bytes)"

lemma take_eq_append: "take (length p) bs = p \<longleftrightarrow> bs = p @ drop (length p) bs"
  by (metis append_eq_conv_conj)

lemma plain_stream_Cons:
  "plain_stream ((cs, pkt) # ins) bytes \<longleftrightarrow>
     stray cs \<and> (\<exists>rest. bytes = cs @ frame pkt @ rest \<and> plain_stream ins rest)"
  by (simp add: take_eq_append del: length_append) (metis append.assoc append_eq_conv_conj)

lemma plain_stream_concat:
  "plain_stream (map (\<lambda>pkt. (cs, pkt)) pkts) (concat (map (\<lambda>pkt. cs @ frame pkt) pkts) @ cs')"
  if "stray cs" "stray cs'"
  using that by (induction pkts) simp_all

definition plain_input :: "(string \<times> string) list \<Rightarrow> ('k, 'z) server_state_scheme \<Rightarrow> bool" where
  \<comment> \<open>such bytes are on the connection, cut into any chunks\<close>
  "plain_input ins s \<longleftrightarrow> no_ack_mode s \<and> tx_script (net s) = [] \<and> plain_stream ins (stream (net s))"

definition plain_heard :: "string \<Rightarrow> string" where
  \<comment> \<open>no handshake\<close>
  "plain_heard cs = []"

definition plain_said :: "string \<Rightarrow> string \<Rightarrow> string" where
  "plain_said cs r = frame r"

definition plain_answer :: "string \<Rightarrow> string \<Rightarrow> string" where
  "plain_answer cs r = frame r"

interpretation plain: transport plain_input plain_heard plain_said plain_answer
proof (intro transport.intro turns.intro transport_axioms.intro)
  fix cs pkt ins and s :: "('k, 'z) server_state_scheme"
  assume w: "plain_input ((cs, pkt) # ins) s" and pkt: "payload pkt" "length pkt < length (own_buf s)"
  then obtain rest where i: "incoming cs pkt rest s" "plain_stream ins rest"
    by (auto simp: plain_input_def incoming_def plain_stream_Cons simp del: plain_stream.simps)
  from packet_received [OF i(1) pkt] obtain b nt where
    g: "getpkt_own s = (Ret (int (length pkt)), s\<lparr>own_buf := b, net := nt\<rparr>)" "length b = length (own_buf s)"
      "cstr b 0 = pkt" "stream nt = rest" "tx_script nt = []" "tx nt = tx (net s)" .
  have "sends_reply (plain_input ins) (plain_said cs) s nt"
    unfolding sends_reply_def
  proof (intro allI impI)
    fix T :: "('k, 'z) server_state_scheme target_ops" and t :: "('k, 'z) server_state_scheme"
    assume t: "net t = nt" "no_ack_mode t = no_ack_mode s" "length (own_buf t) = length (own_buf s)"
      "length (cstr (own_buf t) 0) + 5 \<le> PBUFSIZ t"
    let ?nt = "nt\<lparr>tx := tx nt @ frame (cstr (own_buf t) 0)\<rparr>"
    have "putpkt T t = (Ret 1, t\<lparr>net := ?nt\<rparr>)" using reply_sent [of t T] t g(5) w by (simp add: plain_input_def)
    moreover have "plain_input ins (t\<lparr>net := ?nt\<rparr>)" using w i(2) g(4,5) t by (simp add: plain_input_def)
    ultimately show "\<exists>nt'. putpkt T t = (Ret 1, t\<lparr>net := nt'\<rparr>) \<and> plain_input ins (t\<lparr>net := nt'\<rparr>)
        \<and> tx nt' = tx nt @ plain_said cs (cstr (own_buf t) 0)"
      by (auto simp: plain_said_def)
  qed
  with g show "\<exists>b nt. getpkt_own s = (Ret (int (length pkt)), s\<lparr>own_buf := b, net := nt\<rparr>)
      \<and> length b = length (own_buf s) \<and> cstr b 0 = pkt \<and> tx nt = tx (net s) @ plain_heard cs
      \<and> sends_reply (plain_input ins) (plain_said cs) s nt"
    by (auto simp: plain_heard_def)
next
  fix cs r show "plain_answer cs r = plain_heard cs @ plain_said cs r"
    by (simp add: plain_answer_def plain_heard_def plain_said_def)
next
  fix K H T argv and s :: "('k, 'z) server_state_scheme"
  assume "plain_input [] s"
  then show "\<exists>nt. loop_turn K H T argv s = (Ret False, s\<lparr>net := nt\<rparr>) \<and> tx nt = tx (net s)"
    by (intro turn_at_end) (simp add: plain_input_def stray_def)
qed

subsection \<open>With acknowledgements\<close>

type_synonym delivery = "sent list \<times> rx_event list \<times> string"

definition acked_script :: "nat \<Rightarrow> (delivery \<times> string) list \<Rightarrow> rx_event list \<Rightarrow> net \<Rightarrow> bool" where
  \<comment> \<open>each packet comes in chunks, after damaged ones that fit a buffer of this size; when the reply has
    gone out the peer sends other characters, each a wish to see it again, and then the acknowledgement;
    after the last acknowledgement the rest comes\<close>
  "acked_script room ins rest nt \<longleftrightarrow> tx_script nt = [] \<and> rc_buf nt = []
     \<and> rx nt = concat (map (\<lambda>((ps, evs, naks), pkt). evs @ [Rx_bytes (naks @ ''+'')]) ins) @ rest
     \<and> list_all (\<lambda>((ps, evs, naks), pkt). list_all chunk evs \<and> flat_rx evs = concat (map raw_frame ps) @ frame pkt
         \<and> list_all (corrupt room) ps \<and> CHR ''+'' \<notin> set naks \<and> CHR 0x03 \<notin> set naks) ins"

definition acked_before ::
  "rx_event list \<Rightarrow> (delivery \<times> string) list \<Rightarrow> ('k, 'z) server_state_scheme \<Rightarrow> bool" where
  "acked_before rest ins s \<longleftrightarrow> \<not> no_ack_mode s \<and> acked_script (length (own_buf s)) ins rest (net s)"

definition acked_input :: "(delivery \<times> string) list \<Rightarrow> ('k, 'z) server_state_scheme \<Rightarrow> bool" where
  "acked_input = acked_before []"

fun acked_heard :: "delivery \<Rightarrow> string" where
  "acked_heard (ps, evs, naks) = replicate (length ps) (CHR ''-'') @ ''+''"

fun acked_said :: "delivery \<Rightarrow> string \<Rightarrow> string" where
  "acked_said (ps, evs, naks) r = concat (replicate (Suc (length naks)) (frame r))"

fun acked_answer :: "delivery \<Rightarrow> string \<Rightarrow> string" where
  "acked_answer (ps, evs, naks) r =
     replicate (length ps) (CHR ''-'') @ ''+'' @ concat (replicate (Suc (length naks)) (frame r))"

lemma putpkt_acked_chunk:
  assumes "rx nt = Rx_bytes (naks @ ''+'') # evs" and "CHR ''+'' \<notin> set naks" and "CHR 0x03 \<notin> set naks"
    and "tx_script nt = []"
  shows "putpkt_loop send False buf2 nt =
    return_p (1, nt\<lparr>tx := tx nt @ concat (replicate (Suc (length naks)) buf2), rx := evs\<rparr>)"
  using assms
proof (induction naks arbitrary: nt)
  case Nil
  then show ?case
    by (simp add: putpkt_loop.simps [of send False buf2 nt] sock_write_all sock_read_def)
next
  case (Cons c naks)
  let ?nt = "nt\<lparr>tx := tx nt @ buf2, rx := Rx_bytes (naks @ ''+'') # evs\<rparr>"
  have "putpkt_loop send False buf2 nt = putpkt_loop send False buf2 ?nt"
    using Cons.prems by (auto simp: putpkt_loop.simps [of send False buf2 nt] sock_write_all sock_read_def)
  also have "\<dots> = return_p (1, ?nt\<lparr>tx := tx ?nt @ concat (replicate (Suc (length naks)) buf2), rx := evs\<rparr>)"
    using Cons.prems by (intro Cons.IH) simp_all
  finally show ?case by simp
qed

lemma getpkt_chunks:
  assumes "rx nt = evs @ more'" and "rc_buf nt = []" and "list_all chunk evs"
    and "flat_rx evs = concat (map raw_frame ps) @ frame pkt" and "list_all (corrupt (length buf)) ps"
    and "payload pkt" and "length pkt < length buf" and "tx_script nt = []"
  shows "\<exists>b. getpkt False buf nt = (Ret (int (length pkt)), b,
      nt\<lparr>rx := more', tx := tx nt @ replicate (length ps) (CHR ''-'') @ ''+''\<rparr>)
    \<and> length b = length buf \<and> cstr b 0 = pkt"
proof -
  let ?nt = "nt\<lparr>rx := evs\<rparr>"
  have "stream ?nt = concat (map raw_frame ps) @ frame pkt @ []" using assms(2,4) by (simp add: stream_def)
  from getpkt_loop_retries [OF this assms(5-7)] assms(8) obtain b nt1 where
    l: "getpkt_loop buf ?nt = (Ret (int (length pkt)), b, nt1)" "stream nt1 = []"
      "tx nt1 = tx nt @ replicate (length ps) (CHR ''-'')" "tx_script nt1 = []" "length b = length buf" "cstr b 0 = pkt"
    by auto
  have f: "getpkt_loop buf (followed more' ?nt) = (Ret (int (length pkt)), b, followed more' nt1)"
    "chunks_only ?nt \<longrightarrow> chunks_only nt1"
    using getpkt_loop_followed [OF l(1), of more'] by simp_all
  have "chunks_only ?nt" using assms(3) by (simp add: chunks_only_def)
  with f(2) chunks_read [OF l(2)] have "rc_buf nt1 = []" "rx nt1 = []" by simp_all
  with l assms(2,8) have "followed more' nt1 = nt\<lparr>rx := more', tx := tx nt @ replicate (length ps) (CHR ''-'')\<rparr>"
    by (simp add: followed_def)
  moreover have "followed more' ?nt = nt" using assms(1) by (simp add: followed_def)
  ultimately show ?thesis
    using f(1) getpkt_of_loop [of buf nt "int (length pkt)" b, where no_ack = False] l(4,5,6) assms(8) by simp
qed

interpretation acked_then: turns "acked_before rest" acked_heard acked_said acked_answer for rest
proof
  fix d pkt ins and s :: "('k, 'z) server_state_scheme"
  assume w: "acked_before rest ((d, pkt) # ins) s" and pkt: "payload pkt" "length pkt < length (own_buf s)"
  obtain ps evs naks where d: "d = (ps, evs, naks)" by (metis prod_cases3)
  let ?rest = "concat (map (\<lambda>((ps, evs, naks), pkt). evs @ [Rx_bytes (naks @ ''+'')]) ins) @ rest"
  let ?acks = "Rx_bytes (naks @ ''+'') # ?rest"
  have i: "rx (net s) = evs @ ?acks" "rc_buf (net s) = []" "tx_script (net s) = []" "\<not> no_ack_mode s"
      "list_all chunk evs" "flat_rx evs = concat (map raw_frame ps) @ frame pkt"
      "list_all (corrupt (length (own_buf s))) ps" "CHR ''+'' \<notin> set naks" "CHR 0x03 \<notin> set naks"
    using w d by (simp_all add: acked_before_def acked_script_def)
  let ?nt = "net s\<lparr>rx := ?acks, tx := tx (net s) @ replicate (length ps) (CHR ''-'') @ ''+''\<rparr>"
  obtain b where b: "getpkt False (own_buf s) (net s) = (Ret (int (length pkt)), b, ?nt)"
      "length b = length (own_buf s)" "cstr b 0 = pkt"
    using getpkt_chunks [OF i(1,2,5-7) pkt i(3)] by blast
  have g: "getpkt_own s = (Ret (int (length pkt)), s\<lparr>own_buf := b, net := ?nt\<rparr>)"
    using b(1) i(4) by (simp add: getpkt_own_def)
  have "sends_reply (acked_before rest ins) (acked_said d) s ?nt"
    unfolding sends_reply_def
  proof (intro allI impI)
    fix T :: "('k, 'z) server_state_scheme target_ops" and t :: "('k, 'z) server_state_scheme"
    assume t: "net t = ?nt" "no_ack_mode t = no_ack_mode s" "length (own_buf t) = length (own_buf s)"
      "length (cstr (own_buf t) 0) + 5 \<le> PBUFSIZ t"
    let ?r = "cstr (own_buf t) 0"
    let ?nt' = "?nt\<lparr>tx := tx ?nt @ concat (replicate (Suc (length naks)) (frame ?r)), rx := ?rest\<rparr>"
    have "putpkt_loop (send_signal T) False (frame ?r) ?nt = return_p (1, ?nt')"
      by (rule putpkt_acked_chunk) (use i in simp_all)
    then have "putpkt T t = (Ret 1, t\<lparr>net := ?nt'\<rparr>)"
      using t i(4) by (simp add: putpkt_def putpkt_string_def packet_eq length_frame prog_simps)
    moreover have "acked_before rest ins (t\<lparr>net := ?nt'\<rparr>)"
      using w i t(2,3) by (simp add: acked_before_def acked_script_def)
    ultimately show "\<exists>nt'. putpkt T t = (Ret 1, t\<lparr>net := nt'\<rparr>) \<and> acked_before rest ins (t\<lparr>net := nt'\<rparr>)
        \<and> tx nt' = tx ?nt @ acked_said d ?r"
      by (intro exI [of _ ?nt']) (simp add: d)
  qed
  with g b(2,3) show "\<exists>b nt. getpkt_own s = (Ret (int (length pkt)), s\<lparr>own_buf := b, net := nt\<rparr>)
      \<and> length b = length (own_buf s) \<and> cstr b 0 = pkt \<and> tx nt = tx (net s) @ acked_heard d
      \<and> sends_reply (acked_before rest ins) (acked_said d) s nt"
    by (intro exI [of _ b] exI [of _ ?nt]) (simp add: d)
next
  fix d r show "acked_answer d r = acked_heard d @ acked_said d r" by (cases d) simp
qed

interpretation acked: transport acked_input acked_heard acked_said acked_answer
proof (intro transport.intro transport_axioms.intro)
  show "turns acked_input acked_heard acked_said acked_answer" unfolding acked_input_def by (rule acked_then.turns_axioms)
  fix K H T argv and s :: "('k, 'z) server_state_scheme"
  assume "acked_input [] s"
  then show "\<exists>nt. loop_turn K H T argv s = (Ret False, s\<lparr>net := nt\<rparr>) \<and> tx nt = tx (net s)"
    by (intro turn_at_end) (simp add: acked_input_def acked_before_def acked_script_def stream_def)
qed

subsection \<open>From one mode to the other\<close>

lemma switch_turn:
  assumes "\<not> no_ack_mode s" and "acked_script (length (own_buf s)) [] (evs @ rest) (net s)" and "list_all chunk evs"
    and "flat_rx evs = concat (map raw_frame ps) @ frame ''QStartNoAckMode''" and "list_all (corrupt (length (own_buf s))) ps"
    and "15 < length (own_buf s)" and "status s = CHR ''T''"
  shows "\<exists>b nt. loop_turn K H T argv s = (Ret True, s\<lparr>own_buf := b, net := nt, no_ack_mode := True\<rparr>)
    \<and> length b = length (own_buf s) \<and> rx nt = rest \<and> rc_buf nt = [] \<and> tx_script nt = []
    \<and> tx nt = tx (net s) @ replicate (length ps) (CHR ''-'') @ ''+'' @ frame ''OK''"
proof -
  let ?pkt = "''QStartNoAckMode''"
  have i: "rx (net s) = evs @ rest" "rc_buf (net s) = []" "tx_script (net s) = []"
    using assms(2) by (simp_all add: acked_script_def)
  let ?nt = "net s\<lparr>rx := rest, tx := tx (net s) @ replicate (length ps) (CHR ''-'') @ ''+''\<rparr>"
  have "payload ?pkt" "length ?pkt < length (own_buf s)" using assms(6) by (simp_all add: payload_def NUL_def)
  from getpkt_chunks [OF i(1,2) assms(3-5) this i(3)] obtain b where
    b: "getpkt False (own_buf s) (net s) = (Ret (int (length ?pkt)), b, ?nt)" "length b = length (own_buf s)"
      "cstr b 0 = ?pkt" by blast
  let ?b = "overwrite b 0 (''OK'' @ [NUL])"
  let ?s = "s\<lparr>own_buf := b, net := ?nt\<rparr>" and ?t = "s\<lparr>own_buf := ?b, net := ?nt, no_ack_mode := True\<rparr>"
  have l: "2 < length b" using b(2) assms(6) by simp
  have h: "handle_packet K H T argv ?s = (Ret False, ?t)"
    using b(3) l by (simp add: handle_packet_def handle_set_def Let_def prog_simps)
  have pk: "putpkt T ?t = (Ret 1, ?t\<lparr>net := ?nt\<lparr>tx := tx ?nt @ frame ''OK''\<rparr>\<rparr>)"
    using i(3) by (simp add: putpkt_def putpkt_string_def packet_eq length_frame putpkt_no_ack prog_simps PBUFSIZ_def)
  have g: "getpkt_own s = (Ret (int (length ?pkt)), ?s)"
    using b(1) assms(1) by (simp add: getpkt_own_def)
  have "loop_turn K H T argv s = (Ret True, ?t\<lparr>net := ?nt\<lparr>tx := tx ?nt @ frame ''OK''\<rparr>\<rparr>)"
    by (rule loop_turn_answers [OF g _ h pk]) (use assms(7) in simp_all)
  with b(2) l i(2,3) show ?thesis
    by (intro exI [of _ ?b] exI [of _ "?nt\<lparr>tx := tx ?nt @ frame ''OK''\<rparr>"]) simp
qed

end
