(* ===== verification/ClientTurns.thy ===== *)
theory ClientTurns
  imports ClientRun Transport
begin

section \<open>Requests in turns of the packet loop\<close>

text \<open>
  From one request to a turn of the packet loop and to a sequence of them: over any connection that
  provides \<open>turns\<close>, the server answers as the machine of theory \<open>Client\<close> does and stays in a state of it; and
  a session that changes from one mode of the protocol to the other.
\<close>

locale client_turns =
  running_program K mem maps writable regs fregs W + turns waiting heard said answer
  for K :: "'k kernel" and mem maps writable regs fregs W
    and waiting :: "('d \<times> string) list \<Rightarrow> ('k, 'z) server_state_scheme \<Rightarrow> bool" and heard said answer
begin

lemma client_space: "represents mem maps regs fregs W s c \<Longrightarrow> cl_maps c \<subseteq> {0..<4294967296}"
  using maps_space by (auto simp: represents_def task_maps_def split: if_splits)

lemma request_handled:
  assumes "represents mem maps regs fregs W s c" and "acceptable W r c"
  shows "handled K (w_host W) (darwin_ops K) argv (packet_of r) (fst (serve W r c))
    (\<lambda>t. represents mem maps regs fregs W t (snd (serve W r c))) s"
  unfolding handled_def
proof (intro allI impI)
  fix b nt assume b: "length b = length (own_buf s)" "cstr b 0 = packet_of r"
  let ?s = "s\<lparr>own_buf := b, net := nt\<rparr>"
  have "represents mem maps regs fregs W ?s c" using represents_buffer [OF assms(1) b(1)] .
  from request_served [OF this assms(2), of argv] b(2) obtain t where
    t: "handle_packet K (w_host W) (darwin_ops K) argv ?s = (Ret False, t)" "cstr (own_buf t) 0 = fst (serve W r c)"
      "represents mem maps regs fregs W t (snd (serve W r c))" "connection_of t = connection_of ?s"
    by (auto simp: simulates_def)
  have "length (fst (serve W r c)) + 5 \<le> PBUFSIZ t"
    using length_reply [OF assms(2) represents_regs [OF assms(1)]] by (simp add: PBUFSIZ_def)
  moreover have "status t \<noteq> CHR ''W''" "status t \<noteq> CHR ''X''" "length (own_buf t) = length (own_buf s)"
    using t(3) represents_size [OF t(3)] represents_size [OF assms(1)] by (simp_all add: represents_def)
  ultimately show "\<exists>t. handle_packet K (w_host W) (darwin_ops K) argv ?s = (Ret False, t)
      \<and> represents mem maps regs fregs W t (snd (serve W r c)) \<and> net t = nt \<and> no_ack_mode t = no_ack_mode s
      \<and> length (own_buf t) = length (own_buf s) \<and> cstr (own_buf t) 0 = fst (serve W r c)
      \<and> status t \<noteq> CHR ''W'' \<and> status t \<noteq> CHR ''X'' \<and> length (fst (serve W r c)) + 5 \<le> PBUFSIZ t"
    using t by (auto simp: connection_of_def)
qed

lemma request_turn:
  assumes rep: "represents mem maps regs fregs W s c" and ac: "acceptable W r c"
    and w: "waiting ((d, packet_of r) # ins) s"
  shows "\<exists>t. loop_turn K (w_host W) (darwin_ops K) argv s = (Ret True, t)
    \<and> represents mem maps regs fregs W t (snd (serve W r c)) \<and> waiting ins t
    \<and> tx (net t) = tx (net s) @ answer d (fst (serve W r c))"
  using packet_of_sendable [OF ac client_space [OF rep]] represents_size [OF rep]
  by (intro next_turn [OF w _ _ _ request_handled [OF rep ac]] represents_net) simp_all

lemma requests_served:
  assumes "represents mem maps regs fregs W s c" and "acceptable_all W (map snd conv) c"
    and "waiting (map (\<lambda>(d, r). (d, packet_of r)) conv @ behind) s"
  shows "\<exists>t. packet_loop_from K (w_host W) (darwin_ops K) argv s = packet_loop_from K (w_host W) (darwin_ops K) argv t
    \<and> represents mem maps regs fregs W t (snd (serve_all W (map snd conv) c)) \<and> waiting behind t
    \<and> tx (net t) = tx (net s) @ concat (map2 answer (map fst conv) (fst (serve_all W (map snd conv) c)))"
  using assms
proof (induction conv arbitrary: s c)
  case Nil
  then show ?case by (intro exI [of _ s]) simp
next
  case (Cons x conv)
  obtain d r where x: "x = (d, r)" by fastforce
  from request_turn [OF Cons.prems(1), of r d "map (\<lambda>(d, r). (d, packet_of r)) conv @ behind" argv] Cons.prems(2,3) x
  obtain t where t: "loop_turn K (w_host W) (darwin_ops K) argv s = (Ret True, t)"
      "represents mem maps regs fregs W t (snd (serve W r c))" "waiting (map (\<lambda>(d, r). (d, packet_of r)) conv @ behind) t"
      "tx (net t) = tx (net s) @ answer d (fst (serve W r c))" by auto
  from Cons.IH [OF t(2) _ t(3)] Cons.prems(2) x obtain u where
    "packet_loop_from K (w_host W) (darwin_ops K) argv t = packet_loop_from K (w_host W) (darwin_ops K) argv u"
    "represents mem maps regs fregs W u (snd (serve_all W (map snd conv) (snd (serve W r c))))" "waiting behind u"
    "tx (net u) = tx (net t) @ concat (map2 answer (map fst conv) (fst (serve_all W (map snd conv) (snd (serve W r c)))))"
    by auto
  with t x show ?case
    by (auto simp: packet_loop_from.simps [of K "w_host W" _ argv s] Let_def split: prod.splits)
qed

end

locale client_session =
  client_turns K mem maps writable regs fregs W waiting heard said answer + transport waiting heard said answer
  for K :: "'k kernel" and mem maps writable regs fregs W
    and waiting :: "('d \<times> string) list \<Rightarrow> ('k, 'z) server_state_scheme \<Rightarrow> bool" and heard said answer
begin

lemma session_served:
  assumes "represents mem maps regs fregs W s c" and "acceptable_all W (map snd conv) c"
    and "waiting (map (\<lambda>(d, r). (d, packet_of r)) conv) s"
  shows "\<exists>t. packet_loop_from K (w_host W) (darwin_ops K) argv s = Some (Ret (), t)
    \<and> represents mem maps regs fregs W t (snd (serve_all W (map snd conv) c))
    \<and> tx (net t) = tx (net s) @ concat (map2 answer (map fst conv) (fst (serve_all W (map snd conv) c)))"
proof -
  from requests_served [OF assms(1,2), of "[]" argv] assms(3) obtain t where
    t: "packet_loop_from K (w_host W) (darwin_ops K) argv s = packet_loop_from K (w_host W) (darwin_ops K) argv t"
      "represents mem maps regs fregs W t (snd (serve_all W (map snd conv) c))" "waiting [] t"
      "tx (net t) = tx (net s) @ concat (map2 answer (map fst conv) (fst (serve_all W (map snd conv) c)))"
    by auto
  from last_turn [OF t(3)] obtain nt where
    "loop_turn K (w_host W) (darwin_ops K) argv t = (Ret False, t\<lparr>net := nt\<rparr>)" "tx nt = tx (net t)" by blast
  with t represents_net [OF t(2), of nt] show ?thesis
    by (intro exI [of _ "t\<lparr>net := nt\<rparr>"]) (simp add: packet_loop_from.simps [of K "w_host W" _ argv t])
qed

end

subsection \<open>Both modes in a session\<close>

definition switch_script ::
  "nat \<Rightarrow> sent list \<Rightarrow> rx_event list \<Rightarrow> (string \<times> string) list \<Rightarrow> rx_event list \<Rightarrow> bool" where
  \<comment> \<open>chunks with the packet \<^verbatim>\<open>QStartNoAckMode\<close>, after damaged ones, for a buffer of this size; and then packets
    between stray characters, such as the acknowledgement of the reply to that packet\<close>
  "switch_script room ps evs ins rest \<longleftrightarrow> list_all chunk evs
     \<and> flat_rx evs = concat (map raw_frame ps) @ frame ''QStartNoAckMode'' \<and> list_all (corrupt room) ps
     \<and> plain_stream ins (flat_rx rest)"

lemma session_switched:
  assumes prog: "running_program K mem maps writable regs fregs W" and rep: "represents mem maps regs fregs W s c"
    and ac: "acceptable_all W (map snd conv) c"
      "acceptable_all W (map snd conv') (snd (serve_all W (map snd conv) c))"
    and input: "acked_before (evs @ rest) (map (\<lambda>(d, r). (d, packet_of r)) conv) s"
    and switch: "switch_script (length (own_buf s)) ps evs (map (\<lambda>(cs, r). (cs, packet_of r)) conv') rest"
  defines "before \<equiv> serve_all W (map snd conv) c"
  defines "after \<equiv> serve_all W (map snd conv') (snd before)"
  shows "\<exists>t. packet_loop_from K (w_host W) (darwin_ops K) argv s = Some (Ret (), t)
    \<and> represents mem maps regs fregs W t (snd after)
    \<and> tx (net t) = tx (net s) @ concat (map2 acked_answer (map fst conv) (fst before))
        @ replicate (length ps) (CHR ''-'') @ ''+'' @ frame ''OK'' @ concat (map2 plain_answer (map fst conv') (fst after))"
proof -
  let ?loop = "packet_loop_from K (w_host W) (darwin_ops K) argv"
  note served = client_turns.requests_served [OF client_turns.intro [OF prog acked_then.turns_axioms]]
  from served [OF rep ac(1), where behind = "[]" and argv = argv] input obtain t where
    t: "?loop s = ?loop t" "represents mem maps regs fregs W t (snd before)" "acked_before (evs @ rest) [] t"
      "tx (net t) = tx (net s) @ concat (map2 acked_answer (map fst conv) (fst before))"
    unfolding before_def by auto
  have size: "length (own_buf t) = 2000" "length (own_buf s) = 2000"
    using represents_size [OF t(2)] represents_size [OF rep] by simp_all
  note sw = switch [unfolded switch_script_def size(2)]
  have "status t = CHR ''T''" using t(2) by (simp add: represents_def)
  with switch_turn [of t evs rest ps K "w_host W" "darwin_ops K" argv] t(3) sw size(1) obtain b nt where
    u: "loop_turn K (w_host W) (darwin_ops K) argv t = (Ret True, t\<lparr>own_buf := b, net := nt, no_ack_mode := True\<rparr>)"
      "length b = 2000" "rx nt = rest" "rc_buf nt = []" "tx_script nt = []"
      "tx nt = tx (net t) @ replicate (length ps) (CHR ''-'') @ ''+'' @ frame ''OK''"
    by (auto simp: acked_before_def)
  let ?u = "t\<lparr>own_buf := b, net := nt, no_ack_mode := True\<rparr>"
  have rep': "represents mem maps regs fregs W ?u (snd before)"
    using represents_modes(1) [OF represents_buffer [OF t(2), of b nt], of True] u(2) size(1) by simp
  have "plain_input (map (\<lambda>(cs, r). (cs, packet_of r)) conv') ?u"
    using sw u(2-5) by (simp add: plain_input_def stream_def)
  from client_session.session_served [OF client_session.intro [OF client_turns.intro [OF prog plain.turns_axioms]
      plain.transport_axioms] rep' ac(2) [folded before_def] this, of argv] obtain v where
    "?loop ?u = Some (Ret (), v)" "represents mem maps regs fregs W v (snd after)"
    "tx (net v) = tx nt @ concat (map2 plain_answer (map fst conv') (fst after))"
    unfolding after_def by auto
  with t(1,4) u(1,6) show ?thesis
    by (intro exI [of _ v]) (simp add: packet_loop_from.simps [of K "w_host W" _ argv t])
qed

end
