(* ===== verification/ClientEnd.thy ===== *)
theory ClientEnd
  imports ClientTurns
begin

section \<open>The end of a session\<close>

text \<open>
  A client that does not hang up ends the session with \<^verbatim>\<open>k\<close> or \<^verbatim>\<open>D\<close>, or lets the program run until it exits or
  is killed (src/server.c, src/darwin-low.c).  The server then exits with status 0.  The lemmas say
  what the client is told and what becomes of the process: in which state the kernel has it when it is killed,
  detached from or resumed for the last time, and what is done with it then.  A client that detaches has not
  written registers since the program last ran; otherwise they are lost (\<open>detach_loses_registers\<close>).
\<close>

datatype ending = Kill | Detach | Run_out request

fun end_packet :: "ending \<Rightarrow> string" where
  "end_packet Kill = ''k''"
| "end_packet Detach = ''D''"
| "end_packet (Run_out r) = packet_of r"

definition last_status :: "world \<Rightarrow> request \<Rightarrow> client \<Rightarrow> (char \<times> byte) option" where
  \<comment> \<open>how the program ends when this request lets it run, if it does\<close>
  "last_status W r c = (case resumption W r of None \<Rightarrow> None
     | Some (step, sg) \<Rightarrow> (case w_end W step sg (with_traps (cl_bps c) (cl_mem c)) (cl_regs c) of
         None \<Rightarrow> None | Some w \<Rightarrow> end_status w))"

fun may_end :: "world \<Rightarrow> ending \<Rightarrow> client \<Rightarrow> bool" where
  "may_end W (Run_out r) c \<longleftrightarrow> well_formed W r
     \<and> (case last_status W r c of None \<Rightarrow> False | Some (st, n) \<Rightarrow> has_number W n)"
| "may_end W Detach c \<longleftrightarrow> cl_stored c"
| "may_end W Kill c \<longleftrightarrow> True"

fun end_answer :: "world \<Rightarrow> ending \<Rightarrow> client \<Rightarrow> string option" where
  \<comment> \<open>the last reply; there is none to \<^verbatim>\<open>k\<close>\<close>
  "end_answer W Kill c = None"
| "end_answer W Detach c = Some ''OK''"
| "end_answer W (Run_out r) c = map_option (\<lambda>(st, n). end_text st (signal_number W n)) (last_status W r c)"

definition holds_program ::
  "('k \<Rightarrow> nat \<Rightarrow> int \<Rightarrow> byte) \<Rightarrow> ('k \<Rightarrow> nat \<Rightarrow> int set) \<Rightarrow> ('k \<Rightarrow> nat \<Rightarrow> ppc_thread_state) \<Rightarrow>
     ('k \<Rightarrow> nat \<Rightarrow> ppc_float_state) \<Rightarrow> world \<Rightarrow> client \<Rightarrow> 'k \<Rightarrow> bool" where
  \<comment> \<open>the kernel has the program of the machine: its memory, with the traps, and its registers unless they have
    not reached it\<close>
  "holds_program mem maps regs fregs W c k \<longleftrightarrow> mem k (w_task W) = with_traps (cl_bps c) (cl_mem c)
     \<and> maps k (w_task W) = cl_maps c \<and> (cl_stored c \<longrightarrow> kernel_regs regs fregs W k = cl_regs c)"

definition left_by ::
  "('k \<Rightarrow> nat \<Rightarrow> int \<Rightarrow> byte) \<Rightarrow> ('k \<Rightarrow> nat \<Rightarrow> int set) \<Rightarrow> ('k \<Rightarrow> nat \<Rightarrow> ppc_thread_state) \<Rightarrow>
     ('k \<Rightarrow> nat \<Rightarrow> ppc_float_state) \<Rightarrow> 'k kernel \<Rightarrow> world \<Rightarrow> ending \<Rightarrow> client \<Rightarrow> 'k \<Rightarrow> bool" where
  \<comment> \<open>the kernel when the server exits: the program of the machine was killed and waited for; or detached
    from and, unless it was attached to, waited for to its end; or resumed with the registers of the machine and
    waited for until it ended as it does from there\<close>
  "left_by mem maps regs fregs K W e c k' \<longleftrightarrow> (case e of
       Kill \<Rightarrow> (\<exists>k. holds_program mem maps regs fregs W c k
         \<and> k' = snd (k_waitpid K (w_pid W) (snd (k_ptrace K PT_KILL (w_pid W) 0 0 k))))
     | Detach \<Rightarrow> (\<exists>k. holds_program mem maps regs fregs W c k
         \<and> (let k1 = snd (k_ptrace K PT_DETACH (w_pid W) 1 0 k) in
            if cl_attached c then k' = k1 else detach_wait K (w_pid W) k1 = Some ((), k')))
     | Run_out r \<Rightarrow> (\<exists>step sg k k1 ret w. resumption W r = Some (step, sg)
         \<and> holds_program mem maps regs fregs W (c\<lparr>cl_stored := True\<rparr>) k
         \<and> k_ptrace K (if step then PT_STEP else PT_CONTINUE) (w_pid W) 1 (word_of_int sg) k = (ret, k1)
         \<and> w_end W step sg (with_traps (cl_bps c) (cl_mem c)) (cl_regs c) = Some w
         \<and> wait_loop K (w_pid W) k1 = Some (WaitDone w, k')))"

subsection \<open>Kill and detach\<close>

lemma darwin_ops_end [simp]: "t_kill (darwin_ops K) = darwin_kill K" "t_detach (darwin_ops K) = darwin_detach K"
  by (simp_all add: darwin_ops_def)

definition abandoned :: "'k \<Rightarrow> nat \<Rightarrow> ('k, 'z) server_state_scheme \<Rightarrow> ('k, 'z) server_state_scheme" where
  \<comment> \<open>the state without a task and without the thread\<close>
  "abandoned k a s = s\<lparr>kst := k, current_task := MACH_PORT_NULL, current_thread := MACH_PORT_NULL,
     threads := threads s |` (- {a}), entries := entries s |` (- {a}), all_threads := empty_list\<rparr>"

lemma the_process:
  assumes "represents mem maps regs fregs W s c"
  obtains a p pi where "current_inferior s = Some a" and "get_thread_process (Some a) s = (Ret (p, pi), s)"
    and "p_pid pi = w_pid W"
    and "\<And>k. clear_inferiors (s\<lparr>kst := k, current_task := MACH_PORT_NULL, current_thread := MACH_PORT_NULL\<rparr>) =
      (Ret (), abandoned k a s)"
proof -
  obtain a p pi rc where ready: "session_ready s a p pi rc" and a: "current_inferior s = Some a"
    and pi: "p_pid pi = w_pid W"
    using represents_session [OF assms] by metis
  then have "current_process s = (Ret (p, pi), s)"
    by (intro current_process_eq) (simp add: session_ready_def resume_ready_def same_inferior)
  then have g: "get_thread_process (Some a) s = (Ret (p, pi), s)" using a by (simp add: current_process_def prog_simps)
  have wf: "wf_list (entries s) (all_threads s) [a]" and th: "\<exists>th rc. threads s a = Some th \<and> regcache_data th = Some rc"
    using ready by (auto simp: session_ready_def resume_ready_def ppc_cache_def current_cache_def cache_at_def)
  have "clear_inferiors (s\<lparr>kst := k, current_task := MACH_PORT_NULL, current_thread := MACH_PORT_NULL\<rparr>) =
      (Ret (), abandoned k a s)" for k
    using clear_inferiors_list [of "s\<lparr>kst := k, current_task := MACH_PORT_NULL, current_thread := MACH_PORT_NULL\<rparr>" "[a]"]
      wf th by (simp add: abandoned_def)
  with that a g pi show thesis by blast
qed

lemma killed:
  assumes "represents mem maps regs fregs W s c"
  shows "\<exists>a. handle_k_kill (darwin_ops K) argv s = (Quit 0,
    abandoned (snd (k_waitpid K (w_pid W) (snd (k_ptrace K PT_KILL (w_pid W) 0 0 (kst s))))) a s)"
proof -
  obtain a p pi where a: "current_inferior s = Some a" "get_thread_process (Some a) s = (Ret (p, pi), s)"
      "p_pid pi = w_pid W"
    and clear: "\<And>k. clear_inferiors (s\<lparr>kst := k, current_task := MACH_PORT_NULL, current_thread := MACH_PORT_NULL\<rparr>) =
      (Ret (), abandoned k a s)"
    using the_process [OF assms] by blast
  let ?k = "snd (k_waitpid K (w_pid W) (snd (k_ptrace K PT_KILL (w_pid W) 0 0 (kst s))))"
  have "darwin_kill K s = (Ret (), abandoned ?k a s)"
    using a clear [of ?k] by (simp add: darwin_kill_def prog_simps kcall_def split_beta)
  moreover have "\<not> extended_protocol (abandoned ?k a s)"
    using assms by (simp add: abandoned_def represents_def)
  ultimately show ?thesis by (intro exI [of _ a]) (simp add: handle_k_kill_def prog_simps)
qed

lemma detached:
  assumes "represents mem maps regs fregs W s c"
  shows "\<exists>a. darwin_detach K s = (Ret (), abandoned (snd (k_ptrace K PT_DETACH (w_pid W) 1 0 (kst s))) a s)"
proof -
  obtain a p pi where a: "current_inferior s = Some a" "get_thread_process (Some a) s = (Ret (p, pi), s)"
      "p_pid pi = w_pid W"
    and clear: "\<And>k. clear_inferiors (s\<lparr>kst := k, current_task := MACH_PORT_NULL, current_thread := MACH_PORT_NULL\<rparr>) =
      (Ret (), abandoned k a s)"
    using the_process [OF assms] by blast
  let ?k = "snd (k_ptrace K PT_DETACH (w_pid W) 1 0 (kst s))"
  have "darwin_detach K s = (Ret (), abandoned ?k a s)"
    using a clear [of ?k] by (simp add: darwin_detach_def prog_simps kcall_def split_beta)
  then show ?thesis by blast
qed

lemma detach_loses_registers:
  assumes "represents mem maps regs fregs W s c" and "kernel_regs regs fregs W (kst s) \<noteq> cl_regs c"
  shows "\<exists>t k. darwin_detach K s = (Ret (), t) \<and> kernel_regs regs fregs W k \<noteq> cl_regs c
    \<and> kst t = snd (k_ptrace K PT_DETACH (w_pid W) 1 0 k)"
proof -
  from detached [OF assms(1), of K] obtain a where
    "darwin_detach K s = (Ret (), abandoned (snd (k_ptrace K PT_DETACH (w_pid W) 1 0 (kst s))) a s)" by blast
  with assms(2) show ?thesis by (auto simp: abandoned_def)
qed

subsection \<open>The program runs to its end\<close>

context running_program
begin

lemma represents_holds:
  assumes "represents mem maps regs fregs W s c"
  shows "holds_program mem maps regs fregs W c (kst s)"
  using represents_traps [OF assms] assms by (simp add: holds_program_def represents_def task_maps_def)

lemma ends_to_its_end:
  assumes rep: "represents mem maps regs fregs W s c" and pi: "p_pid pi = w_pid W" "p_thread pi = w_thread W"
    and c: "cl_regs c = thread_regs regs fregs s pi rc"
    and w: "w_end W step sg (with_traps (cl_bps c) (cl_mem c)) (cl_regs c) = Some w"
  shows "ends_to K regs fregs (\<lambda>k. (mem k (w_task W), maps k (w_task W))) pi step sg
    (thread_regs regs fregs s pi rc, mem (kst s) (w_task W), maps (kst s) (w_task W)) w"
  unfolding ends_to_def
proof (intro allI impI)
  fix k1 ret k2
  assume k1: "(ppc_image (regs k1 (p_thread pi)) (fregs k1 (p_thread pi)), mem k1 (w_task W), maps k1 (w_task W)) =
      (thread_regs regs fregs s pi rc, mem (kst s) (w_task W), maps (kst s) (w_task W))"
    and k2: "k_ptrace K (if step then PT_STEP else PT_CONTINUE) (p_pid pi) 1 (word_of_int sg) k1 = (ret, k2)"
  have "w_end W step sg (mem k1 (w_task W)) (ppc_image (regs k1 (w_thread W)) (fregs k1 (w_thread W))) = Some w"
    using w k1 pi(2) c represents_traps [OF rep] by simp
  from program_ends [OF this k2 [unfolded pi(1)]] pi(1)
  show "\<exists>k3. wait_loop K (p_pid pi) k2 = Some (WaitDone w, k3)" by simp
qed

lemma run_out:
  fixes s :: "('k, 'z) server_state_scheme"
  assumes rep: "represents mem maps regs fregs W s c" and ok: "may_end W (Run_out r) c"
    and p: "cstr (own_buf s) 0 = packet_of r"
  shows "\<exists>u st. handle_packet K (w_host W) (darwin_ops K) argv s = (Ret False, u)
    \<and> end_answer W (Run_out r) c = Some (cstr (own_buf u) 0) \<and> connection_of u = (net s, no_ack_mode s, st)
    \<and> st \<in> {CHR ''W'', CHR ''X''} \<and> \<not> extended_protocol u \<and> PBUFSIZ u = 2000 \<and> length (own_buf u) = 2000
    \<and> length (cstr (own_buf u) 0) = 3 \<and> left_by mem maps regs fregs K W (Run_out r) c (kst u)"
proof -
  obtain st n where st: "last_status W r c = Some (st, n)" and num: "has_number W n" and wf: "well_formed W r"
    using ok by (auto split: option.splits)
  then obtain step sg w where r: "resumption W r = Some (step, sg)"
    and w: "w_end W step sg (with_traps (cl_bps c) (cl_mem c)) (cl_regs c) = Some w" "end_status w = Some (st, n)"
    by (auto simp: last_status_def split: option.splits prod.splits)
  obtain m s' where m: "handle_packet K (w_host W) (darwin_ops K) argv s = seq_p (run_by (w_host W) K m) (return_p False) s'"
      "resumes_as K m step sg (w_pid W) s'" and rep': "represents mem maps regs fregs W s' c"
      and conn: "connection_of s' = connection_of s"
    using resumption_dispatched [OF rep r wf p, of argv] by blast
  obtain a q pi rc where ready: "session_ready s' a q pi rc" and cur: "current_inferior s' = Some a"
    and pi: "p_pid pi = w_pid W" "p_thread pi = w_thread W" and c: "cl_regs c = thread_regs regs fregs s' pi rc"
    using represents_session [OF rep'] by metis
  have "resumes_as K m step sg (p_pid pi) (s'\<lparr>current_inferior := Some a\<rparr>)" using m(2) pi(1) same_inferior [OF cur] by simp
  note run = run_ends [OF ready this, where watch = "\<lambda>k. (mem k (w_task W), maps k (w_task W))"]
  from run [OF ends_to_its_end [OF rep' pi c w(1)] kcall_watched(3) w(2) has_numberD [OF num]] obtain u k ret k1 where
    u: "run_by (w_host W) K m s' = (Ret (), u)" "cstr (own_buf u) 0 = end_text st (signal_number W n)"
      "connection_of u = (net s', no_ack_mode s', st)" "extended_protocol u = extended_protocol s'" "PBUFSIZ u = 2000"
      "length (own_buf u) = 2000"
    and k: "ppc_image (regs k (w_thread W)) (fregs k (w_thread W)) = cl_regs c"
      "(mem k (w_task W), maps k (w_task W)) = (mem (kst s') (w_task W), maps (kst s') (w_task W))"
      "wait_loop K (w_pid W) k1 = Some (WaitDone w, kst u)"
      "k_ptrace K (if step then PT_STEP else PT_CONTINUE) (w_pid W) 1 (word_of_int sg) k = (ret, k1)"
    unfolding run_by_def pi c by blast
  have "holds_program mem maps regs fregs W (c\<lparr>cl_stored := True\<rparr>) k"
    using represents_holds [OF rep'] k(1,2) by (simp add: holds_program_def kernel_regs_def)
  then have "left_by mem maps regs fregs K W (Run_out r) c (kst u)"
    unfolding left_by_def using r k(3,4) w(1) by auto
  have "st \<in> {CHR ''W'', CHR ''X''}" using w(2) by (auto simp: end_status_def split: wait_status.splits)
  moreover have "length (end_text st ts) = 3" for ts by (simp add: end_text_def hex_byte_def)
  moreover have "\<not> extended_protocol s'" using rep' by (simp add: represents_def)
  moreover have "handle_packet K (w_host W) (darwin_ops K) argv s = (Ret False, u)" using m(1) u(1) by (simp add: prog_simps)
  ultimately show ?thesis
    using u(2-6) conn st \<open>left_by mem maps regs fregs K W (Run_out r) c (kst u)\<close>
    by (intro exI [of _ u] exI [of _ st]) (simp add: connection_of_def)
qed

end

subsection \<open>The last turn\<close>

lemma end_packet_sendable:
  assumes "may_end W e c"
  shows "payload (end_packet e) \<and> end_packet e \<noteq> [] \<and> length (end_packet e) < 2000"
proof (cases e)
  case (Run_out r)
  with assms have "resumption W r \<noteq> None" "well_formed W r"
    by (auto simp: last_status_def split: option.splits)
  from resumption_sendable [OF this] Run_out show ?thesis by simp
qed (simp_all add: NUL_def)

lemma quit_turn:
  assumes "getpkt_own s = (Ret n, s')" and "0 < n" and "handle_packet K H T argv s' = (Quit 0, t)"
  shows "loop_turn K H T argv s = (Quit 0, t)"
  using assms by (simp add: loop_turn_def prog_simps)

context client_turns
begin

lemma kill_packet:
  assumes "represents mem maps regs fregs W s c" and "cstr (own_buf s) 0 = ''k''"
  shows "\<exists>t. handle_packet K H (darwin_ops K) argv s = (Quit 0, t) \<and> net t = net s
    \<and> left_by mem maps regs fregs K W Kill c (kst t)"
proof -
  let ?k = "snd (k_waitpid K (w_pid W) (snd (k_ptrace K PT_KILL (w_pid W) 0 0 (kst s))))"
  from killed [OF assms(1), of K argv] obtain a where "handle_k_kill (darwin_ops K) argv s = (Quit 0, abandoned ?k a s)"
    by blast
  then have "handle_packet K H (darwin_ops K) argv s = (Quit 0, abandoned ?k a s)"
    using assms(2) by (simp add: handle_packet_def prog_simps)
  moreover have "left_by mem maps regs fregs K W Kill c ?k"
    unfolding left_by_def using represents_holds [OF assms(1)] by auto
  ultimately show ?thesis by (intro exI [of _ "abandoned ?k a s"]) (simp add: abandoned_def)
qed

lemma detach_packet:
  assumes rep: "represents mem maps regs fregs W s c" and b: "length b = length (own_buf s)" "cstr b 0 = ''D''"
    and sends: "sends_reply (waiting []) (said d) s nt"
    and left: "\<And>k. \<not> cl_attached c \<Longrightarrow> holds_program mem maps regs fregs W c k \<Longrightarrow>
      \<exists>k'. detach_wait K (w_pid W) (snd (k_ptrace K PT_DETACH (w_pid W) 1 0 k)) = Some ((), k')"
  shows "\<exists>t. handle_packet K (w_host W) (darwin_ops K) argv (s\<lparr>own_buf := b, net := nt\<rparr>) = (Quit 0, t)
    \<and> tx (net t) = tx nt @ said d ''OK'' \<and> left_by mem maps regs fregs K W Detach c (kst t)"
proof -
  let ?s = "s\<lparr>own_buf := b, net := nt\<rparr>" and ?k = "snd (k_ptrace K PT_DETACH (w_pid W) 1 0 (kst s))"
  have size: "length (own_buf s) = 2000" using represents_size [OF rep] .
  from detached [OF represents_buffer [OF rep b(1)], of K] obtain a where
    a: "darwin_detach K ?s = (Ret (), abandoned ?k a ?s)" by auto
  let ?t = "(abandoned ?k a ?s)\<lparr>own_buf := overwrite b 0 (''OK'' @ [NUL])\<rparr>"
  have t: "net ?t = nt" "no_ack_mode ?t = no_ack_mode s" "length (own_buf ?t) = length (own_buf s)"
      "cstr (own_buf ?t) 0 = ''OK''" "2 + 5 \<le> PBUFSIZ ?t" "kst ?t = ?k" "attached ?t = attached s"
      "signal_pid ?t = w_pid W"
    using b(1) size rep by (simp_all add: abandoned_def PBUFSIZ_def represents_def)
  from sends [unfolded sends_reply_def, rule_format, OF t(1-3), of "darwin_ops K"] t(4,5) obtain nt' where
    u: "putpkt (darwin_ops K) ?t = (Ret 1, ?t\<lparr>net := nt'\<rparr>)" "tx nt' = tx nt @ said d ''OK''" by auto
  have att: "attached s = cl_attached c" using rep by (simp add: represents_def)
  with left [OF _ represents_holds [OF rep]] obtain k' where k': "\<not> attached s \<Longrightarrow> detach_wait K (w_pid W) ?k = Some ((), k')" by blast
  let ?v = "(?t\<lparr>net := nt'\<rparr>)\<lparr>no_ack_mode := False, no_ack_mode_pending := False\<rparr>"
  let ?fin = "if attached s then ?v else ?v\<lparr>kst := k'\<rparr>"
  have "write_ok (abandoned ?k a ?s) = (Ret (), ?t)"
    using b(1) size by (subst write_ok_eq) (simp_all add: abandoned_def)
  with a u(1) have "handle_D_detach K (darwin_ops K) ?s = (Quit 0, ?fin)"
    using t(6-8) k' by (simp add: handle_D_detach_def prog_simps remote_close_def kcall_loop_def)
  then have "handle_packet K (w_host W) (darwin_ops K) argv ?s = (Quit 0, ?fin)"
    using b(2) by (simp add: handle_packet_def prog_simps)
  moreover have "kst ?v = ?k" using t(6) by simp
  then have "left_by mem maps regs fregs K W Detach c (kst ?fin)"
    unfolding left_by_def using represents_holds [OF rep] k' att by (auto simp: Let_def)
  ultimately show ?thesis using u(2) by (intro exI [of _ ?fin]) simp
qed

lemma run_out_turn:
  assumes rep: "represents mem maps regs fregs W s c" and ok: "may_end W (Run_out r) c"
    and g: "getpkt_own s = (Ret n, s\<lparr>own_buf := b, net := nt\<rparr>)" "0 < n"
    and b: "length b = length (own_buf s)" "cstr b 0 = packet_of r"
    and sends: "sends_reply (waiting []) (said d) s nt"
  shows "\<exists>t rp. loop_turn K (w_host W) (darwin_ops K) argv s = (Quit 0, t) \<and> end_answer W (Run_out r) c = Some rp
    \<and> tx (net t) = tx nt @ said d rp \<and> left_by mem maps regs fregs K W (Run_out r) c (kst t)"
proof -
  let ?s = "s\<lparr>own_buf := b, net := nt\<rparr>"
  have size: "length (own_buf s) = 2000" using represents_size [OF rep] .
  have "cstr (own_buf ?s) 0 = packet_of r" using b(2) by simp
  from run_out [OF represents_buffer [OF rep b(1)] ok this, of argv] obtain u st where
    u: "handle_packet K (w_host W) (darwin_ops K) argv ?s = (Ret False, u)"
      "end_answer W (Run_out r) c = Some (cstr (own_buf u) 0)" "connection_of u = (nt, no_ack_mode s, st)"
      "st \<in> {CHR ''W'', CHR ''X''}" "\<not> extended_protocol u" "PBUFSIZ u = 2000" "length (own_buf u) = 2000"
      "length (cstr (own_buf u) 0) = 3" "left_by mem maps regs fregs K W (Run_out r) c (kst u)"
    by auto
  then have c: "net u = nt" "no_ack_mode u = no_ack_mode s" "status u = st" by (simp_all add: connection_of_def)
  with sends [unfolded sends_reply_def, rule_format, of u "darwin_ops K"] u(6-8) size obtain nt' where
    v: "putpkt (darwin_ops K) u = (Ret 1, u\<lparr>net := nt'\<rparr>)" "tx nt' = tx nt @ said d (cstr (own_buf u) 0)" by auto
  have "handle_terminated_inferior (darwin_ops K) argv (u\<lparr>net := nt'\<rparr>) = (Quit 0, u\<lparr>net := nt'\<rparr>)"
    using u(4,5) c(3) by (auto simp: handle_terminated_inferior_def prog_simps)
  with u(1) v(1) g have "loop_turn K (w_host W) (darwin_ops K) argv s = (Quit 0, u\<lparr>net := nt'\<rparr>)"
    by (simp add: loop_turn_def prog_simps bind_p_def)
  with u(2,9) v(2) show ?thesis by auto
qed

lemma session_ends:
  assumes rep: "represents mem maps regs fregs W s c" and ok: "may_end W e c"
    and w: "waiting [(d, end_packet e)] s"
    and left: "\<And>k. e = Detach \<Longrightarrow> \<not> cl_attached c \<Longrightarrow> holds_program mem maps regs fregs W c k \<Longrightarrow>
      \<exists>k'. detach_wait K (w_pid W) (snd (k_ptrace K PT_DETACH (w_pid W) 1 0 k)) = Some ((), k')"
  shows "\<exists>t. loop_turn K (w_host W) (darwin_ops K) argv s = (Quit 0, t)
    \<and> tx (net t) = tx (net s) @ heard d @ (case end_answer W e c of None \<Rightarrow> [] | Some r \<Rightarrow> said d r)
    \<and> left_by mem maps regs fregs K W e c (kst t)"
proof -
  have pkt: "payload (end_packet e)" "end_packet e \<noteq> []" "length (end_packet e) < 2000"
    using end_packet_sendable [OF ok] by simp_all
  then have n: "0 < int (length (end_packet e))" by simp
  obtain b nt where g: "getpkt_own s = (Ret (int (length (end_packet e))), s\<lparr>own_buf := b, net := nt\<rparr>)"
      "length b = length (own_buf s)" "cstr b 0 = end_packet e" "tx nt = tx (net s) @ heard d"
      "sends_reply (waiting []) (said d) s nt"
    using exchange [OF w pkt(1)] pkt(3) represents_size [OF rep] by auto
  note quit = quit_turn [OF g(1) n]
  show ?thesis
  proof (cases e)
    case Kill
    with kill_packet [OF represents_buffer [OF rep g(2), of nt]] g(3) quit g(4) show ?thesis by fastforce
  next
    case Detach
    with detach_packet [OF rep g(2) _ g(5) left] g(3) quit g(4) show ?thesis by fastforce
  next
    case (Run_out r)
    from run_out_turn [OF rep ok [unfolded Run_out] g(1) n g(2) _ g(5), of argv] g(3) Run_out obtain t rp where
      "loop_turn K (w_host W) (darwin_ops K) argv s = (Quit 0, t)" "end_answer W e c = Some rp" "tx (net t) = tx nt @ said d rp"
      "left_by mem maps regs fregs K W e c (kst t)" by auto
    with g(4) Run_out show ?thesis by (intro exI [of _ t]) (simp del: end_answer.simps)
  qed
qed

lemma session_to_end:
  assumes "represents mem maps regs fregs W s c" and "acceptable_all W (map snd conv) c"
    and "may_end W e (snd (serve_all W (map snd conv) c))"
    and "waiting (map (\<lambda>(d, r). (d, packet_of r)) conv @ [(d, end_packet e)]) s"
    and "\<And>k. e = Detach \<Longrightarrow> \<not> cl_attached c \<Longrightarrow>
      holds_program mem maps regs fregs W (snd (serve_all W (map snd conv) c)) k \<Longrightarrow>
      \<exists>k'. detach_wait K (w_pid W) (snd (k_ptrace K PT_DETACH (w_pid W) 1 0 k)) = Some ((), k')"
  shows "\<exists>t. packet_loop_from K (w_host W) (darwin_ops K) argv s = Some (Quit 0, t)
    \<and> left_by mem maps regs fregs K W e (snd (serve_all W (map snd conv) c)) (kst t)
    \<and> tx (net t) = tx (net s) @ concat (map2 answer (map fst conv) (fst (serve_all W (map snd conv) c)))
        @ heard d @ (case end_answer W e (snd (serve_all W (map snd conv) c)) of None \<Rightarrow> [] | Some r \<Rightarrow> said d r)"
proof -
  let ?c = "snd (serve_all W (map snd conv) c)"
  from requests_served [OF assms(1,2,4), of argv] obtain u where
    u: "packet_loop_from K (w_host W) (darwin_ops K) argv s = packet_loop_from K (w_host W) (darwin_ops K) argv u"
      "represents mem maps regs fregs W u ?c" "waiting [(d, end_packet e)] u"
      "tx (net u) = tx (net s) @ concat (map2 answer (map fst conv) (fst (serve_all W (map snd conv) c)))"
    by blast
  have att: "cl_attached ?c = cl_attached c" by (rule serve_all_attached)
  with session_ends [OF u(2) assms(3) u(3), of argv] assms(5) obtain t where
    t: "loop_turn K (w_host W) (darwin_ops K) argv u = (Quit 0, t)"
      "tx (net t) = tx (net u) @ heard d @ (case end_answer W e ?c of None \<Rightarrow> [] | Some r \<Rightarrow> said d r)"
      "left_by mem maps regs fregs K W e ?c (kst t)" by auto
  then have "packet_loop_from K (w_host W) (darwin_ops K) argv u = Some (Quit 0, t)"
    by (simp add: packet_loop_from.simps [of K "w_host W" _ argv u])
  then show ?thesis using u(1,4) t(2,3) by auto
qed

end

end
