(* ===== verification/ClientProps.thy ===== *)
theory ClientProps
  imports ClientEnd
begin

section \<open>Debugging sessions\<close>

text \<open>
  Whole sessions over a connection: the server answers as the machine of theory \<open>Client\<close> does and ends in a
  state of it, in both modes of the protocol.  The witnesses run a small kernel whose program counts how
  often it was resumed.
\<close>

lemma packet_loop_Some: "packet_loop_from K H T argv s = Some r \<Longrightarrow> packet_loop K H T argv s = r"
  by (simp add: packet_loop_def)

subsection \<open>A session to run\<close>

definition running_kernel :: "flat kernel" where
  \<comment> \<open>the small kernel with a program that counts in memory how often it was resumed and stops with SIGTRAP,
    but dies of signal 9 and exits with status 42 on signal 15; when it is detached from it exits\<close>
  "running_kernel = flat_kernel\<lparr>k_waitpid := \<lambda>pid k. (case fl_waits k of [] \<Rightarrow> WaitDone (WStopped 5) | w # ws \<Rightarrow> w, k),
     k_ptrace := \<lambda>req pid a d k.
       if req = PT_CONTINUE \<or> req = PT_STEP
       then ((0, 0), k\<lparr>fl_mem := (fl_mem k)(12288 := fl_mem k 12288 + 1),
         fl_waits := if d = 9 then [WaitDone (WSignaled 9)] else if d = 15 then [WaitDone (WExited 42)] else []\<rparr>)
       else if req = PT_DETACH
       then ((0, 0), k\<lparr>fl_waits := [WaitDone (WExited 0)], fl_log := (req, pid, d) # fl_log k\<rparr>)
       else if req = PT_ATTACH then ((0, 0), k) else k_ptrace flat_kernel req pid a d k\<rparr>"

definition demo_world :: world where
  "demo_world = \<lparr>w_host = darwin_host, w_pid = 100, w_task = 7, w_thread = 9,
     w_run = \<lambda>step sg v rs. if (word_of_int sg :: 32 word) \<in> {9, 15} then None else Some (5, v(12288 := v 12288 + 1), rs),
     w_end = \<lambda>step sg v rs. if (word_of_int sg :: 32 word) = 9 then Some (WSignaled 9)
       else if (word_of_int sg :: 32 word) = 15 then Some (WExited 42) else None\<rparr>"

interpretation counting: running_program running_kernel flat_mem flat_maps flat_writable fl_regs fl_fregs demo_world
proof (intro running_program.intro debugged_program.intro kernel_unmapped.intro)
  show "kernel_memory running_kernel flat_mem flat_maps flat_writable" "kernel_memory running_kernel flat_mem flat_maps flat_writable"
    using flat.kernel_memory_axioms by (simp_all add: kernel_memory_def running_kernel_def)
  show "kernel_registers running_kernel fl_regs fl_fregs"
    using flat_regs.kernel_registers_axioms by (simp add: kernel_registers_def running_kernel_def)
  show "kernel_unmapped_axioms running_kernel flat_mem flat_maps (w_pid demo_world) (w_task demo_world)"
    using flat_unmapped.kernel_unmapped_axioms by (simp add: kernel_unmapped_def kernel_unmapped_axioms_def running_kernel_def)
  show "debugged_program_axioms running_kernel flat_mem flat_maps fl_regs fl_fregs"
    by unfold_locales (auto simp: running_kernel_def flat_kernel_def flat_mem_def flat_maps_def split: if_splits)
  show "running_program_axioms running_kernel flat_mem flat_maps fl_regs fl_fregs demo_world"
    by unfold_locales (auto simp: running_kernel_def flat_kernel_def flat_mem_def flat_maps_def demo_world_def
      wait_loop.simps split: if_splits)
qed

interpretation counting_plain:
  client_session running_kernel flat_mem flat_maps flat_writable fl_regs fl_fregs demo_world plain_input plain_heard
  plain_said plain_answer
  by unfold_locales

interpretation counting_acked:
  client_session running_kernel flat_mem flat_maps flat_writable fl_regs fl_fregs demo_world acked_input acked_heard
  acked_said acked_answer
  by unfold_locales

interpretation counting_before: client_turns running_kernel flat_mem flat_maps flat_writable fl_regs fl_fregs demo_world
  "acked_before rest" acked_heard acked_said acked_answer for rest
  by unfold_locales

definition demo_client :: client where
  "demo_client = \<lparr>cl_mem = \<lambda>_. 0, cl_maps = {0..<2147483648}, cl_bps = [4096],
     cl_regs = replicate 412 0, cl_fetched = True, cl_stored = False, cl_signo = 5,
     cl_attached = False\<rparr>"

definition demo_on :: "bool \<Rightarrow> rx_event list \<Rightarrow> flat server_state" where
  \<comment> \<open>the server with the breakpoint at 4096 and this on its connection\<close>
  "demo_on plain_mode evs = (demo_bp_server [])\<lparr>no_ack_mode := plain_mode,
     net := \<lparr>rc_buf = [], rx = evs, tx = [], tx_script = []\<rparr>\<rparr>"

lemma demo_on_fields:
  "no_ack_mode (demo_on m evs) = m" "net (demo_on m evs) = \<lparr>rc_buf = [], rx = evs, tx = [], tx_script = []\<rparr>"
  "length (own_buf (demo_on m evs)) = 2000"
  by (simp_all add: demo_on_def) (simp add: demo_bp_server_def demo_server_def)

lemma demo_session: "session_ready (demo_on m evs) 1 0 demo_proc (demo_cache True)"
proof -
  have "session_ready (demo_server (demo_cache True) []) 1 0 demo_proc (demo_cache True)"
    by (rule demo_session_ready) simp_all
  then show ?thesis using regs_wf_ppc
    by (simp add: demo_on_def demo_bp_server_def session_ready_def resume_ready_def ppc_cache_def current_cache_def
        cache_at_def current_proc_def PBUFSIZ_def registers_length_def)
qed

lemma demo_view: "client_view flat_mem (demo_on m evs) = (\<lambda>_. 0)"
  by (rule ext, simp add: demo_on_def client_view_def shadow_def demo_bp_server_def demo_server_def task_mem_def
      flat_mem_def covers_def write_bytes_def demo_kernel_state_def) (auto simp: nat_less_iff)

lemma demo_represents: "represents flat_mem flat_maps fl_regs fl_fregs demo_world (demo_on m evs) demo_client"
proof -
  let ?s = "demo_on m evs"
  have fields: "current_inferior ?s = Some 1" "breakpoint_data ?s = Some (be32 ppc_breakpoint)" "breakpoint_len ?s = 4"
      "list_all (\<lambda>b. \<not> reinserting b) (breakpoints ?s)" "map bp_pc (breakpoints ?s) = [4096]"
      "status ?s = CHR ''T''" "current_task ?s = 7" "using_threads ?s" "gdbserver_expedite_regs ?s = expedite_regs_ppc"
      "sig ?s = 5" "thread_ptr ?s = None" "\<not> extended_protocol ?s" "signal_pid ?s = 100" "\<not> attached ?s"
    by (simp_all add: demo_on_def demo_bp_server_def demo_server_def)
  have "task_maps flat_maps ?s = {0..<2147483648}"
    using fields(7) by (simp add: task_maps_def flat_maps_def MACH_PORT_NULL_def)
  moreover have "serves_memory flat_mem flat_maps ?s" using demo_bp_serves [of "[]"] by (simp add: demo_on_def)
  moreover have "ready_thread fl_regs fl_fregs demo_world ?s (replicate 412 0) True"
    using session_ready_thread [OF demo_session fields(1), of demo_world fl_regs fl_fregs]
    by (simp add: demo_world_def demo_proc_def thread_regs_def demo_cache_def)
  ultimately show ?thesis
    using fields demo_view by (simp add: represents_def demo_client_def demo_world_def MACH_PORT_NULL_def)
qed

definition demo_requests :: "request list" where
  \<comment> \<open>as gdb begins a session: it asks for the packet size, the stop and the threads, selects the thread, sets a
    breakpoint, steps, and looks at memory (some of which does not exist), registers and the thread\<close>
  "demo_requests = [Ask_features '':swbreak+'', Ask_stop, First_threads, More_threads, Select_thread CHR ''g'' ''64'',
     Insert_breakpoint 8192, Resume_actions [(VContAction True None, 100)] (Some (VContAction False None)),
     Read_memory 12288 1, Read_memory 2147483648 4, Write_register 1 [1, 2, 3, 4], Read_register 1, Ask_alive 100]"

definition demo_replies :: "string list" where
  "demo_replies = [''PacketSize=7cf'', stop_text 5 (replicate 412 0) 100, ''m64'', ''l'', ''OK'', ''OK'',
     stop_text 5 (replicate 412 0) 100, hex_bytes [1], hex_bytes (replicate 4 0), ''OK'', hex_bytes [1, 2, 3, 4], ''OK'']"

lemma demo_signal: "signal_number demo_world 5 = 5" "has_number demo_world 5"
  using darwin_trap by (simp_all add: signal_number_def has_number_def demo_world_def)

lemma demo_run:
  assumes "list_all (\<lambda>b. mem_bytes (with_traps bps (cl_mem c)) b 4 = be32 ppc_breakpoint) bps"
    and "list_all (\<lambda>b. b + 4 \<le> 12288 \<or> 12288 < b) bps" and "cl_bps c = bps" and "length (cl_regs c) = 412"
    and "(word_of_int sg :: 32 word) \<notin> {9, 15}"
  shows "runs_well demo_world step sg c"
    and "run_program demo_world step sg c = (stop_text 5 (cl_regs c) 100,
      c\<lparr>cl_mem := (cl_mem c)(12288 := cl_mem c 12288 + 1), cl_fetched := True, cl_stored := True, cl_signo := 5\<rparr>)"
proof -
  let ?m = "with_traps bps (cl_mem c)"
  have "find (\<lambda>b. b \<le> 12288 \<and> 12288 < b + 4) bps = None"
    using assms(2) by (auto simp: find_None_iff list_all_iff)
  then have m: "?m 12288 = cl_mem c 12288" by (simp add: with_traps_def)
  have run: "w_run demo_world step sg ?m (cl_regs c) = Some (5, ?m(12288 := cl_mem c 12288 + 1), cl_regs c)"
    using m assms(5) by (simp add: demo_world_def)
  have "mem_bytes (?m(12288 := v)) b 4 = mem_bytes ?m b 4" if "b \<in> set bps" for b v
    unfolding mem_bytes_def by (rule map_cong) (use that assms(2) in \<open>auto simp: list_all_iff\<close>)
  then show "runs_well demo_world step sg c"
    using assms demo_signal(2) run by (simp add: runs_well_def list_all_iff)
  have "?m x = cl_mem c x" if "\<not> trapped bps x" for x
  proof -
    have "find (\<lambda>b. b \<le> x \<and> x < b + 4) bps = None"
      using that by (auto simp: find_None_iff trapped_def list_ex_iff)
    then show ?thesis by (simp add: with_traps_def)
  qed
  moreover have "\<not> trapped bps 12288" using assms(2) by (auto simp: trapped_def list_all_iff list_ex_iff)
  ultimately have "(\<lambda>x. if trapped bps x then cl_mem c x else (?m(12288 := cl_mem c 12288 + 1)) x)
      = (cl_mem c)(12288 := cl_mem c 12288 + 1)" by (intro ext) simp
  then show "run_program demo_world step sg c = (stop_text 5 (cl_regs c) 100,
      c\<lparr>cl_mem := (cl_mem c)(12288 := cl_mem c 12288 + 1), cl_fetched := True, cl_stored := True, cl_signo := 5\<rparr>)"
    using demo_signal(1) run assms(3) by (simp add: run_program_def cong: if_cong) (simp add: demo_world_def)
qed

lemma demo_traps:
  assumes "bps \<in> {[8192, 4096], [8192], [4096]}"
  shows "list_all (\<lambda>b. mem_bytes (with_traps bps m) b 4 = be32 ppc_breakpoint) bps"
proof -
  have "mem_bytes (with_traps bps m) b 4 = be32 ppc_breakpoint" if "b \<in> set bps" for b
  proof -
    have "mem_bytes (with_traps bps m) b 4 = map ((!) (be32 ppc_breakpoint)) [0..<4]"
      unfolding mem_bytes_def by (rule map_cong [OF refl]) (use that assms in \<open>auto simp: with_traps_def\<close>)
    also have "\<dots> = be32 ppc_breakpoint" using map_nth [of "be32 ppc_breakpoint"] by simp
    finally show ?thesis .
  qed
  then show ?thesis by (simp add: list_all_iff)
qed

lemma demo_resumed:
  "runs_well demo_world True 0 (demo_client\<lparr>cl_bps := [8192, 4096]\<rparr>)"
  "run_program demo_world True 0 (demo_client\<lparr>cl_bps := [8192, 4096]\<rparr>) =
     (stop_text 5 (replicate 412 0) 100,
      demo_client\<lparr>cl_bps := [8192, 4096], cl_mem := (\<lambda>_. 0)(12288 := 1), cl_stored := True\<rparr>)"
  using demo_run [of "[8192, 4096]" "demo_client\<lparr>cl_bps := [8192, 4096]\<rparr>" 0 True]
    demo_traps [of "[8192, 4096]" "\<lambda>_. 0"] by (simp_all add: demo_client_def)

lemma demo_conversation:
  "acceptable_all demo_world demo_requests demo_client"
  "fst (serve_all demo_world demo_requests demo_client) = demo_replies"
proof -
  have fields: "w_pid demo_world = 100" "cl_signo demo_client = 5" "cl_regs demo_client = replicate 412 0"
      "cl_bps demo_client = [4096]" "cl_maps demo_client = {0..<2147483648}" "cl_fetched demo_client"
      "demo_client\<lparr>cl_fetched := True, cl_bps := [8192, 4096]\<rparr> = demo_client\<lparr>cl_bps := [8192, 4096]\<rparr>"
    by (simp_all add: demo_world_def demo_client_def)
  let ?acts = "[(VContAction True None, 100)]" and ?d = "Some (VContAction False None)"
  have "length (hex_digits 100) \<le> 4" by (rule length_hex_digits) simp_all
  then have act: "length (vcont_text ?acts ?d) < 1900" "action_ok demo_world_host (VContAction b None)" for demo_world_host b
    by (simp_all add: vcont_text_def action_text_def action_ok_def)
  have chosen: "chosen_action demo_world ?acts ?d = Some (True, 0)" using fields(1) by (simp add: action_resume_def)
  have pid: "fmt_x 100 = ''64''"
    by (simp add: fmt_x_def hex_digits.simps [of 100] hex_digits.simps [of 6] hex_digit_def char_of_def bit_0)
  show "acceptable_all demo_world demo_requests demo_client"
    using demo_resumed demo_signal act chosen
    by (simp add: demo_requests_def fields in_mem_def outside_def slot_ppc NUL_def well_formed_def del: chosen_action.simps)
  have "slot regs_ppc 1 (put_slot regs_ppc 1 [1, 2, 3, 4] (replicate 412 0)) = [1, 2, 3, 4]"
    using put_slot(2) [of regs_ppc "replicate 412 0" 1 "[1, 2, 3, 4]"] regs_wf_ppc by (simp add: slot_ppc)
  then show "fst (serve_all demo_world demo_requests demo_client) = demo_replies"
    using demo_resumed(2) demo_signal(1) chosen
    by (simp add: demo_requests_def demo_replies_def fields in_mem_def mem_bytes_def Let_def pid del: chosen_action.simps)
qed

subsection \<open>The properties\<close>

text \<open>
  C4: The server is the machine its client thinks it is talking to: without acknowledgements, whatever
  sequence of requests comes over the connection, cut into any chunks and with stray characters around the
  packets, every request is answered in its turn with the reply of the machine, in whose state the server is at the end; then
  the packet loop returns.  The requests read and write memory and registers, set and remove breakpoints, let
  the program run (with \<^verbatim>\<open>c\<close>, \<^verbatim>\<open>s\<close>, \<^verbatim>\<open>C\<close>, \<^verbatim>\<open>S\<close> and \<^verbatim>\<open>vCont\<close>), ask for the last stop, the threads and
  the features of the server, select a thread, change a setting, or are packets it does not know.
\<close>

theorem session_is_served:
  assumes "running_program K mem maps writable regs fregs W" and "represents mem maps regs fregs W s c"
    and "acceptable_all W (map snd conv) c" and "plain_input (map (\<lambda>(cs, r). (cs, packet_of r)) conv) s"
  shows "\<exists>t. packet_loop K (w_host W) (darwin_ops K) argv s = (Ret (), t)
    \<and> represents mem maps regs fregs W t (snd (serve_all W (map snd conv) c))
    \<and> tx (net t) = tx (net s)
        @ concat (map2 plain_answer (map fst conv) (fst (serve_all W (map snd conv) c)))"
  using client_session.session_served [OF client_session.intro [OF client_turns.intro [OF assms(1) plain.turns_axioms]
      plain.transport_axioms] assms(2-4)]
  by (blast dest: packet_loop_Some)

theorem session_is_served_witness:
  "\<exists>t. packet_loop running_kernel darwin_host (darwin_ops running_kernel) []
      (demo_on True [Rx_bytes (concat (map (\<lambda>pkt. ''+'' @ frame pkt) (map packet_of demo_requests)) @ ''+'')]) = (Ret (), t)
    \<and> tx (net t) = concat (map frame demo_replies)"
proof -
  let ?conv = "map (\<lambda>r. (''+'', r)) demo_requests"
  let ?s = "demo_on True [Rx_bytes (concat (map (\<lambda>pkt. ''+'' @ frame pkt) (map packet_of demo_requests)) @ ''+'')]"
  have "stream (net (demo_on True [Rx_bytes bs])) = bs" for bs by (simp add: demo_on_fields stream_def)
  then have "plain_stream (map (\<lambda>pkt. (''+'', pkt)) (map packet_of demo_requests)) (stream (net ?s))"
    by (simp only: plain_stream_concat stray_simps)
  then have "plain_input (map (\<lambda>(cs, r). (cs, packet_of r)) ?conv) ?s"
    by (simp add: plain_input_def demo_on_fields comp_def)
  moreover have "map snd ?conv = demo_requests" by (simp add: comp_def)
  moreover have "w_host demo_world = darwin_host" by (simp add: demo_world_def)
  ultimately obtain t where
    "packet_loop running_kernel darwin_host (darwin_ops running_kernel) [] ?s = (Ret (), t)"
    "tx (net t) = tx (net ?s) @ concat (map2 plain_answer (map fst ?conv)
      (fst (serve_all demo_world demo_requests demo_client)))"
    using session_is_served [OF counting.running_program_axioms demo_represents, of ?conv True] demo_conversation(1)
    by metis
  then show ?thesis
    by (simp add: demo_conversation(2) demo_on_fields) (simp add: demo_requests_def demo_replies_def plain_answer_def)
qed

text \<open>
  C5: With acknowledgements, as every session begins, no request stays unanswered: a damaged packet is
  asked for again, a good one acknowledged, and the reply of the machine sent until the client has
  acknowledged it, as often as it asks for it; after the last request the packet loop returns.
\<close>

theorem acked_session_is_served:
  assumes "running_program K mem maps writable regs fregs W" and "represents mem maps regs fregs W s c"
    and "acceptable_all W (map snd conv) c" and "acked_input (map (\<lambda>(d, r). (d, packet_of r)) conv) s"
  shows "\<exists>t. packet_loop K (w_host W) (darwin_ops K) argv s = (Ret (), t)
    \<and> represents mem maps regs fregs W t (snd (serve_all W (map snd conv) c))
    \<and> tx (net t) = tx (net s)
        @ concat (map2 acked_answer (map fst conv) (fst (serve_all W (map snd conv) c)))"
  using client_session.session_served [OF client_session.intro [OF client_turns.intro [OF assms(1) acked.turns_axioms]
      acked.transport_axioms] assms(2-4)]
  by (blast dest: packet_loop_Some)

definition demo_chunks :: "string \<Rightarrow> rx_event list" where
  \<comment> \<open>the packet arrives in two chunks, after a damaged one\<close>
  "demo_chunks p = [Rx_bytes (raw_frame (''g'', 6, 6) @ ''$''), Rx_bytes (drop 1 (frame p))]"

definition demo_delivery :: "string \<Rightarrow> delivery" where
  "demo_delivery p = ([(''g'', 6, 6)], demo_chunks p, ''-'')"

lemma demo_delivery_chunks:
  "list_all chunk (demo_chunks p)"
  "flat_rx (demo_chunks p) = raw_frame (''g'', 6, 6) @ frame p"
  by (simp_all add: demo_chunks_def chunk_def raw_frame_def frame_def)

theorem acked_session_is_served_witness:
  "\<exists>t. packet_loop running_kernel darwin_host (darwin_ops running_kernel) []
      (demo_on False (concat (map (\<lambda>r. demo_chunks (packet_of r) @ [Rx_bytes ''-+'']) demo_requests))) = (Ret (), t)
    \<and> tx (net t) = concat (map (\<lambda>r. ''-+'' @ frame r @ frame r) demo_replies)"
proof -
  let ?conv = "map (\<lambda>r. (demo_delivery (packet_of r), r)) demo_requests"
  let ?s = "demo_on False (concat (map (\<lambda>r. demo_chunks (packet_of r) @ [Rx_bytes ''-+'']) demo_requests))"
  have "corrupt 2000 (''g'', 6, 6)" by (simp add: corrupt_def c7_ascii byte_of_char_def)
  then have on: "acked_input (map (\<lambda>(d, r). (d, packet_of r)) (map (\<lambda>r. (demo_delivery (packet_of r), r)) rs)) (demo_on False
      (concat (map (\<lambda>r. demo_chunks (packet_of r) @ [Rx_bytes ''-+'']) rs)))" for rs
    by (induction rs) (simp_all add: acked_input_def acked_before_def acked_script_def demo_on_fields demo_delivery_def demo_delivery_chunks)
  have conv: "map snd ?conv = demo_requests" and host: "w_host demo_world = darwin_host"
    by (simp_all add: comp_def demo_world_def)
  obtain t where
    "packet_loop running_kernel darwin_host (darwin_ops running_kernel) [] ?s = (Ret (), t)"
    "tx (net t) = tx (net ?s) @ concat (map2 acked_answer (map fst ?conv)
      (fst (serve_all demo_world demo_requests demo_client)))"
    using acked_session_is_served [OF counting.running_program_axioms demo_represents _ on [of demo_requests], of "[]",
        unfolded conv host] demo_conversation(1) by blast
  then show ?thesis
    by (simp add: demo_conversation(2) demo_on_fields) (simp add: demo_requests_def demo_replies_def demo_delivery_def)
qed

end
