(* ===== verification/EndProps.thy ===== *)
theory EndProps
  imports ClientProps
begin

section \<open>The end of the program\<close>

text \<open>
  What the client is told when its program exits (\<^verbatim>\<open>prepare_resume_reply\<close>, src/remote-utils.c): the number in the
  reply goes through the translation of signals, whether it is a signal or the status the process exits with.
\<close>

lemma darwin_beyond:
  assumes "32 \<le> h"
  shows "target_signal_from_host darwin_host h = Ret 143"
proof -
  have "host_value darwin_host m \<noteq> Some h" if "(m, t) \<in> set from_host_rows" for m t
  proof
    assume "host_value darwin_host m = Some h"
    from defined_rowsI [OF that this] assms show False by (auto simp: darwin_rows)
  qed
  then have "first_host darwin_host from_host_rows h = None" by (auto simp: first_host_None)
  with assms show ?thesis
    by (simp add: target_signal_from_host_def from_host_realtime_def) (simp add: darwin_host_def)
qed

text \<open>
  C32: On Darwin the client cannot tell how its program ended where it matters: the exit status goes
  through the translation of signals, which maps every number from 32 on to the unknown signal.  Without
  acknowledgements, the request to let the program run, of whatever form, after which it exits with such a status
  is answered with \<^verbatim>\<open>W8f\<close>, and the server exits.
\<close>

theorem exit_status_is_lost:
  assumes "running_program K mem maps writable regs fregs W" and "w_host W = darwin_host"
    and "represents mem maps regs fregs W s c" and "well_formed W r" and "resumption W r = Some (step, sg)"
    and "w_end W step sg (with_traps (cl_bps c) (cl_mem c)) (cl_regs c) = Some (WExited code)" and "32 \<le> code"
    and "plain_input [(cs, packet_of r)] s"
  shows "\<exists>t. loop_turn K darwin_host (darwin_ops K) argv s = (Quit 0, t) \<and> tx (net t) = tx (net s) @ frame ''W8f''"
proof -
  have "32 \<le> uint code" using assms(7) by (simp add: word_le_def)
  then have num: "signal_number W code = 143" using assms(2) darwin_beyond by (simp add: signal_number_def)
  moreover have last: "last_status W r c = Some (CHR ''W'', code)"
    using assms(5,6) by (simp add: last_status_def end_status_def)
  moreover have "end_text CHR ''W'' 143 = ''W8f''" by (simp add: end_text_def hex_byte_def hex_digit_def char_of_def bit_0)
  ultimately have "may_end W (Run_out r) c" "end_answer W (Run_out r) c = Some ''W8f''"
    using assms(4) by (simp_all add: has_number_def)
  from client_turns.session_ends [OF client_turns.intro [OF assms(1) plain.turns_axioms] assms(3) this(1), of cs argv]
    this(2) assms(8) show ?thesis by (auto simp: assms(2) plain_heard_def plain_said_def)
qed

lemma darwin_terminate: "target_signal_to_host_p darwin_host 15" "target_signal_to_host darwin_host 15 = 15"
proof -
  have "do_target_signal_to_host darwin_host 15 = (15, True)"
    by (simp add: do_target_signal_to_host_def to_host_tables host_value_darwin) (simp add: darwin_host_def)
  then show "target_signal_to_host_p darwin_host 15" "target_signal_to_host darwin_host 15 = 15"
    by (simp_all add: target_signal_to_host_p_def target_signal_to_host_def)
qed

theorem exit_status_is_lost_witness:
  "\<exists>t. loop_turn running_kernel darwin_host (darwin_ops running_kernel) []
      (demo_on True [Rx_bytes ''+$C0'', Rx_bytes (drop 3 (frame ''C0f''))]) = (Quit 0, t)
    \<and> tx (net t) = frame ''W8f''"
proof -
  let ?s = "demo_on True [Rx_bytes ''+$C0'', Rx_bytes (drop 3 (frame ''C0f''))]"
  have f: "hex_byte 15 = ''0f''" by code_simp
  have host: "w_host demo_world = darwin_host" and "signal_of demo_world 15 = 15"
    using darwin_terminate by (simp_all add: demo_world_def signal_of_def)
  then have r: "resumption demo_world (Resume_signal False 15) = Some (False, 15)"
    "w_end demo_world False 15 v rs = Some (WExited 42)" "well_formed demo_world (Resume_signal False 15)" for v rs
    by (simp_all add: resumption_def well_formed_def) (simp add: demo_world_def)
  have "plain_input [(''+'', packet_of (Resume_signal False 15))] ?s"
    using f by (simp add: plain_input_def demo_on_fields stream_def frame_def)
  from exit_status_is_lost [OF counting.running_program_axioms host demo_represents r(3,1) r(2) _ this]
  show ?thesis by (simp add: demo_on_fields)
qed

end
