(* ===== verification/LeftStopped.thy ===== *)
theory LeftStopped
  imports ClientProps
begin

section \<open>Threads to be left stopped\<close>

text \<open>
  A \<^verbatim>\<open>vCont\<close> packet with actions for other threads only and no default leaves the thread of the process
  stopped: \<^verbatim>\<open>handle_v_cont\<close> (src/server.c) ends the array with an entry for all other threads that has
  \<^verbatim>\<open>leave_stopped\<close> set, which src/target.h explains.  \<^verbatim>\<open>darwin_resume\<close> (src/darwin-low.c) does not look at it.
\<close>

lemma others_only:
  assumes "chosen_action W acts None = None"
  shows "find (\<lambda>r. tr_thread r = w_pid W \<or> tr_thread r = - 1)
    (map (\<lambda>(a, tid). action_resume (w_host W) (int tid) a) acts @ vcont_default # rest) = Some vcont_default"
  using assms by (induction acts) (auto simp: action_resume_def vcont_default_def split: if_splits)

context running_program
begin

lemma runs_like_continue:
  assumes rep: "represents mem maps regs fregs W s c" and ok: "well_formed W (Resume_actions acts None)"
    and none: "chosen_action W acts None = None" and well: "runs_well W False 0 c"
    and p: "cstr (own_buf s) 0 = packet_of (Resume_actions acts None)"
  shows "simulates mem maps regs fregs W (handle_packet K (w_host W) (darwin_ops K) argv) False s (run_program W False 0 c)"
proof -
  obtain m n where
    "handle_packet K (w_host W) (darwin_ops K) argv s = seq_p (run_by (w_host W) K m) (return_p False) (s\<lparr>cont_thread := n\<rparr>)"
    "resumes_as K m False 0 (w_pid W) (s\<lparr>cont_thread := n\<rparr>)"
    using actions_dispatched [OF rep ok p, of False 0 argv] none by auto
  from run_simulated [OF this represents_modes(5) [OF rep] _ well] show ?thesis by (simp add: connection_of_def)
qed

end

lemma entry_leaves_stopped:
  assumes ok: "well_formed W (Resume_actions acts None)" and none: "chosen_action W acts None = None"
    and p: "cstr buf 0 = packet_of (Resume_actions acts None)"
  shows "\<exists>info r. vcont_parse (w_host W) (cstr buf 5) = Ret (Some info)
    \<and> find (\<lambda>r. tr_thread r = w_pid W \<or> tr_thread r = - 1) info = Some r \<and> leave_stopped r"
proof -
  have "\<forall>(a, tid) \<in> set acts. action_ok (w_host W) a \<and> tid < 2 ^ 31" "acts \<noteq> []"
    using ok by (auto simp: well_formed_def)
  with vcont_parse_text [of acts "w_host W" None] obtain rest where
    "vcont_parse (w_host W) (vcont_text acts None) =
      Ret (Some (map (\<lambda>(a, tid). action_resume (w_host W) (int tid) a) acts @ vcont_default # rest))" by auto
  moreover have "cstr buf 5 = vcont_text acts None"
    using cstr_behind [of buf "''vCont''"] p by (simp add: eval_nat_numeral)
  ultimately show ?thesis using others_only [OF none, of rest] by (auto simp: vcont_default_def)
qed

text \<open>
  C33: A thread that \<^verbatim>\<open>vCont\<close> leaves stopped runs all the same: when the packet has actions for other
  threads only, the entry for the process that \<^verbatim>\<open>handle_v_cont\<close> hands to \<^verbatim>\<open>darwin_resume\<close> says to leave it
  stopped, and still the packet has the effect and the reply of the packet \<^verbatim>\<open>c\<close>: the process is continued, and the
  client is told of its next stop.
\<close>

theorem left_stopped_thread_runs:
  assumes "running_program K mem maps writable regs fregs W" and "represents mem maps regs fregs W s c"
    and "well_formed W (Resume_actions acts None)" and "chosen_action W acts None = None"
    and "acceptable W (Resume False) c" and "cstr (own_buf s) 0 = packet_of (Resume_actions acts None)"
  shows "(\<exists>info r. vcont_parse (w_host W) (cstr (own_buf s) 5) = Ret (Some info)
      \<and> find (\<lambda>r. tr_thread r = w_pid W \<or> tr_thread r = - 1) info = Some r \<and> leave_stopped r)
    \<and> simulates mem maps regs fregs W (handle_packet K (w_host W) (darwin_ops K) argv) False s (serve W (Resume False) c)"
  using entry_leaves_stopped [OF assms(3,4,6)] running_program.runs_like_continue [OF assms(1-4) _ assms(6)] assms(5)
  by simp

theorem left_stopped_thread_runs_witness:
  "\<exists>t. handle_packet running_kernel darwin_host (darwin_ops running_kernel) []
      ((demo_on True [])\<lparr>own_buf := overwrite (replicate 2000 NUL) 0 (''vCont;c:1'' @ [NUL])\<rparr>) = (Ret False, t)
    \<and> cstr (own_buf t) 0 = stop_text 5 (replicate 412 0) 100 \<and> flat_mem (kst t) 7 12288 = 1"
proof -
  let ?s = "(demo_on True [])\<lparr>own_buf := overwrite (replicate 2000 NUL) 0 (''vCont;c:1'' @ [NUL]), net := net (demo_on True [])\<rparr>"
  let ?acts = "[(VContAction False None, 1)]"
  have f: "w_host demo_world = darwin_host" "w_pid demo_world = 100" "w_task demo_world = 7" by (simp_all add: demo_world_def)
  have h: "vcont_text ?acts None = '';c:1''"
    by (simp add: vcont_text_def action_text_def hex_digits.simps [of "Suc 0"] hex_digit_def char_of_def bit_0)
  then have ok: "well_formed demo_world (Resume_actions ?acts None)" and none: "chosen_action demo_world ?acts None = None"
    using f(2) by (simp_all add: well_formed_def action_ok_def)
  have run: "runs_well demo_world False 0 demo_client"
    "run_program demo_world False 0 demo_client = (stop_text 5 (replicate 412 0) 100,
       demo_client\<lparr>cl_mem := (\<lambda>_. 0)(12288 := 1), cl_fetched := True, cl_stored := True, cl_signo := 5\<rparr>)"
    using demo_run [of "[4096]" demo_client 0 False] demo_traps [of "[4096]" "\<lambda>_. 0"] by (simp_all add: demo_client_def)
  have p: "cstr (own_buf ?s) 0 = packet_of (Resume_actions ?acts None)"
    using cstr_overwrite [of "''vCont;c:1''" "replicate 2000 NUL"] h by (simp add: NUL_def)
  have rep: "represents flat_mem flat_maps fl_regs fl_fregs demo_world ?s demo_client"
    by (rule represents_buffer [OF demo_represents]) (simp add: demo_on_fields)
  from left_stopped_thread_runs [OF counting.running_program_axioms rep ok none _ p, of "[]"] run(1)
  obtain t where t: "handle_packet running_kernel darwin_host (darwin_ops running_kernel) [] ?s = (Ret False, t)"
    "cstr (own_buf t) 0 = stop_text 5 (replicate 412 0) 100"
    "represents flat_mem flat_maps fl_regs fl_fregs demo_world t
      (demo_client\<lparr>cl_mem := (\<lambda>_. 0)(12288 := 1), cl_fetched := True, cl_stored := True, cl_signo := 5\<rparr>)"
    by (auto simp: simulates_def run(2) f(1))
  from fun_cong [OF counting.represents_traps [OF t(3)], of 12288] have "flat_mem (kst t) 7 12288 = 1"
    by (simp add: with_traps_def demo_client_def f(3))
  with t(1,2) show ?thesis by auto
qed

end
