(* ===== verification/Launch.thy ===== *)
theory Launch
  imports ClientRun
begin

section \<open>Starting the server\<close>

text \<open>
  From the command line to the first packet (\<^verbatim>\<open>main\<close> up to \<^verbatim>\<open>remote_open\<close>, src/server.c): the process is
  created or attached to (src/darwin-low.c), waited for, and, when it is new, run to its entry point
  with a breakpoint that is gone again afterwards.  The lemmas show that this establishes \<open>represents\<close>:
  the server begins in a state of the machine of theory \<open>Client\<close>.
\<close>

subsection \<open>The machine at the start\<close>

definition fresh :: "('k, 'z) server_state_scheme \<Rightarrow> bool" where
  \<comment> \<open>the globals as C and their initialisers leave them: no thread, no process, no breakpoint\<close>
  "fresh s \<longleftrightarrow> entries s = Map.empty \<and> threads s = Map.empty \<and> procs s = Map.empty
     \<and> all_threads s = empty_list \<and> all_processes s = empty_list \<and> current_inferior s = None
     \<and> breakpoints s = [] \<and> using_threads s \<and> \<not> no_ack_mode s
     \<and> thread_ptr s = None \<and> \<not> extended_protocol s"

definition first_stop :: "'k kernel \<Rightarrow> world \<Rightarrow> byte \<Rightarrow> 'k \<Rightarrow> 'k \<Rightarrow> bool" where
  \<comment> \<open>the process has a task with a thread, and stops with a signal; its thread is then that of the
    world\<close>
  "first_stop K W signo k k' \<longleftrightarrow> 0 < w_pid W \<and> w_task W \<noteq> MACH_PORT_NULL
     \<and> (\<exists>k1 k2 k3 t ts us. k_task_for_pid K (w_pid W) k = (Some (w_task W), k1)
       \<and> k_task_threads K (w_task W) k1 = (Some (t # ts), k2)
       \<and> wait_loop K (w_pid W) k2 = Some (WaitDone (WStopped signo), k3)
       \<and> k_task_threads K (w_task W) k3 = (Some (w_thread W # us), k'))"

definition begun :: "'k kernel \<Rightarrow> world \<Rightarrow> string list \<Rightarrow> 'k \<Rightarrow> 'k \<Rightarrow> bool" where
  \<comment> \<open>the kernel starts the program of the command line, or attaches to the process it names\<close>
  "begun K W argv k k' \<longleftrightarrow> (case parse_args argv of (mode, pid) \<Rightarrow>
     if mode = 0 then k_spawn K (argv ! 2) (drop 2 argv) k = (w_pid W, k')
     else mode = 1 \<and> pid = w_pid W \<and> (\<exists>e. k_ptrace K PT_ATTACH pid 0 0 k = ((0, e), k')))"

definition at_stop ::
  "('k \<Rightarrow> nat \<Rightarrow> int \<Rightarrow> byte) \<Rightarrow> ('k \<Rightarrow> nat \<Rightarrow> int set) \<Rightarrow> ('k \<Rightarrow> nat \<Rightarrow> ppc_thread_state) \<Rightarrow>
     ('k \<Rightarrow> nat \<Rightarrow> ppc_float_state) \<Rightarrow> world \<Rightarrow> string list \<Rightarrow> byte \<Rightarrow> 'k \<Rightarrow> client" where
  \<comment> \<open>the machine with the program as the kernel has it\<close>
  "at_stop mem maps regs fregs W argv signo k = \<lparr>cl_mem = mem k (w_task W), cl_maps = maps k (w_task W), cl_bps = [],
     cl_regs = ppc_image (regs k (w_thread W)) (fregs k (w_thread W)), cl_fetched = False, cl_stored = True,
     cl_signo = signo,
     cl_attached = (fst (parse_args argv) = 1)\<rparr>"

definition entry_reachable :: "world \<Rightarrow> byte list option \<Rightarrow> client \<Rightarrow> bool" where
  \<comment> \<open>the file can be read to its end, and from the first stop the program runs with a trap at its entry
    point, if it has one\<close>
  "entry_reachable W file c \<longleftrightarrow> (\<exists>ep. macho_get_entry_point file = Ret ep
     \<and> (ep \<noteq> 0 \<longrightarrow> in_mem (cl_maps c) ep 4 \<and> runs_well W False 0 (c\<lparr>cl_bps := [ep]\<rparr>)))"

definition at_entry :: "world \<Rightarrow> byte list option \<Rightarrow> client \<Rightarrow> client" where
  \<comment> \<open>the machine after that run, without the trap\<close>
  "at_entry W file c = (case macho_get_entry_point file of
      Ret ep \<Rightarrow> if ep = 0 then c
        else (snd (run_program W False 0 (c\<lparr>cl_bps := [ep]\<rparr>)))\<lparr>cl_fetched := False, cl_bps := []\<rparr>
    | _ \<Rightarrow> c)"

definition startable :: "world \<Rightarrow> (string \<Rightarrow> byte list option) \<Rightarrow> string list \<Rightarrow> client \<Rightarrow> bool" where
  "startable W files argv c \<longleftrightarrow> fst (parse_args argv) = 0 \<longrightarrow> entry_reachable W (files (argv ! 2)) c"

definition at_start :: "world \<Rightarrow> (string \<Rightarrow> byte list option) \<Rightarrow> string list \<Rightarrow> client \<Rightarrow> client" where
  \<comment> \<open>the machine when the client connects: a new program is at its entry point, a process that was
    attached to where it stopped\<close>
  "at_start W files argv c = (if fst (parse_args argv) = 0 then at_entry W (files (argv ! 2)) c else c)"

subsection \<open>The first process\<close>

definition new_proc :: "int \<Rightarrow> nat \<Rightarrow> nat \<Rightarrow> darwin_process_info" where
  "new_proc pid task thread = \<lparr>p_pid = pid, p_task = task, p_thread = thread, p_stopped = True, p_status = 0\<rparr>"

definition with_process :: "int \<Rightarrow> ('k, 'z) darwin_state_scheme \<Rightarrow> ('k, 'z) darwin_state_scheme" where
  \<comment> \<open>a process and its thread, the only ones, behind each other on the heap\<close>
  "with_process pid s =
     (let n = heap_brk s; e = \<lparr>ent_id = pid, next_ptr = None\<rparr> in
      s\<lparr>heap_brk := Suc (Suc n), entries := [n \<mapsto> e, Suc n \<mapsto> e],
        threads := [Suc n \<mapsto> \<lparr>target_data = Some n, regcache_data = Some (new_register_cache s)\<rparr>],
        all_threads := \<lparr>head = Some (Suc n), tail = Some (Suc n)\<rparr>, current_inferior := Some (Suc n),
        procs := [n \<mapsto> new_proc pid (current_task s) (current_thread s)],
        all_processes := \<lparr>head = Some n, tail = Some n\<rparr>\<rparr>)"

lemma add_process_fresh:
  assumes "entries s = Map.empty" "threads s = Map.empty" "procs s = Map.empty" "all_threads s = empty_list"
    "all_processes s = empty_list" "current_inferior s = None"
  shows "add_process pid s = (Ret (), with_process pid s)"
  using assms
  by (cases s) (simp add: add_process_def add_inferior_to_list_def upd_entry_def empty_list_def add_thread_def Let_def
      with_process_def new_proc_def new_register_cache_def)

lemma with_process_simps [simp]:
  "kst (with_process pid s) = kst s" "current_task (with_process pid s) = current_task s"
  "heap_brk (with_process pid s) = Suc (Suc (heap_brk s))"
  "current_inferior (with_process pid s) = Some (Suc (heap_brk s))"
  "procs (with_process pid s) = [heap_brk s \<mapsto> new_proc pid (current_task s) (current_thread s)]"
  "threads (with_process pid s) =
     [Suc (heap_brk s) \<mapsto> \<lparr>target_data = Some (heap_brk s), regcache_data = Some (new_register_cache s)\<rparr>]"
  by (simp_all add: with_process_def Let_def)

definition with_task :: "'k \<Rightarrow> nat \<Rightarrow> nat \<Rightarrow> ('k, 'z) darwin_state_scheme \<Rightarrow> ('k, 'z) darwin_state_scheme" where
  "with_task k task thread s = s\<lparr>kst := k, current_task := task, current_thread := thread\<rparr>"

lemma process_found:
  assumes "k_task_for_pid K pid (kst s) = (Some task, k1)" and "task \<noteq> MACH_PORT_NULL"
    and "k_task_threads K task k1 = (Some (t # ts), k2)" and "fresh s"
  shows "bind_p (darwin_task_for_pid K pid) (\<lambda>task'.
      seq_p (modify_p (\<lambda>s. s\<lparr>current_task := task'\<rparr>))
      (if task' = MACH_PORT_NULL then m else bind_p (darwin_get_first_thread K task') (\<lambda>thread.
        seq_p (modify_p (\<lambda>s. s\<lparr>current_thread := thread\<rparr>)) (seq_p (add_process pid) (return_p x))))) s
    = (Ret x, with_process pid (with_task k2 task t s))"
proof -
  let ?s = "with_task k2 task t s"
  have "darwin_task_for_pid K pid s = (Ret task, s\<lparr>kst := k1\<rparr>)"
    using assms(1) by (simp add: darwin_task_for_pid_def kcall_def prog_simps)
  moreover have "darwin_get_first_thread K task (s\<lparr>kst := k1, current_task := task\<rparr>) =
      (Ret t, s\<lparr>kst := k2, current_task := task\<rparr>)"
    using assms(3) by (simp add: darwin_get_first_thread_def kcall_def prog_simps)
  moreover have "add_process pid ?s = (Ret (), with_process pid ?s)"
    by (rule add_process_fresh) (use assms(4) in \<open>simp_all add: fresh_def with_task_def\<close>)
  ultimately show ?thesis using assms(2) by (simp add: prog_simps with_task_def)
qed

lemma created:
  assumes "k_spawn K prg args (kst s) = (pid, k0)" and "0 \<le> pid"
    and "k_task_for_pid K pid k0 = (Some task, k1)" and "task \<noteq> MACH_PORT_NULL"
    and "k_task_threads K task k1 = (Some (t # ts), k2)" and "fresh s"
  shows "create_inferior (darwin_ops K) prg args s = (Ret pid, with_process pid (with_task k2 task t s))"
proof -
  let ?s = "s\<lparr>kst := k0\<rparr>"
  have "kcall (k_spawn K prg args) s = (Ret pid, ?s)" using assms(1) by (simp add: kcall_def)
  moreover have "with_task k2 task t ?s = with_task k2 task t s" by (simp add: with_task_def)
  moreover have "fresh ?s" using assms(6) by (simp add: fresh_def)
  ultimately show ?thesis
    using process_found [of K pid ?s task k1 t ts k2] assms(2-5)
    by (simp add: darwin_ops_def darwin_create_inferior_def prog_simps)
qed

lemma attached_to:
  assumes "k_ptrace K PT_ATTACH pid 0 0 (kst s) = ((0, e), k0)"
    and "k_task_for_pid K pid k0 = (Some task, k1)" and "task \<noteq> MACH_PORT_NULL"
    and "k_task_threads K task k1 = (Some (t # ts), k2)" and "fresh s"
  shows "t_attach (darwin_ops K) pid s = (Ret 0, with_process pid (with_task k2 task t s))"
proof -
  let ?s = "s\<lparr>kst := k0\<rparr>"
  have "kcall (k_ptrace K PT_ATTACH pid 0 0) s = (Ret (0, e), ?s)" using assms(1) by (simp add: kcall_def)
  moreover have "with_task k2 task t ?s = with_task k2 task t s" by (simp add: with_task_def)
  moreover have "fresh ?s" using assms(5) by (simp add: fresh_def)
  ultimately show ?thesis
    using process_found [of K pid ?s task k1 t ts k2] assms(2-4)
    by (simp add: darwin_ops_def darwin_attach_def prog_simps)
qed

definition stopped_at ::
  "'k \<Rightarrow> nat \<Rightarrow> byte \<Rightarrow> int \<Rightarrow> ('k, 'z) server_state_scheme \<Rightarrow> ('k, 'z) server_state_scheme" where
  \<comment> \<open>a fresh process after its first stop\<close>
  "stopped_at k thread signo pid s = (with_process pid s)\<lparr>signal_pid := pid, kst := k, current_thread := thread,
     procs := [heap_brk s \<mapsto> (new_proc pid (current_task s) (current_thread s))\<lparr>p_thread := thread, p_stopped := True\<rparr>],
     status := CHR ''T'', sig := signo\<rparr>"

lemma waited_for:
  assumes "wait_loop K pid (kst s) = Some (WaitDone (WStopped signo), k3)"
    and "k_task_threads K (current_task s) k3 = (Some (t # us), k)"
  shows "bind_p (seq_p (modify_p (\<lambda>s. s\<lparr>signal_pid := pid\<rparr>)) (mywait (darwin_ops K) False)) (\<lambda>(st, sg).
      modify_p (\<lambda>s. s\<lparr>status := st, sig := sg\<rparr>)) (with_process pid s) = (Ret (), stopped_at k t signo pid s)"
proof -
  let ?u = "(with_process pid s)\<lparr>signal_pid := pid\<rparr>"
  let ?pi = "new_proc pid (current_task s) (current_thread s)"
  have pr: "current_proc ?u (heap_brk s) ?pi" by (simp add: current_proc_def)
  have "p_pid ?pi = pid" by (simp add: new_proc_def)
  with waited [OF pr, of K "WStopped signo" k3 t us k] assms
  have "darwin_wait K ?u = (Ret (CHR ''T'', signo), ?u\<lparr>kst := k, current_thread := t,
      procs := [heap_brk s \<mapsto> ?pi\<lparr>p_thread := t, p_stopped := True\<rparr>]\<rparr>)" by simp
  then show ?thesis by (simp add: mywait_def prog_simps stopped_at_def)
qed

subsection \<open>The first stop\<close>

definition low_ready :: "('k, 'z) server_state_scheme \<Rightarrow> bool" where
  \<comment> \<open>what \<^verbatim>\<open>initialize_low\<close> and the allocation of the buffers leave\<close>
  "low_ready s \<longleftrightarrow> breakpoint_data s = Some (be32 ppc_breakpoint) \<and> breakpoint_len s = 4 \<and> reg_defs s = regs_ppc
     \<and> register_bytes s = 412 \<and> gdbserver_expedite_regs s = expedite_regs_ppc \<and> length (own_buf s) = 2000
     \<and> length (mem_buf s) = 2000"

lemma stopped_session:
  fixes s :: "('k, 'z) server_state_scheme" and k :: 'k and thread :: nat and signo :: byte and k2 :: 'k
    and task t :: nat
  assumes "fresh s" and "low_ready s" and "0 < pid"
  defines "u \<equiv> stopped_at k thread signo pid (with_task k2 task t s)"
  defines "rc \<equiv> \<lparr>registers_valid = False, registers = replicate 412 0\<rparr>"
  shows "session_ready u (Suc (heap_brk s)) (heap_brk s) ((new_proc pid task t)\<lparr>p_thread := thread, p_stopped := True\<rparr>) rc"
proof -
  have "wf_list (entries u) (all_threads u) [Suc (heap_brk s)]" "id_at (entries u) (Suc (heap_brk s)) = pid"
    by (simp_all add: u_def stopped_at_def with_process_def Let_def wf_list_def id_at_def with_task_def)
  moreover have "threads u = [Suc (heap_brk s) \<mapsto> \<lparr>target_data = Some (heap_brk s), regcache_data = Some rc\<rparr>]"
    using assms(2) by (simp add: u_def stopped_at_def with_task_def new_register_cache_def low_ready_def rc_def)
  moreover have "procs u = [heap_brk s \<mapsto> (new_proc pid task t)\<lparr>p_thread := thread, p_stopped := True\<rparr>]"
      "using_threads u" "gdbserver_expedite_regs u = expedite_regs_ppc" "length (own_buf u) = 2000" "reg_defs u = regs_ppc"
      "register_bytes u = 412"
    using assms(1,2) by (simp_all add: u_def stopped_at_def with_process_def Let_def with_task_def fresh_def low_ready_def)
  ultimately show ?thesis
    using assms(3) regs_wf_ppc
    by (simp add: session_ready_def resume_ready_def ppc_cache_def current_cache_def cache_at_def current_proc_def
        PBUFSIZ_def registers_length_def new_proc_def) (simp add: rc_def)
qed

lemma represents_stopped:
  assumes "fresh s" and "low_ready s" and "0 < w_pid W" and "w_task W \<noteq> MACH_PORT_NULL"
    and att: "attached s = (fst (parse_args argv) = 1)"
  shows "represents mem maps regs fregs W (stopped_at k (w_thread W) signo (w_pid W) (with_task k2 (w_task W) t s))
    (at_stop mem maps regs fregs W argv signo k)"
proof -
  let ?u = "stopped_at k (w_thread W) signo (w_pid W) (with_task k2 (w_task W) t s)"
  let ?rc = "\<lparr>registers_valid = False, registers = replicate 412 (0 :: byte)\<rparr>"
  let ?pi = "(new_proc (w_pid W) (w_task W) t)\<lparr>p_thread := w_thread W, p_stopped := True\<rparr>"
  note d = stopped_at_def with_process_def Let_def with_task_def
  have f: "kst ?u = k" "current_task ?u = w_task W" "breakpoints ?u = []" "breakpoint_len ?u = 4" "status ?u = CHR ''T''"
      "breakpoint_data ?u = Some (be32 ppc_breakpoint)" "using_threads ?u" "sig ?u = signo" "register_bytes ?u = 412"
      "gdbserver_expedite_regs ?u = expedite_regs_ppc" "length (own_buf ?u) = 2000" "length (mem_buf ?u) = 2000"
      "reg_defs ?u = regs_ppc" "current_inferior ?u = Some (Suc (heap_brk s))" "thread_ptr ?u = None"
      "\<not> extended_protocol ?u" "signal_pid ?u = w_pid W" "attached ?u = (fst (parse_args argv) = 1)"
    using assms(1,2,5) by (simp_all add: d fresh_def low_ready_def)
  have "p_pid ?pi = w_pid W" "p_thread ?pi = w_thread W" by (simp_all add: new_proc_def)
  from session_ready_thread [OF stopped_session [OF assms(1-3)] f(14) this, of regs fregs]
  have "ready_thread regs fregs W ?u (thread_regs regs fregs ?u ?pi ?rc) False" by simp
  moreover have "thread_regs regs fregs ?u ?pi ?rc = ppc_image (regs k (w_thread W)) (fregs k (w_thread W))"
    using f(1) by (simp add: thread_regs_def)
  moreover have "serves_memory mem maps ?u"
    using f by (simp add: serves_memory_def breakpoints_ok_def bp_ok_def bps_ok_def PBUFSIZ_def registers_length_def)
  moreover have "client_view mem ?u = mem k (w_task W)"
    using f by (simp add: client_view_def shadow_def task_mem_def)
  moreover have "task_maps maps ?u = maps k (w_task W)" using f assms(4) by (simp add: task_maps_def)
  ultimately show ?thesis using f assms(3,4) by (simp add: represents_def at_stop_def kernel_regs_def)
qed

lemma begins:
  assumes b: "begun K W argv (kst s) k0" and stop: "first_stop K W signo k0 k" and s: "fresh s" "low_ready s"
    and att: "attached s = (fst (parse_args argv) = 1)"
  shows "\<exists>u. prepare_inferior (darwin_ops K) files argv (snd (parse_args argv)) s =
      (if fst (parse_args argv) = 0 then run_to_entry_point (darwin_ops K) (files (argv ! 2)) u else (Ret (), u))
    \<and> represents mem maps regs fregs W u (at_stop mem maps regs fregs W argv signo k)
    \<and> net u = net s \<and> no_ack_mode u = no_ack_mode s"
proof -
  from stop obtain k1 k2 k3 t ts us where
    pid: "0 < w_pid W" "w_task W \<noteq> MACH_PORT_NULL" and
    task: "k_task_for_pid K (w_pid W) k0 = (Some (w_task W), k1)" and
    thr: "k_task_threads K (w_task W) k1 = (Some (t # ts), k2)" and
    wait: "wait_loop K (w_pid W) k2 = Some (WaitDone (WStopped signo), k3)"
      "k_task_threads K (w_task W) k3 = (Some (w_thread W # us), k)"
    by (auto simp: first_stop_def)
  let ?s = "with_task k2 (w_task W) t s"
  let ?u = "stopped_at k (w_thread W) signo (w_pid W) ?s"
  have w: "bind_p (seq_p (modify_p (\<lambda>s. s\<lparr>signal_pid := w_pid W\<rparr>)) (mywait (darwin_ops K) False)) (\<lambda>(st, sg).
      modify_p (\<lambda>s. s\<lparr>status := st, sig := sg\<rparr>)) (with_process (w_pid W) ?s) = (Ret (), ?u)"
    using waited_for [of K "w_pid W" ?s signo k3 "w_thread W" us k] wait by (simp add: with_task_def)
  have run: "prepare_inferior (darwin_ops K) files argv (snd (parse_args argv)) s =
      (if fst (parse_args argv) = 0 then run_to_entry_point (darwin_ops K) (files (argv ! 2)) ?u else (Ret (), ?u))"
  proof (cases "fst (parse_args argv) = 0")
    case True
    then have sp: "k_spawn K (argv ! 2) (drop 2 argv) (kst s) = (w_pid W, k0)"
      using b by (simp add: begun_def split: prod.splits)
    have l: "2 < length argv"
    proof (rule ccontr)
      assume "\<not> 2 < length argv"
      then have "parse_args argv = (- 1, 0)" by (simp add: parse_args_def)
      with True show False by simp
    qed
    then have d: "drop 2 argv = argv ! 2 # drop 3 argv" using Cons_nth_drop_Suc [of 2 argv] by (simp add: numeral_3_eq_3)
    have "create_inferior (darwin_ops K) (argv ! 2) (drop 2 argv) s = (Ret (w_pid W), with_process (w_pid W) ?s)"
      by (rule created [OF sp _ task pid(2) thr s(1)]) (use pid(1) in simp)
    then have "start_inferior (darwin_ops K) (drop 2 argv) s = (Ret (), ?u)"
      using w d by (simp add: start_inferior_def prog_simps)
    with True att show ?thesis by (simp add: prepare_inferior_def prog_simps)
  next
    case False
    then obtain e where att': "fst (parse_args argv) = 1" "snd (parse_args argv) = w_pid W"
        "k_ptrace K PT_ATTACH (w_pid W) 0 0 (kst s) = ((0, e), k0)"
      using b by (auto simp: begun_def split: prod.splits)
    have "t_attach (darwin_ops K) (w_pid W) s = (Ret 0, with_process (w_pid W) ?s)"
      by (rule attached_to [OF att'(3) task pid(2) thr s(1)])
    then have "attach_inferior (darwin_ops K) (w_pid W) s = (Ret 0, ?u)"
      using w by (auto simp: attach_inferior_def prog_simps bind_p_Ret_iff split_beta)
    with False att att'(1,2) show ?thesis by (simp add: prepare_inferior_def prog_simps)
  qed
  have "net ?u = net s" "no_ack_mode ?u = no_ack_mode s"
    by (simp_all add: stopped_at_def with_process_def Let_def with_task_def)
  with run represents_stopped [OF s pid att] show ?thesis by blast
qed

subsection \<open>The entry point\<close>

lemma session_after_stop:
  assumes "session_ready s a p pi rc" and "length (registers rc') = 412" and "p_pid pi' = p_pid pi"
  shows "session_ready ((set_cache a rc' (s\<lparr>current_inferior := Some a\<rparr>))\<lparr>kst := k, current_thread := t,
      procs := (procs s)(p \<mapsto> pi'), server_waiting := w, status := st, sig := sg\<rparr>) a p pi' rc'"
  using assms by (auto simp: session_ready_def resume_ready_def ppc_cache_def current_cache_def cache_at_def
      current_proc_def set_cache_def PBUFSIZ_def registers_length_def)

context running_program
begin

lemma program_stops:
  assumes rep: "represents mem maps regs fregs W s c" and well: "runs_well W step sg c"
  shows "\<exists>s1 u st sn. myresume (darwin_ops K) step sg s = (Ret (), s1) \<and> mywait (darwin_ops K) False s1 = (Ret (st, sn), u)
    \<and> represents mem maps regs fregs W (u\<lparr>status := st, sig := sn\<rparr>) ((snd (run_program W step sg c))\<lparr>cl_fetched := False\<rparr>)
    \<and> net u = net s \<and> no_ack_mode u = no_ack_mode s"
proof -
  obtain a p pi rc where ready: "session_ready s a p pi rc" and pi: "p_pid pi = w_pid W" "p_thread pi = w_thread W"
    and c: "cl_regs c = thread_regs regs fregs s pi rc" and a: "current_inferior s = Some a"
    using represents_session [OF rep] by metis
  obtain signo v' after where
    r: "w_run W step sg (with_traps (cl_bps c) (cl_mem c)) (cl_regs c) = Some (signo, v', after)"
    and rt: "runs_to K regs fregs (\<lambda>k. (mem k (w_task W), maps k (w_task W))) pi (current_task s) step sg
      (thread_regs regs fregs s pi rc, mem (kst s) (w_task W), maps (kst s) (w_task W)) signo (w_thread W)
      (after, v', maps (kst s) (w_task W))"
    using runs_from [OF rep well pi c] by blast
  let ?pi = "pi\<lparr>p_thread := w_thread W, p_stopped := True\<rparr>" and ?rc = "rc\<lparr>registers_valid := False\<rparr>"
  let ?u = "\<lambda>k. (set_cache a ?rc (s\<lparr>current_inferior := Some a\<rparr>))\<lparr>kst := k, current_thread := w_thread W,
    procs := (procs s)(p \<mapsto> ?pi), server_waiting := server_waiting s\<rparr>"
  from run_stops [OF ready myresume_as [OF ready], where watch = "\<lambda>k. (mem k (w_task W), maps k (w_task W))", OF rt kcall_watched(3)]
  obtain s1 k where
    my: "myresume (darwin_ops K) step sg (s\<lparr>current_inferior := Some a\<rparr>) = (Ret (), s1)"
    and mw: "mywait (darwin_ops K) False s1 = (Ret (CHR ''T'', signo), ?u k)"
    and k: "ppc_image (regs k (w_thread W)) (fregs k (w_thread W)) = after"
      "(mem k (w_task W), maps k (w_task W)) = (v', maps (kst s) (w_task W))"
    by auto
  let ?v = "(?u k)\<lparr>status := CHR ''T'', sig := signo\<rparr>"
  have "length (registers ?rc) = 412"
    using ready ppc_cacheD(2) by (auto simp: session_ready_def resume_ready_def)
  then have sr: "session_ready ?v a p ?pi ?rc" by (rule session_after_stop [OF ready]) simp
  have v: "current_inferior ?v = Some a" "p_pid ?pi = w_pid W" "p_thread ?pi = w_thread W"
      "thread_regs regs fregs ?v ?pi ?rc = after" "kept_by_run ?v = kept_by_run s" "status ?v = CHR ''T''"
      "(mem (kst ?v) (w_task W), maps (kst ?v) (w_task W)) = (v', maps (kst s) (w_task W))" "sig ?v = signo" "kernel_regs regs fregs W (kst ?v) = after"
    using pi k by (simp_all add: thread_regs_def kept_by_run_def set_cache_def kernel_regs_def)
  have "represents mem maps regs fregs W ?v ((snd (run_program W step sg c))\<lparr>cl_fetched := False\<rparr>)"
    using represents_after_run [OF rep well r sr v(1-4) v(7) v(5,6,8,9)] by simp
  moreover have "net (?u k) = net s" "no_ack_mode (?u k) = no_ack_mode s" by (simp_all add: set_cache_def)
  ultimately show ?thesis using my mw same_inferior [OF a] by auto
qed

lemma entry_point_reached:
  assumes rep: "represents mem maps regs fregs W s c" and ok: "entry_reachable W file c" and none: "cl_bps c = []"
  shows "\<exists>u. run_to_entry_point (darwin_ops K) file s = (Ret (), u) \<and> represents mem maps regs fregs W u (at_entry W file c)
    \<and> net u = net s \<and> no_ack_mode u = no_ack_mode s"
proof -
  from ok obtain ep where ep: "macho_get_entry_point file = Ret ep"
      "ep \<noteq> 0 \<Longrightarrow> in_mem (cl_maps c) ep 4 \<and> runs_well W False 0 (c\<lparr>cl_bps := [ep]\<rparr>)"
    by (auto simp: entry_reachable_def)
  show ?thesis
  proof (cases "ep = 0")
    case True
    with rep ep(1) show ?thesis by (simp add: run_to_entry_point_def at_entry_def prog_simps)
  next
    case False
    let ?c = "c\<lparr>cl_bps := [ep]\<rparr>"
    from breakpoint_inserted [OF rep, of ep] ep(2) [OF False] none obtain s1 where
      s1: "set_breakpoint_at (darwin_ops K) ep None s = (Ret (), s1)" "represents mem maps regs fregs W s1 ?c"
        "connection_of s1 = connection_of s" by auto
    from program_stops [OF s1(2)] ep(2) [OF False] obtain s2 u st sn where
      s2: "myresume (darwin_ops K) False 0 s1 = (Ret (), s2)" "mywait (darwin_ops K) False s2 = (Ret (st, sn), u)" and
      u: "represents mem maps regs fregs W (u\<lparr>status := st, sig := sn\<rparr>)
          ((snd (run_program W False 0 ?c))\<lparr>cl_fetched := False\<rparr>)" "net u = net s1" "no_ack_mode u = no_ack_mode s1"
      by blast
    from breakpoint_removed [OF u(1), of ep] obtain v where
      v: "delete_breakpoint_at (darwin_ops K) ep (u\<lparr>status := st, sig := sn\<rparr>) = (Ret (), v)"
        "represents mem maps regs fregs W v (((snd (run_program W False 0 ?c))\<lparr>cl_fetched := False\<rparr>)
          \<lparr>cl_bps := filter (\<lambda>b. b \<noteq> ep) (cl_bps ((snd (run_program W False 0 ?c))\<lparr>cl_fetched := False\<rparr>))\<rparr>)"
        "connection_of v = connection_of (u\<lparr>status := st, sig := sn\<rparr>)" by blast
    have "cl_bps (snd (run_program W False 0 ?c)) = [ep]"
      by (simp add: run_program_def split: option.split)
    then have "represents mem maps regs fregs W v (at_entry W file c)"
      using v(2) ep(1) False by (simp add: at_entry_def)
    moreover have "run_to_entry_point (darwin_ops K) file s = (Ret (), v)"
      using ep(1) False s1(1) s2 v(1) by (simp add: run_to_entry_point_def prog_simps)
    ultimately show ?thesis using s1(3) u(2,3) v(3) by (auto simp: connection_of_def)
  qed
qed

lemma prepared:
  assumes b: "begun K W argv (kst s) k0" and stop: "first_stop K W signo k0 k" and s: "fresh s" "low_ready s"
    and att: "attached s = (fst (parse_args argv) = 1)"
    and ok: "startable W files argv (at_stop mem maps regs fregs W argv signo k)"
  shows "\<exists>u. prepare_inferior (darwin_ops K) files argv (snd (parse_args argv)) s = (Ret (), u)
    \<and> represents mem maps regs fregs W u (at_start W files argv (at_stop mem maps regs fregs W argv signo k))
    \<and> net u = net s \<and> no_ack_mode u = no_ack_mode s"
proof -
  let ?c = "at_stop mem maps regs fregs W argv signo k"
  obtain u where u: "prepare_inferior (darwin_ops K) files argv (snd (parse_args argv)) s =
      (if fst (parse_args argv) = 0 then run_to_entry_point (darwin_ops K) (files (argv ! 2)) u else (Ret (), u))"
      "represents mem maps regs fregs W u ?c" "net u = net s" "no_ack_mode u = no_ack_mode s"
    using begins [OF b stop s att, of files mem maps regs fregs] by blast
  show ?thesis
  proof (cases "fst (parse_args argv) = 0")
    case True
    with entry_point_reached [OF u(2), of "files (argv ! 2)"] ok u show ?thesis
      by (auto simp: startable_def at_start_def at_stop_def)
  qed (use u in \<open>auto simp: at_start_def\<close>)
qed

end

subsection \<open>Up to the connection\<close>

definition command_line :: "string list \<Rightarrow> string list" where
  \<comment> \<open>the arguments without the global options\<close>
  "command_line args = take 1 args @ fst (strip_options (drop 1 args))"

definition early :: "('k, 'z) server_state_scheme \<Rightarrow> ('k, 'z) server_state_scheme \<Rightarrow> bool" where
  \<comment> \<open>still fresh, with the kernel and the connection as before\<close>
  "early s t \<longleftrightarrow> fresh t \<and> kst t = kst s \<and> net t = net s \<and> no_ack_mode t = no_ack_mode s"

lemma options_read:
  assumes "fresh s"
  shows "\<exists>t u. init_logging env s = (Ret (), t) \<and> strip_global_options args t = (Ret (command_line args), u) \<and> early s u"
proof -
  obtain t where t: "init_logging env s = (Ret (), t)" "early s t"
    using assms by (cases env) (auto simp: init_logging_def atoi_log_def early_def fresh_def)
  obtain rest found where "strip_options (drop 1 args) = (rest, found)" by fastforce
  with t(2) obtain u where "strip_global_options args t = (Ret (command_line args), u)" "early s u"
    by (cases found) (auto simp: strip_global_options_def command_line_def early_def fresh_def)
  with t(1) show ?thesis by blast
qed

lemma initialize_low_eq:
  "initialize_low s = (Ret (), s\<lparr>breakpoint_data := Some (be32 ppc_breakpoint), breakpoint_len := 4, reg_defs := regs_ppc,
     register_bytes := 412, gdbserver_expedite_regs := expedite_regs_ppc\<rparr>)"
  by (simp add: initialize_low_def set_breakpoint_data_def init_registers_eq PPC_BREAKPOINT_LEN_def)

context running_program
begin

lemma server_starts:
  assumes b: "begun K W (command_line args) (kst s) k0" and stop: "first_stop K W signo k0 k" and s: "fresh s"
    and ok: "startable W files (command_line args) (at_stop mem maps regs fregs W (command_line args) signo k)"
  shows "\<exists>u. server_start (darwin_ops K) files env args s = (Ret (command_line args), u)
    \<and> represents mem maps regs fregs W u (at_start W files (command_line args) (at_stop mem maps regs fregs W (command_line args) signo k))
    \<and> net u = net s \<and> \<not> no_ack_mode u"
proof -
  let ?argv = "command_line args"
  obtain mode pid where p: "parse_args ?argv = (mode, pid)" by fastforce
  have mode: "mode \<noteq> - 1" using b p by (auto simp: begun_def)
  from options_read [OF s, of env args] obtain t0 t where
    t: "init_logging env s = (Ret (), t0)" "strip_global_options args t0 = (Ret ?argv, t)" "early s t" by blast
  let ?t = "t\<lparr>attached := (mode = 1), breakpoint_data := Some (be32 ppc_breakpoint), breakpoint_len := 4,
    reg_defs := regs_ppc, register_bytes := 412, gdbserver_expedite_regs := expedite_regs_ppc\<rparr>"
  let ?v = "?t\<lparr>own_buf := replicate 2000 NUL, mem_buf := replicate 2000 0\<rparr>"
  have size: "PBUFSIZ ?t = 2000" by (simp add: PBUFSIZ_def registers_length_def)
  have v: "fresh ?v" "low_ready ?v" "kst ?v = kst s" "net ?v = net s" "\<not> no_ack_mode ?v"
      "attached ?v = (fst (parse_args ?argv) = 1)"
    using t(3) p s by (simp_all add: early_def fresh_def low_ready_def)
  from prepared [OF _ stop v(1,2,6) ok, unfolded v(3), OF b] p obtain u where
    "prepare_inferior (darwin_ops K) files ?argv pid ?v = (Ret (), u)"
    and u: "represents mem maps regs fregs W u (at_start W files ?argv (at_stop mem maps regs fregs W ?argv signo k))"
      "net u = net s" "\<not> no_ack_mode u" using v(4,5) by auto
  then have "server_start (darwin_ops K) files env args s = (Ret ?argv, u)"
    using t(1,2) mode size by (simp add: server_start_def prog_simps p initialize_low_eq)
  with u show ?thesis by blast
qed

end

subsection \<open>The connection\<close>

definition connects :: "network \<Rightarrow> string \<Rightarrow> net \<Rightarrow> bool" where
  \<comment> \<open>the serial line can be opened, or a client connects to the port, which gets a first
    acknowledgement\<close>
  "connects N name conn \<longleftrightarrow> (if CHR '':'' \<in> set name
     then (\<exists>c. n_socket N \<and> n_bind N (word_of_int (atoi (drop 1 (dropWhile (\<lambda>c. c \<noteq> CHR '':'') name))))
       \<and> n_accept N (word_of_int (atoi (drop 1 (dropWhile (\<lambda>c. c \<noteq> CHR '':'') name)))) = Some c
       \<and> conn = snd (sock_write ''+'' c))
     else n_open N name = Some conn)"

lemma remote_opened:
  assumes "connects N name conn"
  shows "remote_open N name s = (Ret (), s\<lparr>net := conn, sigio_action := Sigio_ignored\<rparr>)"
proof (cases "CHR '':'' \<in> set name")
  case True
  then have "dropWhile (\<lambda>c. c \<noteq> CHR '':'') name \<noteq> []" by auto
  with True assms show ?thesis
    by (auto simp: connects_def remote_open_def open_tcp_def disable_async_io_def Let_def)
next
  case False
  then have "dropWhile (\<lambda>c. c \<noteq> CHR '':'') name = []" by auto
  with False assms show ?thesis
    by (simp add: connects_def remote_open_def open_serial_def disable_async_io_def Let_def)
qed

end
