(* ===== verification/StartProps.thy ===== *)
theory StartProps
  imports Demo
begin

section \<open>Properties of the start of the server and of a session\<close>

text \<open>
  The entry point that the server runs a new program to, read from the load commands of the executable,
  and the packet that turns acknowledgements off (src/server.c).
\<close>

subsection \<open>Load commands\<close>

definition load_command :: "32 word \<times> byte list \<Rightarrow> byte list" where
  \<comment> \<open>a load command as the linker lays it out: its number, its size, its data\<close>
  "load_command c = be32 (fst c) @ be32 (of_nat (8 + length (snd c))) @ snd c"

definition thread_command :: "64 word \<Rightarrow> 32 word \<Rightarrow> byte list \<Rightarrow> 32 word \<times> byte list" where
  \<comment> \<open>the state of the first thread: flavor and count, \<^verbatim>\<open>srr0\<close>, the other registers\<close>
  "thread_command flavor_count pc regs = (5, be64 flavor_count @ be32 pc @ regs)"

definition macho_file ::
  "(byte list) \<Rightarrow> (byte list) \<Rightarrow> (32 word \<times> byte list) list \<Rightarrow> byte list \<Rightarrow> byte list" where
  \<comment> \<open>an executable: magic number, 12 bytes on the processor and the type of the file, number and
    size of the commands, flags, the commands, the rest\<close>
  "macho_file kind flags cs rest = be32 0xfeedface @ kind @ be32 (of_nat (length cs))
     @ be32 (of_nat (length (concat (map load_command cs)))) @ flags
     @ concat (map load_command cs) @ rest"

lemma nat_be_be32 [simp]: "nat_be (be32 w) = unat w"
  using unsigned_less [of w, where ?'a = nat] by (simp add: be32_def nat_be_bytes_be)

lemma unat_size: "n < 2 ^ 32 \<Longrightarrow> unat (of_nat n :: 32 word) = n"
  by (simp add: unsigned_of_nat take_bit_nat_eq_self)

lemma word_at_be32: "word_at (pre @ be32 w @ post) (length pre) = Ret (unat w)"
  by (simp add: word_at_def)

lemma length_load_command [simp]: "length (load_command c) = 8 + length (snd c)"
  by (simp add: load_command_def)

lemma scan_skips:
  assumes "fst c \<noteq> 5" and "8 + length (snd c) < 2 ^ 32"
  shows "scan_commands (pre @ load_command c @ post) (length pre) (Suc n) =
    scan_commands (pre @ load_command c @ post) (length (pre @ load_command c)) n"
proof -
  have "unat (fst c) \<noteq> LC_UNIXTHREAD"
    using assms(1) by (auto simp: LC_UNIXTHREAD_def dest!: arg_cong [of "unat _" _ "of_nat :: nat \<Rightarrow> 32 word"])
  moreover have "word_at (pre @ load_command c @ post) (length pre) = Ret (unat (fst c))"
    using word_at_be32 [of pre "fst c"] by (simp add: load_command_def)
  moreover have "word_at (pre @ load_command c @ post) (length pre + 4) = Ret (8 + length (snd c))"
    using word_at_be32 [of "pre @ be32 (fst c)" "of_nat (8 + length (snd c))" "snd c @ post"]
      unat_size [OF assms(2)] by (simp add: load_command_def)
  ultimately show ?thesis by (simp add: ac_simps)
qed

lemma scan_finds:
  "scan_commands (pre @ load_command (thread_command f pc regs) @ post) (length pre) (Suc n) =
     Ret (uint pc)"
proof -
  let ?c = "thread_command f pc regs"
  have "word_at (pre @ load_command ?c @ post) (length pre) = Ret LC_UNIXTHREAD"
    using word_at_be32 [of pre 5] by (simp add: load_command_def thread_command_def LC_UNIXTHREAD_def)
  moreover have "word_at (pre @ load_command ?c @ post) (length pre + 8 + 4 * 2) = Ret (unat pc)"
    using word_at_be32 [of "pre @ be32 5 @ be32 (of_nat (8 + length (snd ?c))) @ be64 f" pc "regs @ post"]
    by (simp add: load_command_def thread_command_def ac_simps)
  ultimately show ?thesis by simp
qed

lemma scan_all:
  assumes "\<forall>c \<in> set cs. fst c \<noteq> 5 \<and> 8 + length (snd c) < 2 ^ 32"
  shows "scan_commands (pre @ concat (map load_command cs) @ load_command (thread_command f pc regs) @ post)
      (length pre) (length cs + Suc n) = Ret (uint pc)"
  using assms
proof (induction cs arbitrary: pre)
  case Nil
  show ?case using scan_finds [of pre f pc regs post n] by simp
next
  case (Cons c cs)
  then show ?case
    using scan_skips [of c pre "concat (map load_command cs) @ load_command (thread_command f pc regs) @ post"]
      Cons.IH [of "pre @ load_command c"] by simp
qed

text \<open>
  C28: The entry point of a well-formed executable is found: whatever commands come before the state of
  its first thread, after it and after the commands, the result is the program counter of that state.
\<close>

theorem entry_point_is_found:
  fixes cs after :: "(32 word \<times> byte list) list" and f :: "64 word" and pc :: "32 word" and regs :: "byte list"
  defines "all \<equiv> cs @ thread_command f pc regs # after"
  assumes "length kind = 12" and "length flags = 4"
    and "\<forall>c \<in> set cs. fst c \<noteq> 5 \<and> 8 + length (snd c) < 2 ^ 32"
    and "length all < 2 ^ 32" and "length (concat (map load_command all)) < 2 ^ 32"
  shows "macho_get_entry_point (Some (macho_file kind flags all rest)) = Ret (uint pc)"
proof -
  let ?cmds = "concat (map load_command all)"
  let ?file = "macho_file kind flags all rest"
  have "take 4 ?file = be32 0xfeedface" "take 4 (drop 16 ?file) = be32 (of_nat (length all))"
    "take 4 (drop 20 ?file) = be32 (of_nat (length ?cmds))" "drop 28 ?file = ?cmds @ rest"
    "28 \<le> length ?file"
    using assms(2,3) by (simp_all add: macho_file_def)
  moreover have "scan_commands ?cmds 0 (length all) = Ret (uint pc)"
    using scan_all [OF assms(4), of "[]" f pc regs "concat (map load_command after)" "length after"]
    by (simp add: all_def)
  ultimately show ?thesis
    using unat_size [OF assms(5)] unat_size [OF assms(6)]
    by (simp add: macho_get_entry_point_def MH_MAGIC_def)
qed

theorem entry_point_is_found_witness:
  "macho_get_entry_point (Some (macho_file (replicate 12 0) (replicate 4 0)
      ([(1, replicate 48 0)] @ thread_command 0 4096 (replicate 4 0) # [(2, [])]) [7])) = Ret 4096"
  using entry_point_is_found [of "replicate 12 0" "replicate 4 0" "[(1, replicate 48 0)]" 0 4096
      "replicate 4 0" "[(2, [])]" "[7]"] by (simp add: thread_command_def)

subsection \<open>Acknowledgements\<close>

text \<open>
  C38: The OK that answers the packet QStartNoAckMode is itself sent without waiting for an
  acknowledgement, because the handler turns acknowledgements off before the reply is sent: the frame
  goes out once and no input is read.
\<close>

theorem no_ack_from_the_reply_on:
  assumes "cstr (own_buf s) 0 = ''QStartNoAckMode''" and "tx_script (net s) = []"
  shows "\<exists>t u. handle_set s = (Ret (), t) \<and> no_ack_mode t \<and> putpkt T t = (Ret 1, u)
    \<and> net u = (net s)\<lparr>tx := tx (net s) @ frame ''OK''\<rparr>"
proof -
  have "length (cstr (own_buf s) 0) \<le> length (own_buf s)" by (simp add: cstr_def length_takeWhile_le)
  then have l: "2 < length (own_buf s)" using assms(1) by simp
  let ?t = "s\<lparr>own_buf := overwrite (own_buf s) 0 (''OK'' @ [NUL]), no_ack_mode := True\<rparr>"
  have "handle_set s = (Ret (), ?t)"
    using assms(1) l by (simp add: handle_set_def prog_simps)
  moreover have size: "\<not> PBUFSIZ ?t < Suc (length (frame ''OK''))"
    by (simp add: PBUFSIZ_def frame_def)
  moreover have "putpkt T ?t = (Ret 1, ?t\<lparr>net := (net s)\<lparr>tx := tx (net s) @ frame ''OK''\<rparr>\<rparr>)"
    using assms(2) size
    by (simp add: putpkt_def putpkt_string_def packet_def putpkt_loop.simps sock_write_def prog_simps)
  ultimately show ?thesis by (intro exI [of _ ?t] exI) auto
qed

theorem no_ack_from_the_reply_on_witness:
  "\<exists>t u. handle_set (demo_server (demo_cache True) ''QStartNoAckMode'') = (Ret (), t) \<and> no_ack_mode t
    \<and> putpkt (darwin_ops flat_kernel) t = (Ret 1, u) \<and> tx (net u) = frame ''OK''"
proof -
  have "tx_script (net (demo_server (demo_cache True) ''QStartNoAckMode'')) = []"
    "tx (net (demo_server (demo_cache True) ''QStartNoAckMode'')) = []"
    by (simp_all add: demo_server_def demo_net_def)
  with no_ack_from_the_reply_on [OF demo_packet [of "''QStartNoAckMode''" "demo_cache True"], of "darwin_ops flat_kernel"]
  show ?thesis by (fastforce simp: NUL_def)
qed

end
