(* ===== verification/MainProps.thy ===== *)
theory MainProps
  imports ClientProps Launch StartProps
begin

section \<open>The whole program\<close>

text \<open>
  \<^verbatim>\<open>main\<close> (src/server.c) from the command line to its return: the start-up of theory \<open>Launch\<close>, the
  connection, and the session of theory \<open>ClientTurns\<close> until the client hangs up, or an ending of theory \<open>ClientEnd\<close>.
\<close>

context running_program
begin

lemma main_reaches_loop:
  fixes s :: "('k, 'z) server_state_scheme"
  assumes s: "fresh s" and argv: "argv = command_line args" and b: "begun K W argv (kst s) k0"
    and stop: "first_stop K W signo k0 k" and ok: "startable W files argv (at_stop mem maps regs fregs W argv signo k)"
    and c: "c = at_start W files argv (at_stop mem maps regs fregs W argv signo k)"
    and net: "connects N (argv ! 1) conn"
  obtains u :: "('k, 'z) server_state_scheme" where
    "main K (w_host W) (darwin_ops K) files env N args s = seq_p (packet_loop K (w_host W) (darwin_ops K) argv) remote_close u"
    and "represents mem maps regs fregs W u c" and "\<not> no_ack_mode u" and "net u = conn" and "length (own_buf u) = 2000"
proof -
  from server_starts [OF b [unfolded argv] stop s ok [unfolded argv], of env] obtain u where
    u: "server_start (darwin_ops K) files env args s = (Ret argv, u)" "represents mem maps regs fregs W u c"
      "\<not> no_ack_mode u" unfolding argv [symmetric] c [symmetric] by blast
  let ?u = "u\<lparr>net := conn, sigio_action := Sigio_ignored\<rparr>"
  have rep: "represents mem maps regs fregs W ?u c"
    using represents_modes(4) [OF represents_net [OF u(2)]] .
  moreover have "main K (w_host W) (darwin_ops K) files env N args s =
      seq_p (packet_loop K (w_host W) (darwin_ops K) argv) remote_close ?u"
    using u(1) remote_opened [OF net, of u] by (simp add: main_def catch_exit_def prog_simps bind_p_def seq_p_def)
  ultimately show thesis using that u(3) represents_size [OF rep] by simp
qed

lemma main_session:
  fixes s :: "('k, 'z) server_state_scheme"
  assumes "fresh s" and "argv = command_line args" and "begun K W argv (kst s) k0"
    and "first_stop K W signo k0 k" and "startable W files argv (at_stop mem maps regs fregs W argv signo k)"
    and "c = at_start W files argv (at_stop mem maps regs fregs W argv signo k)"
    and "connects N (argv ! 1) conn"
    and session: "\<And>u :: ('k, 'z) server_state_scheme. represents mem maps regs fregs W u c \<Longrightarrow> \<not> no_ack_mode u \<Longrightarrow>
      net u = conn \<Longrightarrow> length (own_buf u) = 2000 \<Longrightarrow>
      \<exists>t. packet_loop_from K (w_host W) (darwin_ops K) argv u = Some (Ret (), t)
        \<and> represents mem maps regs fregs W t c' \<and> tx (net t) = out"
  shows "\<exists>t. main K (w_host W) (darwin_ops K) files env N args s = (Ret (), t)
    \<and> represents mem maps regs fregs W t c' \<and> \<not> no_ack_mode t \<and> tx (net t) = out"
proof -
  obtain u :: "('k, 'z) server_state_scheme" where
    u: "main K (w_host W) (darwin_ops K) files env N args s = seq_p (packet_loop K (w_host W) (darwin_ops K) argv) remote_close u"
      "represents mem maps regs fregs W u c" "\<not> no_ack_mode u" "net u = conn" "length (own_buf u) = 2000"
    using main_reaches_loop [OF assms(1-7)] by blast
  from session [OF u(2-5)] obtain t where
    t: "packet_loop_from K (w_host W) (darwin_ops K) argv u = Some (Ret (), t)"
      "represents mem maps regs fregs W t c'" "tx (net t) = out" by auto
  let ?t = "t\<lparr>no_ack_mode := False, no_ack_mode_pending := False\<rparr>"
  have "main K (w_host W) (darwin_ops K) files env N args s = (Ret (), ?t)"
    using u(1) packet_loop_Some [OF t(1)] by (simp add: prog_simps remote_close_def)
  with represents_modes(2) [OF represents_modes(1) [OF t(2), of False], of False] t(3) show ?thesis
    by (intro exI [of _ ?t]) simp
qed

lemma main_to_end:
  fixes s :: "('k, 'z) server_state_scheme"
  assumes "fresh s" and "argv = command_line args" and "begun K W argv (kst s) k0"
    and "first_stop K W signo k0 k" and "startable W files argv (at_stop mem maps regs fregs W argv signo k)"
    and "c = at_start W files argv (at_stop mem maps regs fregs W argv signo k)"
    and "connects N (argv ! 1) conn"
    and session: "\<And>u :: ('k, 'z) server_state_scheme. represents mem maps regs fregs W u c \<Longrightarrow> \<not> no_ack_mode u \<Longrightarrow>
      net u = conn \<Longrightarrow> length (own_buf u) = 2000 \<Longrightarrow>
      \<exists>t. packet_loop_from K (w_host W) (darwin_ops K) argv u = Some (Quit n, t) \<and> P t"
  shows "\<exists>t. main K (w_host W) (darwin_ops K) files env N args s = (Quit n, t) \<and> P t"
proof -
  obtain u :: "('k, 'z) server_state_scheme" where
    u: "main K (w_host W) (darwin_ops K) files env N args s = seq_p (packet_loop K (w_host W) (darwin_ops K) argv) remote_close u"
      "represents mem maps regs fregs W u c" "\<not> no_ack_mode u" "net u = conn" "length (own_buf u) = 2000"
    using main_reaches_loop [OF assms(1-7)] by blast
  from session [OF u(2-5)] obtain t where "packet_loop_from K (w_host W) (darwin_ops K) argv u = Some (Quit n, t)" "P t"
    by blast
  with u(1) packet_loop_Some [OF this(1)] show ?thesis by (simp add: prog_simps)
qed

end

subsection \<open>A server to start\<close>

definition demo_file :: "byte list" where
  \<comment> \<open>an executable whose only load command is the state of a thread that begins at 8192\<close>
  "demo_file = be32 0xfeedface @ replicate 12 0 @ be32 1 @ be32 20 @ replicate 4 0
     @ be32 5 @ be32 20 @ be64 0 @ be32 8192"

definition demo_files :: "string \<Rightarrow> byte list option" where
  "demo_files path = (if path = ''prog'' then Some demo_file else None)"

definition demo_args :: "string list" where
  "demo_args = [''gdbserver'', ''--remote-debug'', ''host:2159'', ''prog'', ''x'']"

definition demo_fresh :: "flat server_state" where
  "demo_fresh = (demo_server (demo_cache False) [])\<lparr>kst := demo_kernel_state [], entries := Map.empty, threads := Map.empty, heap_brk := 0,
     all_threads := empty_list, current_inferior := None, procs := Map.empty, all_processes := empty_list\<rparr>"

definition demo_connection :: "string list \<Rightarrow> net" where
  \<comment> \<open>each packet in two chunks after a damaged packet, and each reply asked for twice\<close>
  "demo_connection ps = \<lparr>rc_buf = [], rx = concat (map (\<lambda>p. demo_chunks p @ [Rx_bytes ''-+'']) ps), tx = [],
     tx_script = []\<rparr>"

definition demo_network :: "string list \<Rightarrow> network" where
  "demo_network ps = \<lparr>n_open = \<lambda>_. None, n_socket = True, n_bind = \<lambda>port. port = 2159,
     n_accept = \<lambda>port. Some (demo_connection ps)\<rparr>"

lemma demo_entry: "macho_get_entry_point (Some demo_file) = Ret 8192"
  by (simp add: macho_get_entry_point_def demo_file_def MH_MAGIC_def LC_UNIXTHREAD_def word_at_def Let_def)

lemma demo_fresh: "fresh demo_fresh" "no_ack_mode demo_fresh = False"
  by (simp_all add: fresh_def demo_fresh_def demo_server_def)

lemma demo_command_line: "command_line demo_args = [''gdbserver'', ''host:2159'', ''prog'', ''x'']"
  by (simp add: command_line_def demo_args_def)

lemma demo_mode: "parse_args [''gdbserver'', ''host:2159'', ''prog'', ''x''] = (0, 0)"
  by (simp add: parse_args_def)

lemma demo_begun: "begun running_kernel demo_world (command_line demo_args) k k"
  by (simp add: begun_def demo_command_line demo_mode) (simp add: running_kernel_def flat_kernel_def demo_world_def)

lemma demo_stops: "first_stop running_kernel demo_world 5 (kst demo_fresh) (kst demo_fresh)"
proof -
  have "fl_waits (kst demo_fresh) = []" by (simp add: demo_fresh_def demo_server_def demo_kernel_state_def)
  then have "wait_loop running_kernel 100 (kst demo_fresh) = Some (WaitDone (WStopped 5), kst demo_fresh)"
    by (simp add: wait_loop.simps running_kernel_def)
  then show ?thesis
    by (simp add: first_stop_def demo_world_def MACH_PORT_NULL_def) (simp add: running_kernel_def flat_kernel_def)
qed

lemma demo_port: "atoi ''2159'' = 2159"
  by code_simp

lemma demo_connects: "connects (demo_network ps) (command_line demo_args ! 1) (snd (sock_write ''+'' (demo_connection ps)))"
  by (simp add: connects_def demo_command_line demo_network_def) (simp add: demo_port)

definition demo_start :: "string list \<Rightarrow> client" where
  \<comment> \<open>the program at its first stop\<close>
  "demo_start argv = at_stop flat_mem flat_maps fl_regs fl_fregs demo_world argv 5 (kst demo_fresh)"

lemma demo_start_fields:
  "cl_mem (demo_start argv) = (\<lambda>_. 0)" "cl_maps (demo_start argv) = {0..<2147483648}" "cl_bps (demo_start argv) = []"
  "cl_regs (demo_start argv) = ppc_image demo_regs demo_fregs"
  by (simp_all add: demo_start_def at_stop_def demo_fresh_def demo_server_def demo_kernel_state_def flat_mem_def
      flat_maps_def)

lemma demo_entered:
  "startable demo_world demo_files (command_line demo_args) (demo_start (command_line demo_args))"
  "at_start demo_world demo_files (command_line demo_args) (demo_start (command_line demo_args)) =
     (demo_start (command_line demo_args))\<lparr>cl_mem := (\<lambda>_. 0)(12288 := 1), cl_stored := True, cl_signo := 5, cl_fetched := False, cl_bps := []\<rparr>"
proof -
  let ?c = "(demo_start (command_line demo_args))\<lparr>cl_bps := [8192]\<rparr>"
  have run: "runs_well demo_world False 0 ?c"
    "run_program demo_world False 0 ?c = (stop_text 5 (ppc_image demo_regs demo_fregs) 100,
       ?c\<lparr>cl_mem := (\<lambda>_. 0)(12288 := 1), cl_fetched := True, cl_stored := True, cl_signo := 5\<rparr>)"
    using demo_run [of "[8192]" ?c 0 False] demo_traps [of "[8192]" "\<lambda>_. 0"] by (simp_all add: demo_start_fields)
  have prog: "demo_files ''prog'' = Some demo_file" by (simp add: demo_files_def)
  show "startable demo_world demo_files (command_line demo_args) (demo_start (command_line demo_args))"
    using run(1) by (simp add: startable_def demo_command_line prog entry_reachable_def demo_entry demo_start_fields
        in_mem_def)
  show "at_start demo_world demo_files (command_line demo_args) (demo_start (command_line demo_args)) =
      (demo_start (command_line demo_args))\<lparr>cl_mem := (\<lambda>_. 0)(12288 := 1), cl_stored := True, cl_signo := 5, cl_fetched := False, cl_bps := []\<rparr>"
    using run(2) by (simp add: at_start_def demo_command_line demo_mode prog at_entry_def demo_entry)
qed

subsection \<open>The properties\<close>

text \<open>
  C1: The program does what it is there for: started from its command line, with or without \<^verbatim>\<open>--attach\<close>,
  over a kernel that starts or attaches to the process, \<^verbatim>\<open>main\<close> brings a new program to its entry point
  without a trace of the breakpoint used for it, accepts the client and serves it as the machine of
  its requests: with the replies of that machine, acknowledged and repeated as the client asks.  When the
  client hangs up it returns, with the program in the state of the machine.
\<close>

theorem main_serves_its_client:
  fixes s :: "('k, 'z) server_state_scheme"
  assumes "running_program K mem maps writable regs fregs W" and "fresh s" and "argv = command_line args"
    and "begun K W argv (kst s) k0" and "first_stop K W signo k0 k"
    and "startable W files argv (at_stop mem maps regs fregs W argv signo k)"
    and "c = at_start W files argv (at_stop mem maps regs fregs W argv signo k)"
    and "connects N (argv ! 1) conn" and "acked_script 2000 (map (\<lambda>(d, r). (d, packet_of r)) conv) [] conn"
    and "acceptable_all W (map snd conv) c"
  shows "\<exists>t. main K (w_host W) (darwin_ops K) files env N args s = (Ret (), t)
    \<and> represents mem maps regs fregs W t (snd (serve_all W (map snd conv) c)) \<and> \<not> no_ack_mode t
    \<and> tx (net t) = tx conn @ concat (map2 acked_answer (map fst conv) (fst (serve_all W (map snd conv) c)))"
proof (rule running_program.main_session [OF assms(1-8)])
  note served = client_session.session_served [OF client_session.intro [OF client_turns.intro [OF assms(1)
        acked.turns_axioms] acked.transport_axioms]]
  fix u :: "('k, 'z) server_state_scheme"
  assume "represents mem maps regs fregs W u c" and u: "\<not> no_ack_mode u" "net u = conn" "length (own_buf u) = 2000"
  from served [OF this(1) assms(10), of argv] u assms(9)
  show "\<exists>t. packet_loop_from K (w_host W) (darwin_ops K) argv u = Some (Ret (), t)
      \<and> represents mem maps regs fregs W t (snd (serve_all W (map snd conv) c))
      \<and> tx (net t) = tx conn @ concat (map2 acked_answer (map fst conv) (fst (serve_all W (map snd conv) c)))"
    by (simp add: acked_input_def acked_before_def)
qed

theorem main_serves_its_client_witness:
  "\<exists>t. main running_kernel darwin_host (darwin_ops running_kernel) demo_files (Some ''1'')
      (demo_network (map packet_of [Ask_stop, Read_memory 12288 1])) demo_args demo_fresh = (Ret (), t)
    \<and> tx (net t) = ''+'' @ concat (map (\<lambda>r. ''-+'' @ frame r @ frame r)
        [stop_text 5 (ppc_image demo_regs demo_fregs) 100, hex_bytes [1]])"
proof -
  let ?rs = "[Ask_stop, Read_memory 12288 1]"
  let ?conv = "map (\<lambda>r. (demo_delivery (packet_of r), r)) ?rs"
  let ?conn = "snd (sock_write ''+'' (demo_connection (map packet_of ?rs)))"
  let ?c = "(demo_start (command_line demo_args))\<lparr>cl_mem := (\<lambda>_. 0)(12288 := 1), cl_stored := True, cl_signo := 5, cl_fetched := False, cl_bps := []\<rparr>"
  have "corrupt 2000 (''g'', 6, 6)" by (simp add: corrupt_def c7_ascii byte_of_char_def)
  then have script: "acked_script 2000 (map (\<lambda>(d, r). (d, packet_of r)) ?conv) [] ?conn"
    by (simp add: acked_script_def demo_connection_def demo_delivery_def demo_delivery_chunks sock_write_all)
  have f: "w_pid demo_world = 100" "w_host demo_world = darwin_host" by (simp_all add: demo_world_def)
  have ac: "acceptable_all demo_world (map snd ?conv) ?c"
    using demo_signal by (simp add: demo_start_fields in_mem_def)
  have serve: "fst (serve_all demo_world (map snd ?conv) ?c) =
      [stop_text 5 (ppc_image demo_regs demo_fregs) 100, hex_bytes [1]]"
    using demo_signal(1) f(1) by (simp add: demo_start_fields in_mem_def mem_bytes_def)
  obtain t where
    "main running_kernel (w_host demo_world) (darwin_ops running_kernel) demo_files (Some ''1'') (demo_network (map packet_of ?rs))
      demo_args demo_fresh = (Ret (), t)"
    "tx (net t) = tx ?conn @ concat (map2 acked_answer (map fst ?conv) (fst (serve_all demo_world (map snd ?conv) ?c)))"
    using main_serves_its_client [OF counting.running_program_axioms demo_fresh(1) refl demo_begun demo_stops
        demo_entered(1) [unfolded demo_start_def] demo_entered(2) [unfolded demo_start_def, symmetric] demo_connects
        script ac [unfolded demo_start_def], of "Some ''1''"]
    unfolding demo_start_def [symmetric] by blast
  then show ?thesis
    unfolding serve f(2) by (simp add: demo_delivery_def demo_connection_def sock_write_all)
qed

text \<open>
  C2: The same for a session that begins as gdb begins it: after some acknowledged requests the client turns
  acknowledgements off with \<^verbatim>\<open>QStartNoAckMode\<close>.  The OK goes out once; the client may acknowledge it, which is
  skipped like any stray character, and what comes after it is served without acknowledgements, across the change
  by the same machine.  The next session starts with acknowledgements again.
\<close>

theorem main_serves_in_both_modes:
  fixes s :: "('k, 'z) server_state_scheme"
  assumes "running_program K mem maps writable regs fregs W" and "fresh s" and "argv = command_line args"
    and "begun K W argv (kst s) k0" and "first_stop K W signo k0 k"
    and "startable W files argv (at_stop mem maps regs fregs W argv signo k)"
    and "c = at_start W files argv (at_stop mem maps regs fregs W argv signo k)"
    and "connects N (argv ! 1) conn" and "acked_script 2000 (map (\<lambda>(d, r). (d, packet_of r)) conv) (evs @ rest) conn"
    and "switch_script 2000 ps evs (map (\<lambda>(cs, r). (cs, packet_of r)) conv') rest"
    and "acceptable_all W (map snd conv) c"
    and "acceptable_all W (map snd conv') (snd (serve_all W (map snd conv) c))"
  shows "\<exists>t. main K (w_host W) (darwin_ops K) files env N args s = (Ret (), t)
    \<and> represents mem maps regs fregs W t (snd (serve_all W (map snd conv') (snd (serve_all W (map snd conv) c))))
    \<and> \<not> no_ack_mode t
    \<and> tx (net t) = tx conn @ concat (map2 acked_answer (map fst conv) (fst (serve_all W (map snd conv) c)))
        @ replicate (length ps) (CHR ''-'') @ ''+'' @ frame ''OK''
        @ concat (map2 plain_answer (map fst conv')
            (fst (serve_all W (map snd conv') (snd (serve_all W (map snd conv) c)))))"
proof (rule running_program.main_session [OF assms(1-8)])
  fix u :: "('k, 'z) server_state_scheme"
  assume rep: "represents mem maps regs fregs W u c" and u: "\<not> no_ack_mode u" "net u = conn" "length (own_buf u) = 2000"
  have "acked_before (evs @ rest) (map (\<lambda>(d, r). (d, packet_of r)) conv) u"
    using u assms(9) by (simp add: acked_before_def)
  from session_switched [OF assms(1) rep assms(11,12) this assms(10) [folded u(3)], of argv] u(2)
  show "\<exists>t. packet_loop_from K (w_host W) (darwin_ops K) argv u = Some (Ret (), t)
      \<and> represents mem maps regs fregs W t (snd (serve_all W (map snd conv') (snd (serve_all W (map snd conv) c))))
      \<and> tx (net t) = tx conn @ concat (map2 acked_answer (map fst conv) (fst (serve_all W (map snd conv) c)))
          @ replicate (length ps) (CHR ''-'') @ ''+'' @ frame ''OK''
          @ concat (map2 plain_answer (map fst conv')
              (fst (serve_all W (map snd conv') (snd (serve_all W (map snd conv) c)))))"
    by simp
qed

definition demo_attach :: "string list" where
  "demo_attach = [''gdbserver'', ''/dev/cu'', ''--attach'', ''100'']"

definition demo_line :: net where
  \<comment> \<open>a serial line with the stop asked for, the change of the mode, the acknowledgement of the OK, and memory
    read without acknowledgements\<close>
  "demo_line = \<lparr>rc_buf = [], rx = (demo_chunks (packet_of Ask_stop) @ [Rx_bytes ''-+'']) @ [Rx_bytes (frame ''QStartNoAckMode'')]
     @ [Rx_bytes ''+'', Rx_bytes (frame (packet_of (Read_memory 12288 1)))], tx = [], tx_script = []\<rparr>"

lemma demo_attached:
  "command_line demo_attach = demo_attach" "parse_args demo_attach = (1, 100)"
  "begun running_kernel demo_world demo_attach k k"
  "connects ((demo_network [])\<lparr>n_open := \<lambda>name. Some demo_line\<rparr>) (demo_attach ! 1) demo_line"
  "startable demo_world demo_files demo_attach c" "at_start demo_world demo_files demo_attach c = c"
proof -
  show "command_line demo_attach = demo_attach" by (simp add: command_line_def demo_attach_def)
  have "strtoul 10 ''100'' = (100, [])" by code_simp
  then show p: "parse_args demo_attach = (1, 100)" by (simp add: parse_args_def demo_attach_def)
  show "begun running_kernel demo_world demo_attach k k"
    using p by (simp add: begun_def) (simp add: running_kernel_def flat_kernel_def demo_world_def)
  show "connects ((demo_network [])\<lparr>n_open := \<lambda>name. Some demo_line\<rparr>) (demo_attach ! 1) demo_line"
    by (simp add: connects_def demo_attach_def)
  show "startable demo_world demo_files demo_attach c" "at_start demo_world demo_files demo_attach c = c"
    using p by (simp_all add: startable_def at_start_def)
qed

theorem main_serves_in_both_modes_witness:
  "\<exists>t. main running_kernel darwin_host (darwin_ops running_kernel) demo_files None
      ((demo_network [])\<lparr>n_open := \<lambda>name. Some demo_line\<rparr>) demo_attach demo_fresh = (Ret (), t)
    \<and> tx (net t) = ''-+'' @ frame (stop_text 5 (ppc_image demo_regs demo_fregs) 100)
        @ frame (stop_text 5 (ppc_image demo_regs demo_fregs) 100) @ ''+'' @ frame ''OK'' @ frame (hex_bytes [0])"
proof -
  let ?conv = "[(demo_delivery (packet_of Ask_stop), Ask_stop)]" and ?conv' = "[(''+'', Read_memory 12288 1)]"
  let ?evs = "[Rx_bytes (frame ''QStartNoAckMode'')]" and ?rest = "[Rx_bytes ''+'', Rx_bytes (frame (packet_of (Read_memory 12288 1)))]"
  have "corrupt 2000 (''g'', 6, 6)" by (simp add: corrupt_def c7_ascii byte_of_char_def)
  then have script: "acked_script 2000 (map (\<lambda>(d, r). (d, packet_of r)) ?conv) (?evs @ ?rest) demo_line"
    by (simp add: acked_script_def demo_line_def demo_delivery_def demo_delivery_chunks)
  have switch: "switch_script 2000 [] ?evs (map (\<lambda>(cs, r). (cs, packet_of r)) ?conv') ?rest"
    by (simp add: switch_script_def chunk_def) (simp add: frame_def)
  have f: "w_pid demo_world = 100" "w_host demo_world = darwin_host" "cl_signo (demo_start demo_attach) = 5"
    by (simp_all add: demo_world_def demo_start_def at_stop_def)
  have ac: "acceptable_all demo_world (map snd ?conv) (demo_start demo_attach)"
    "acceptable_all demo_world (map snd ?conv') (snd (serve_all demo_world (map snd ?conv) (demo_start demo_attach)))"
    using demo_signal by (simp_all add: demo_start_fields in_mem_def f)
  have serve: "fst (serve_all demo_world (map snd ?conv) (demo_start demo_attach)) = [stop_text 5 (ppc_image demo_regs demo_fregs) 100]"
    "fst (serve_all demo_world (map snd ?conv') (snd (serve_all demo_world (map snd ?conv) (demo_start demo_attach)))) = [hex_bytes [0]]"
    using demo_signal(1) f(1,3) by (simp_all add: demo_start_fields in_mem_def mem_bytes_def)
  from main_serves_in_both_modes [OF counting.running_program_axioms demo_fresh(1) demo_attached(1) [symmetric]
      demo_attached(3) demo_stops demo_attached(5) demo_attached(6) [symmetric] demo_attached(4) script switch
      ac [unfolded demo_start_def], of None, folded demo_start_def]
  show ?thesis
    unfolding serve f(2) by (auto simp: demo_delivery_def demo_line_def plain_answer_def)
qed

text \<open>
  C3: The program ends with the session: after any requests the client kills the process, detaches from it, or
  lets it run until it exits or is killed.  Then \<^verbatim>\<open>main\<close> exits with status 0, whatever else is on the
  connection.  The client has its answers, the last of them the OK of the detaching or the exit status or signal.  The
  process was killed with the machine's memory and waited for; or, if the client has not written registers since the
  program last ran, it was detached from with the memory and the registers of the machine and, if the server had started
  it, waited for to its end; or it was resumed with the machine's memory, its registers and the signal asked for, and
  waited for until it ended as it does from there.
\<close>

theorem main_ends_with_its_client:
  fixes s :: "('k, 'z) server_state_scheme"
  assumes "running_program K mem maps writable regs fregs W" and "fresh s" and "argv = command_line args"
    and "begun K W argv (kst s) k0" and "first_stop K W signo k0 k"
    and "startable W files argv (at_stop mem maps regs fregs W argv signo k)"
    and "c = at_start W files argv (at_stop mem maps regs fregs W argv signo k)"
    and "connects N (argv ! 1) conn"
    and "acked_script 2000 (map (\<lambda>(d, r). (d, packet_of r)) conv @ [(d, end_packet e)]) rest conn"
    and "acceptable_all W (map snd conv) c" and "may_end W e (snd (serve_all W (map snd conv) c))"
    and "\<And>k. e = Detach \<Longrightarrow> \<not> cl_attached c \<Longrightarrow>
      holds_program mem maps regs fregs W (snd (serve_all W (map snd conv) c)) k \<Longrightarrow>
      \<exists>k'. detach_wait K (w_pid W) (snd (k_ptrace K PT_DETACH (w_pid W) 1 0 k)) = Some ((), k')"
  shows "\<exists>t. main K (w_host W) (darwin_ops K) files env N args s = (Quit 0, t)
    \<and> left_by mem maps regs fregs K W e (snd (serve_all W (map snd conv) c)) (kst t)
    \<and> tx (net t) = tx conn @ concat (map2 acked_answer (map fst conv) (fst (serve_all W (map snd conv) c)))
        @ acked_heard d
        @ (case end_answer W e (snd (serve_all W (map snd conv) c)) of None \<Rightarrow> [] | Some r \<Rightarrow> acked_said d r)"
proof (rule running_program.main_to_end [OF assms(1-8)])
  note served = client_turns.session_to_end [OF client_turns.intro [OF assms(1) acked_then.turns_axioms]]
  fix u :: "('k, 'z) server_state_scheme"
  assume "represents mem maps regs fregs W u c" and u: "\<not> no_ack_mode u" "net u = conn" "length (own_buf u) = 2000"
  from served [OF this(1) assms(10,11) _ assms(12), of rest d argv] u assms(9)
  show "\<exists>t. packet_loop_from K (w_host W) (darwin_ops K) argv u = Some (Quit 0, t)
      \<and> left_by mem maps regs fregs K W e (snd (serve_all W (map snd conv) c)) (kst t)
      \<and> tx (net t) = tx conn @ concat (map2 acked_answer (map fst conv) (fst (serve_all W (map snd conv) c)))
        @ acked_heard d
        @ (case end_answer W e (snd (serve_all W (map snd conv) c)) of None \<Rightarrow> [] | Some r \<Rightarrow> acked_said d r)"
    by (simp add: acked_before_def)
qed

lemma darwin_kill_number: "target_signal_from_host darwin_host 9 = Ret 9"
  by (rule darwin_signal, simp add: to_host_tables host_value_darwin, simp_all add: darwin_host_def)

lemma hex_byte_09: "hex_byte 9 = ''09''"
  by code_simp

lemma demo_may_end:
  "may_end demo_world (Run_out (Resume_signal False 9)) c"
  "end_answer demo_world (Run_out (Resume_signal False 9)) c = Some ''X09''"
proof -
  have s: "signal_of demo_world 9 = 9" "signal_number demo_world 9 = 9"
    using darwin_kill_signal darwin_kill_number by (simp_all add: signal_of_def signal_number_def demo_world_def)
  have "w_end demo_world False 9 v rs = Some (WSignaled 9)" for v rs by (simp add: demo_world_def)
  then have "last_status demo_world (Resume_signal False 9) c = Some (CHR ''X'', 9)"
    using s(1) by (simp add: last_status_def resumption_def end_status_def)
  moreover have "end_text CHR ''X'' 9 = ''X09''" by (simp add: end_text_def hex_byte_def hex_digit_def char_of_def bit_0)
  ultimately show "may_end demo_world (Run_out (Resume_signal False 9)) c"
    "end_answer demo_world (Run_out (Resume_signal False 9)) c = Some ''X09''"
    using s(2) by (simp_all add: well_formed_def has_number_def)
qed

lemma demo_left:
  "\<exists>k'. detach_wait running_kernel (w_pid demo_world) (snd (k_ptrace running_kernel PT_DETACH (w_pid demo_world) 1 0 k)) = Some ((), k')"
  "left_by flat_mem flat_maps fl_regs fl_fregs running_kernel demo_world Kill c k' \<Longrightarrow> hd (fl_log k') = (PT_KILL, 100, 0)"
  "left_by flat_mem flat_maps fl_regs fl_fregs running_kernel demo_world Detach c k' \<Longrightarrow>
     hd (fl_log k') = (PT_DETACH, 100, 0) \<and> flat_mem k' 7 = with_traps (cl_bps c) (cl_mem c)"
  by (auto simp: left_by_def holds_program_def Let_def running_kernel_def demo_world_def flat_kernel_def flat_mem_def
      detach_wait.simps split: if_splits)

lemma demo_left_run_out:
  assumes "left_by flat_mem flat_maps fl_regs fl_fregs running_kernel demo_world (Run_out (Resume_signal False 9)) c k'"
  shows "flat_mem k' 7 12288 = with_traps (cl_bps c) (cl_mem c) 12288 + 1"
proof -
  have s: "resumption demo_world (Resume_signal False 9) = Some (False, 9)"
    using darwin_kill_signal by (simp add: resumption_def signal_of_def demo_world_def)
  with assms show ?thesis
    by (auto simp: left_by_def holds_program_def running_kernel_def demo_world_def flat_mem_def wait_loop.simps)
qed

theorem main_ends_with_its_client_witness:
  "(\<exists>t. main running_kernel darwin_host (darwin_ops running_kernel) demo_files None
      (demo_network [''?'', ''C09'']) demo_args demo_fresh = (Quit 0, t) \<and> flat_mem (kst t) 7 12288 = 2
    \<and> tx (net t) = ''+'' @ concat (map (\<lambda>r. ''-+'' @ frame r @ frame r)
        [stop_text 5 (ppc_image demo_regs demo_fregs) 100, ''X09'']))
  \<and> (\<exists>t. main running_kernel darwin_host (darwin_ops running_kernel) demo_files None
      (demo_network [''?'', ''D'']) demo_args demo_fresh = (Quit 0, t) \<and> hd (fl_log (kst t)) = (PT_DETACH, 100, 0)
    \<and> flat_mem (kst t) 7 12288 = 1
    \<and> tx (net t) = ''+'' @ concat (map (\<lambda>r. ''-+'' @ frame r @ frame r)
        [stop_text 5 (ppc_image demo_regs demo_fregs) 100, ''OK'']))
  \<and> (\<exists>t. main running_kernel darwin_host (darwin_ops running_kernel) demo_files None
      (demo_network [''?'', ''k'']) demo_args demo_fresh = (Quit 0, t) \<and> hd (fl_log (kst t)) = (PT_KILL, 100, 0)
    \<and> tx (net t) = ''+-+'' @ frame (stop_text 5 (ppc_image demo_regs demo_fregs) 100)
        @ frame (stop_text 5 (ppc_image demo_regs demo_fregs) 100) @ ''-+'')"
    (is "?run_out \<and> ?detach \<and> ?kill")
proof -
  let ?conv = "[(demo_delivery ''?'', Ask_stop)]" and ?d = "\<lambda>e. demo_delivery (end_packet e)"
  let ?conn = "\<lambda>e. snd (sock_write ''+'' (demo_connection [''?'', end_packet e]))"
  let ?c = "(demo_start (command_line demo_args))\<lparr>cl_mem := (\<lambda>_. 0)(12288 := 1), cl_stored := True, cl_signo := 5, cl_fetched := False, cl_bps := []\<rparr>"
  have "corrupt 2000 (''g'', 6, 6)" by (simp add: corrupt_def c7_ascii byte_of_char_def)
  then have script: "acked_script 2000 (map (\<lambda>(d, r). (d, packet_of r)) ?conv @ [(?d e, end_packet e)]) [] (?conn e)" for e
    by (simp add: acked_script_def demo_connection_def demo_delivery_def demo_delivery_chunks sock_write_all)
  have f: "w_pid demo_world = 100" "w_host demo_world = darwin_host" by (simp_all add: demo_world_def)
  have ac: "acceptable_all demo_world (map snd ?conv) ?c" using demo_signal by simp
  have serve: "fst (serve_all demo_world (map snd ?conv) ?c) = [stop_text 5 (ppc_image demo_regs demo_fregs) 100]"
    using demo_signal(1) f(1) by (simp add: demo_start_fields)
  have net: "tx (?conn e) = ''+''" for e by (simp add: demo_connection_def sock_write_all)
  note whole = main_ends_with_its_client [OF counting.running_program_axioms demo_fresh(1) refl demo_begun demo_stops
      demo_entered(1) [unfolded demo_start_def] demo_entered(2) [unfolded demo_start_def, symmetric] demo_connects
      script ac [unfolded demo_start_def] _ demo_left(1), of _ None, folded demo_start_def, unfolded serve f(2) net]
  show ?thesis
  proof (intro conjI)
    from whole [of "Run_out (Resume_signal False 9)"]
    show "?run_out"
      by (auto simp: demo_may_end demo_delivery_def hex_byte_09 with_traps_def simp del: may_end.simps(1) end_answer.simps(3)
          dest!: demo_left_run_out)
    from whole [of Detach] show "?detach"
      by (auto simp: demo_delivery_def with_traps_def dest!: demo_left(3))
    from whole [of Kill] show "?kill" by (auto simp: demo_delivery_def dest: demo_left(2))
  qed
qed

end
