(* ===== verification/Spec2Isabelle.thy ===== *)
theory Spec2Isabelle
  imports Dispatch WireProps MemProps RegProps ResumeProps SessionProps ThreadProps VContProps
    MemSession EndProps LeftStopped MainProps
begin

text \<open>
  A model of osxgdbserver, a remote server for the GNU debugger on Mac OS X for PowerPC (the C files
  under src/src and src/include), and its properties.

  \<^bold>\<open>The program.\<close>  A client sends packets over a connection; the server answers each one, and controls the
  debugged program through calls of the kernel.  \<^verbatim>\<open>main\<close> starts or attaches to the program and enters
  \<^verbatim>\<open>packet_loop\<close>: \<^verbatim>\<open>getpkt\<close> reads a packet into \<^verbatim>\<open>own_buf\<close>, \<^verbatim>\<open>handle_packet\<close> dispatches on its first character
  to a handler that puts the reply into the same buffer, and \<^verbatim>\<open>putpkt\<close> sends it.  The handlers use the
  breakpoints (mem-break.c), the register cache of the current thread (regcache.c), the list of
  threads (inferiors.c) and the target's table of functions (darwin-low.c, darwin-ppc-low.c).

  \<^bold>\<open>How it is modelled.\<close>  A C function is a \<open>prog\<close> (theory \<open>Prelude\<close>): from a state to an outcome and a
  state.  The outcome is \<open>Ret\<close>, a call of \<^verbatim>\<open>error\<close> (\<open>Err\<close>, the \<^verbatim>\<open>longjmp\<close> to the last \<^verbatim>\<open>setjmp\<close>), the end of
  the process (\<open>Quit\<close>), an access outside an object (\<open>Fault\<close>), or a wait without end (\<open>Hang\<close>).  The
  globals of the C files are one record that grows from theory to theory: \<open>machine\<close> with the state
  of the kernel, the registers of \<open>RegDefs\<close>, then \<open>Inferiors\<close>, \<open>Darwin\<close>, \<open>MemBreak\<close>, \<open>Target\<close>, \<open>Remote\<close> and
  \<open>Server\<close>.  Objects that the code reaches through pointers (list entries, threads, processes) are in
  maps from addresses; a breakpoint carries its address in \<open>bp_addr\<close>.  \<^verbatim>\<open>char\<close> buffers are lists of
  fixed length in which C strings end at the first NUL (\<open>cstr\<close>), bytes and registers are words, C
  integers are \<open>int\<close> or \<open>nat\<close> with the wrap-around written out where it can occur.  The target is
  big-endian, as the PowerPC is.

  \<^bold>\<open>What is a parameter.\<close>  The kernel is not in the repository: it is a record of functions \<open>'k kernel\<close>
  over a state of its own, an argument of the definitions.  \<open>kernel_memory\<close> (\<open>DarwinMemory\<close>), \<open>kernel_unmapped\<close>
  (\<open>Unmapped\<close>) and \<open>kernel_registers\<close> (\<open>DarwinRegs\<close>) state what its calls for memory and registers are documented to do;
  \<open>FlatKernel\<close> is a concrete kernel that fulfils them, and the witnesses run on it.  The numbers of the
  host's signals (\<open>host_signals\<close>), the sockets of \<open>remote_open\<close> (\<open>network\<close>) and the
  target table \<open>target_ops\<close> are parameters too; \<open>darwin_ops\<close> is
  the table that darwin-low.c fills in.

  \<^bold>\<open>The theories of the model.\<close>
  \<^item> \<open>Prelude\<close>, \<open>Libc\<close>: programs, buffers, big-endian bytes; \<^verbatim>\<open>strtol\<close>, \<^verbatim>\<open>strtoul\<close>, \<^verbatim>\<open>sprintf\<close> of numbers.
  \<^item> \<open>Kernel\<close>: the kernel and the interface of include/target.h.
  \<^item> \<open>Signals\<close>: signals.c.  \<open>RegDefs\<close>: reg-ppc.c and the table part of regcache.c.
  \<^item> \<open>Hex\<close>, \<open>Packets\<close>, \<open>Remote\<close>: remote-utils.c (the codec; \<^verbatim>\<open>readchar\<close>, \<^verbatim>\<open>getpkt\<close>, \<^verbatim>\<open>putpkt\<close> over a
    connection; replies, stop replies, asynchronous input).
  \<^item> \<open>Inferiors\<close>: inferiors.c.  \<open>Regcache\<close>: regcache.c.
  \<^item> \<open>Darwin\<close>: darwin-low.c and darwin-ppc-low.c.
  \<^item> \<open>MemBreak\<close>: mem-break.c and the memory access of target.c.  \<open>Target\<close>: the rest of target.c.
  \<^item> \<open>Server\<close>, \<open>Dispatch\<close>: server.c.

  \<^bold>\<open>What is proved.\<close>
  \<^item> The wire (\<open>Framing\<close>, \<open>WireProps\<close>): \<open>stream\<close> is the input to come however it is cut into chunks;
    \<^verbatim>\<open>getpkt\<close> and \<^verbatim>\<open>putpkt\<close> are characterised over it, with corrupted packets and repeated frames.  The
    codec, the decoders of \<^verbatim>\<open>m\<close> and \<^verbatim>\<open>M\<close> and the signal numbers are inverse to the printing.
  \<^item> Memory (\<open>Shadow\<close>, \<open>ShadowOps\<close>, \<open>DarwinMemory\<close>, \<open>MemProps\<close>, \<open>MemSession\<close>): the specification is the memory
    as the client sees it, \<open>shadow_of\<close>; the locale \<open>memory_target\<close> is what mem-break.c needs of the
    target, and every operation is shown to act on that memory as it promises.  \<open>kernel_memory\<close> gives
    this contract to the Darwin functions, which retry with changed protection.  \<open>MemSession\<close> goes on to
    the packets \<^verbatim>\<open>m\<close> and \<^verbatim>\<open>M\<close>.  \<open>Unmapped\<close> has the other half, memory that does not exist, where the Darwin functions
    fall back to \<^verbatim>\<open>ptrace\<close> word by word: the locale \<open>kernel_unmapped\<close> says how the kernel refuses.
  \<^item> Registers (\<open>DarwinRegs\<close>, \<open>RegProps\<close>): \<open>ppc_image\<close> is the register cache as a function of the kernel's
    structures; \<open>thread_regs\<close> is what the client should see.
  \<^item> Resuming (\<open>ResumeProps\<close>, \<open>VContProps\<close>, \<open>EndProps\<close>, \<open>LeftStopped\<close>): registers and signal reach the kernel,
    interrupted waits are repeated, the stop reply has the new signal and registers; when the process exits
    instead, what the client is told of its status; \<^verbatim>\<open>vCont\<close> packets are parsed in bounds and to what they say, and a
    thread that one leaves stopped runs.
  \<^item> Threads (\<open>ThreadProps\<close>): \<open>wf_list\<close> relates the linked list to the list of its addresses, and the
    operations are those of lists.
  \<^item> Sessions (\<open>Observers\<close>, \<open>SessionProps\<close>, \<open>StartProps\<close>): \<open>preserves\<close> collects what a handler leaves alone; the
    locales of \<open>Observers\<close> derive it from the steps a handler is made of.  It gives the invariant of
    sessions and the end of the packet loop.  The entry point is read from any well-formed executable.
  \<^item> The client's view (\<open>Client\<close> and the theories that begin with this name): \<open>Client\<close> is an abstract
    machine, the program as the client sees it: memory, breakpoints, registers and the signal of the
    last stop, with the reply and effect of every request; the requests to continue and step (\<^verbatim>\<open>c\<close>, \<^verbatim>\<open>s\<close>, \<^verbatim>\<open>C\<close>,
    \<^verbatim>\<open>S\<close> and \<^verbatim>\<open>vCont\<close>) run the program, a function \<open>w_run\<close>, on the memory with the traps.  \<open>ClientSession\<close> (memory and
    registers), \<open>ClientQueries\<close> (queries, settings and packets the server does not know) and \<open>ClientRun\<close> (running the
    program) show that every handler simulates it, over a kernel whose calls for memory and for registers do
    not interfere (\<open>debugged_program\<close>) and that runs the program as \<open>w_run\<close> and \<open>w_end\<close> say (\<open>running_program\<close>).
  \<^item> Sessions over a connection (\<open>Transport\<close>, \<open>ClientTurns\<close>, \<open>ClientEnd\<close>, \<open>ClientProps\<close>): \<open>turns\<close> is what one turn of the packet
    loop needs of the connection, and \<open>transport\<close> what a whole session does; both modes of the protocol provide
    them.  \<open>ClientTurns\<close> composes them with the machine: the packet loop answers any sequence of requests as the
    machine does, also across the packet that turns acknowledgements off.  With acknowledgements any packet may
    be damaged and sent again; without them stray characters between packets are skipped, such as the
    acknowledgement of the OK to that packet.  \<open>ClientEnd\<close> has the other ways a
    session ends than the client hanging up: the client kills the process or detaches from it, or the process
    exits or is killed while it runs (\<open>w_end\<close>); the server then exits, and \<open>left_by\<close> is what became of the process:
    in which state the kernel had it (\<open>holds_program\<close>) and what was done with it.
  \<^item> The whole program (\<open>Launch\<close>, \<open>MainProps\<close>): from the state C leaves the globals in, \<^verbatim>\<open>main\<close> creates the process
    or attaches to it, brings a new one to its entry point and so reaches a state of the machine
    (\<open>at_start\<close>); then it opens the connection and serves the session to its end, whichever of the ends it is.
    Outside the machine are memory requests of which only a part exists, breakpoints outside memory, \<^verbatim>\<open>vCont\<close>
    packets with no action for the process, damaged packets without acknowledgements, and detaching when
    registers written since the program last ran have not reached it (\<open>cl_stored\<close>); what holds of every packet
    (\<open>every_session_ends\<close>, \<open>extended_protocol_is_never_set\<close>) holds of them, and the errors below say what the
    server does with some.
  \<^item> Errors: buffers without a bound (\<open>getpkt_has_no_bound\<close>, \<open>m_overruns_the_buffers\<close>), a table index
    without a check (\<open>p_reads_outside_table\<close>), a lost register write (\<open>P_then_g\<close>), a breakpoint shown to the
    client (\<open>duplicate_breakpoint_shows_trap\<close>), an exit status translated like a signal
    (\<open>exit_status_is_lost\<close>), a thread that is to stay stopped and runs (\<open>left_stopped_thread_runs\<close>), register
    writes that do not reach a process that is detached from (\<open>detach_loses_registers\<close>), memory that does not
    exist (\<open>missing_memory_goes_unreported\<close>), the order of reply and mode (\<open>no_ack_from_the_reply_on\<close>), minus signs
    without acknowledgements (\<open>no_ack_mode_asks_again\<close>).

  \<open>Exchange\<close> composes a turn of the packet loop from \<^verbatim>\<open>getpkt\<close>, a handler and \<^verbatim>\<open>putpkt\<close>; with it \<open>MemSession\<close>
  follows a request from the bytes on the connection to the bytes of the reply.
  \<open>ServerFacts\<close> and \<open>Demo\<close> hold evaluation lemmas for handlers and the server of the witnesses.

  \<^bold>\<open>Loops.\<close>  No definition has fuel.  The loops of the connection terminate because they consume
  \<open>pending\<close>, the characters still to come (\<open>Packets\<close>); \<^verbatim>\<open>getpkt\<close> takes the end of the input as its last
  read.  Loops over tables, strings and lists are structural or have a measure.  Loops that may run
  forever are partial functions: over linked lists, which may be cyclic (\<open>for_each_loop\<close>, \<open>find_loop\<close>,
  \<open>remove_loop\<close>), over \<^verbatim>\<open>waitpid\<close> (\<open>wait_loop\<close>, \<open>detach_wait\<close>), and the packet loop itself; their \<open>None\<close>
  becomes \<open>Hang\<close>, and the theorems on well-formed lists, on waits and on the packet loop give a result.

  \<^bold>\<open>Not modelled.\<close>  Log output and warnings, and the text that \<^verbatim>\<open>error\<close> prints beyond the fixed part of its
  message: output only.  The settings of the serial line and of the sockets.  The release of Mach
  buffers and of \<^verbatim>\<open>malloc\<close>ed memory that nothing refers to, and a \<^verbatim>\<open>malloc\<close> that fails.  The delivery of
  \<^verbatim>\<open>SIGIO\<close> at any moment: \<open>input_interrupt\<close> is a program of its own, run by nothing, as the signal is
  ignored whenever the server waits.  The Makefile, terminal.h and config.h have no behaviour.
\<close>

end
